(* ===== verification/Panthera_Prelude.thy ===== *)
theory Panthera_Prelude
  imports "HOL-Library.Word"
begin

text \<open>
  Shared base of the development: the C integer types as words, the little-endian byte codec,
  the byte-addressed memory the boot loader works on, C strings, and the named collections of
  rewrite rules the component theories use.
  Addresses are 64-bit words and address ranges are modular: the byte at \<open>x\<close> lies in the range
  of \<open>n\<close> bytes from \<open>a\<close> when the distance \<open>x - a\<close>, taken in 64 bits, is below \<open>n\<close>.
\<close>

unbundle bit_operations_syntax

section \<open>Integer types\<close>

type_synonym u8 = "8 word"
type_synonym u16 = "16 word"
type_synonym u32 = "32 word"
type_synonym u64 = "64 word"

type_synonym mem = "u64 \<Rightarrow> u8"

named_theorems mem_simps \<open>reads and writes of the byte memory\<close>
named_theorems eval_mem \<open>evaluation of reads and writes at concrete addresses\<close>
named_theorems codec_simps \<open>little-endian encoding and decoding\<close>

section \<open>Little-endian codec\<close>

primrec le_join :: "u8 list \<Rightarrow> 'a::len word" where
  "le_join [] = 0"
| "le_join (b # bs) = ucast b OR push_bit 8 (le_join bs)"

primrec le_split :: "nat \<Rightarrow> 'a::len word \<Rightarrow> u8 list" where
  "le_split 0 w = []"
| "le_split (Suc n) w = ucast w # le_split n (drop_bit 8 w)"

section \<open>Memory access\<close>

primrec rd_bytes :: "mem \<Rightarrow> u64 \<Rightarrow> nat \<Rightarrow> u8 list" where
  "rd_bytes m a 0 = []"
| "rd_bytes m a (Suc n) = m a # rd_bytes m (a + 1) n"

primrec wr_bytes :: "mem \<Rightarrow> u64 \<Rightarrow> u8 list \<Rightarrow> mem" where
  "wr_bytes m a [] = m"
| "wr_bytes m a (b # bs) = wr_bytes (m(a := b)) (a + 1) bs"

definition rd32 :: "mem \<Rightarrow> u64 \<Rightarrow> u32" where
  "rd32 m a = le_join (rd_bytes m a 4)"

definition rd64 :: "mem \<Rightarrow> u64 \<Rightarrow> u64" where
  "rd64 m a = le_join (rd_bytes m a 8)"

definition wr32 :: "mem \<Rightarrow> u64 \<Rightarrow> u32 \<Rightarrow> mem" where
  "wr32 m a v = wr_bytes m a (le_split 4 v)"

definition wr64 :: "mem \<Rightarrow> u64 \<Rightarrow> u64 \<Rightarrow> mem" where
  "wr64 m a v = wr_bytes m a (le_split 8 v)"

definition in_range :: "u64 \<Rightarrow> nat \<Rightarrow> u64 \<Rightarrow> bool" where
  "in_range a n x \<longleftrightarrow> unat (x - a) < n"

definition mem_eq_on :: "u64 \<Rightarrow> nat \<Rightarrow> mem \<Rightarrow> mem \<Rightarrow> bool" where
  "mem_eq_on a n m m' \<longleftrightarrow> (\<forall>x. in_range a n x \<longrightarrow> m x = m' x)"

definition mem_eq_off :: "u64 \<Rightarrow> nat \<Rightarrow> mem \<Rightarrow> mem \<Rightarrow> bool" where
  "mem_eq_off a n m m' \<longleftrightarrow> (\<forall>x. \<not> in_range a n x \<longrightarrow> m x = m' x)"

definition mem_of :: "u64 \<Rightarrow> u8 list \<Rightarrow> mem" where
  "mem_of a bs = wr_bytes (\<lambda>_. 0) a bs"

section \<open>C strings\<close>

text \<open>A C string is the list of its bytes before the terminator; reading it at its length gives
  the terminator.\<close>

definition cstr_at :: "u8 list \<Rightarrow> nat \<Rightarrow> u8" where
  "cstr_at s i = (if i < length s then s ! i else 0)"

definition bytes_of_string :: "string \<Rightarrow> u8 list" where
  "bytes_of_string s = map (\<lambda>c. of_nat (of_char c)) s"

lemma takeWhile_nonzero: "0 \<notin> set s \<Longrightarrow> takeWhile (\<lambda>c. c \<noteq> (0 :: 'a::len word)) s = s"
  by (auto simp: takeWhile_eq_all_conv)

section \<open>Codec laws\<close>

lemma length_le_split [simp]: "length (le_split n w) = n"
  by (induction n arbitrary: w) auto

lemma bit_le_join:
  "bit (le_join bs :: 'a::len word) k \<longleftrightarrow>
     k < LENGTH('a) \<and> k div 8 < length bs \<and> bit (bs ! (k div 8)) (k mod 8)"
proof (induction bs arbitrary: k)
  case Nil
  then show ?case by simp
next
  case (Cons b bs)
  show ?case
  proof (cases "k < 8")
    case True
    then show ?thesis
      by (auto simp: bit_simps)
  next
    case False
    then obtain j where k: "k = j + 8" by (metis add.commute le_Suc_ex not_less)
    have div: "(j + 8) div 8 = Suc (j div 8)" by simp
    have "\<not> bit b (j + 8)" using bit_imp_le_length [of b "j + 8"] by auto
    then show ?thesis
      using Cons.IH [of j] by (auto simp: k div bit_simps)
  qed
qed

lemma nth_le_split: "i < n \<Longrightarrow> le_split n w ! i = ucast (drop_bit (8 * i) w)"
proof (induction n arbitrary: i w)
  case 0
  then show ?case by simp
next
  case (Suc n)
  then show ?case by (cases i) (auto simp: algebra_simps)
qed

lemma le_join_split [codec_simps]:
  "LENGTH('a::len) \<le> 8 * n \<Longrightarrow> le_join (le_split n w) = (w :: 'a word)"
proof (rule bit_word_eqI)
  fix k
  assume len: "LENGTH('a) \<le> 8 * n" and k: "k < LENGTH('a)"
  then have "k div 8 < n" by auto
  then show "bit (le_join (le_split n w) :: 'a word) k = bit w k"
    using k by (auto simp: bit_le_join nth_le_split bit_simps)
qed

lemma le_split_join [codec_simps]:
  "length bs = n \<Longrightarrow> 8 * n \<le> LENGTH('a::len) \<Longrightarrow> le_split n (le_join bs :: 'a word) = bs"
proof (rule nth_equalityI)
  fix i
  assume len: "length bs = n" and w: "8 * n \<le> LENGTH('a)"
    and i: "i < length (le_split n (le_join bs :: 'a word))"
  show "le_split n (le_join bs :: 'a word) ! i = bs ! i"
  proof (rule bit_word_eqI)
    fix k assume "k < LENGTH(8)"
    then have k: "k < 8" by simp
    then have "(8 * i + k) div 8 = i" and "(8 * i + k) mod 8 = k" by auto
    then show "bit (le_split n (le_join bs :: 'a word) ! i) k = bit (bs ! i) k"
      using i k len w
      by (auto simp: nth_le_split bit_simps bit_le_join)
  qed
qed simp

section \<open>Memory laws\<close>

lemma length_rd_bytes [simp]: "length (rd_bytes m a n) = n"
  by (induction n arbitrary: a) auto

declare rd32_def [eval_mem] rd64_def [eval_mem]

lemma rd_bytes_numeral [eval_mem]:
  "rd_bytes m a (numeral k) = m a # rd_bytes m (a + 1) (pred_numeral k)"
  by (simp add: numeral_eq_Suc)

lemma nth_rd_bytes: "i < n \<Longrightarrow> rd_bytes m a n ! i = m (a + of_nat i)"
proof (induction n arbitrary: i a)
  case 0
  then show ?case by simp
next
  case (Suc n)
  then show ?case by (cases i) (auto simp: algebra_simps)
qed

lemma unat_minus_Suc:
  fixes x a :: u64
  assumes "x \<noteq> a"
  shows "unat (x - a) = Suc (unat (x - (a + 1)))"
proof -
  have nz: "x - a \<noteq> 0" using assms by simp
  have "unat (x - a - 1) = unat (x - a) - 1" by (rule unat_minus_one [OF nz])
  moreover have "0 < unat (x - a)" using nz unat_gt_0 by blast
  moreover have "x - a - 1 = x - (a + 1)" by (rule diff_diff_add)
  ultimately show ?thesis by simp
qed

lemma unat_lt2p: "unat (x :: 'a::len word) < 2 ^ LENGTH('a)"
  by (rule unsigned_less)

lemma unat_minus_1_word: "unat (- 1 :: u64) = 2 ^ 64 - 1"
  by (simp add: unat_eq_nat_uint uint_word_ariths)

lemma unat_add_le: "unat (x + y :: 'a::len word) \<le> unat x + unat y"
  by (simp add: unat_word_ariths)

lemma unat_of_nat_small: "i < 2 ^ LENGTH('a::len) \<Longrightarrow> unat (of_nat i :: 'a word) = i"
  by (simp add: unat_of_nat)

lemma wr_bytes_apply:
  "length bs \<le> 2 ^ 64 \<Longrightarrow>
   wr_bytes m a bs x = (if in_range a (length bs) x then bs ! unat (x - a) else m x)"
proof (induction bs arbitrary: m a)
  case Nil
  then show ?case by (simp add: in_range_def)
next
  case (Cons b bs)
  then have len: "length bs \<le> 2 ^ 64" "length bs < 2 ^ 64" by auto
  show ?case
  proof (cases "x = a")
    case True
    have "a - (a + 1) = - (1 :: u64)" by simp
    then have "\<not> unat (a - (a + 1)) < length bs"
      using len(2) by (simp only: unat_minus_1_word)
    then have "wr_bytes (m(a := b)) (a + 1) bs a = (m(a := b)) a"
      using Cons.IH [OF len(1), of "m(a := b)" "a + 1"] True
      by (simp only: in_range_def if_False)
    then show ?thesis
      unfolding True by (simp add: in_range_def)
  next
    case False
    then have "wr_bytes (m(a := b)) (a + 1) bs x =
        (if unat (x - (a + 1)) < length bs then bs ! unat (x - (a + 1)) else m x)"
      using Cons.IH [OF len(1), of "m(a := b)" "a + 1"]
      by (simp only: in_range_def fun_upd_other not_False_eq_True)
    then show ?thesis
      using unat_minus_Suc [OF False] by (simp add: in_range_def)
  qed
qed

lemma in_range_sub:
  assumes "unat off + k \<le> n" and "in_range (a + off) k x"
  shows "in_range a n x"
proof -
  have "x - a = (x - (a + off)) + off" by simp
  then have "unat (x - a) \<le> unat (x - (a + off)) + unat off"
    by (metis unat_add_le)
  then show ?thesis using assms by (simp add: in_range_def)
qed

lemma in_range_mono: "in_range a k x \<Longrightarrow> k \<le> n \<Longrightarrow> in_range a n x"
  by (simp add: in_range_def)

lemma in_range_of_nat:
  assumes "i < n" and "n \<le> 2 ^ 64"
  shows "in_range a n (a + of_nat i)"
proof -
  have "unat (of_nat i :: u64) = i" using assms by (intro unat_of_nat_small) simp
  then show ?thesis using assms by (simp add: in_range_def)
qed

lemma mem_eq_on_sub:
  "mem_eq_on a n m m' \<Longrightarrow> unat off + k \<le> n \<Longrightarrow> mem_eq_on (a + off) k m m'"
  using in_range_sub by (auto simp: mem_eq_on_def)

lemma rd_bytes_cong:
  assumes "mem_eq_on a n m m'" and "n \<le> 2 ^ 64"
  shows "rd_bytes m a n = rd_bytes m' a n"
  using assms
  by (intro nth_equalityI) (auto simp: nth_rd_bytes mem_eq_on_def in_range_of_nat)

lemma rd_bytes_eq_on:
  assumes "rd_bytes m a n = rd_bytes m' a n" and "n \<le> 2 ^ 64"
  shows "mem_eq_on a n m m'"
  unfolding mem_eq_on_def in_range_def
proof (intro allI impI)
  fix x assume "unat (x - a) < n"
  then show "m x = m' x"
    using nth_rd_bytes [of "unat (x - a)" n m a] nth_rd_bytes [of "unat (x - a)" n m' a] assms(1) by simp
qed

lemma rd32_cong: "mem_eq_on a 4 m m' \<Longrightarrow> rd32 m a = rd32 m' a"
  by (simp add: rd32_def rd_bytes_cong)

lemma rd64_cong: "mem_eq_on a 8 m m' \<Longrightarrow> rd64 m a = rd64 m' a"
  by (simp add: rd64_def rd_bytes_cong)

lemma mem_eq_on_mono: "mem_eq_on a n m m' \<Longrightarrow> k \<le> n \<Longrightarrow> mem_eq_on a k m m'"
  using mem_eq_on_sub [of a n m m' 0 k] by simp

lemma rd32_at:
  "mem_eq_on a n m m' \<Longrightarrow> unat off + 4 \<le> n \<Longrightarrow> rd32 m (a + off) = rd32 m' (a + off)"
  by (intro rd32_cong mem_eq_on_sub)

lemma rd64_at:
  "mem_eq_on a n m m' \<Longrightarrow> unat off + 8 \<le> n \<Longrightarrow> rd64 m (a + off) = rd64 m' (a + off)"
  by (intro rd64_cong mem_eq_on_sub)

lemma rd_bytes_at:
  "mem_eq_on a n m m' \<Longrightarrow> unat off + k \<le> n \<Longrightarrow> k \<le> 2 ^ 64 \<Longrightarrow>
   rd_bytes m (a + off) k = rd_bytes m' (a + off) k"
  by (intro rd_bytes_cong mem_eq_on_sub)

lemma mem_at: "mem_eq_on a n m m' \<Longrightarrow> unat off < n \<Longrightarrow> m (a + off) = m' (a + off)"
  by (simp add: mem_eq_on_def in_range_def)

lemma mem_eq_on_sym: "mem_eq_on a n m m' \<Longrightarrow> mem_eq_on a n m' m"
  by (simp add: mem_eq_on_def)

lemmas reads_at = rd32_at rd64_at rd_bytes_at mem_at
  rd32_at [where off = 0, simplified] rd64_at [where off = 0, simplified]
  rd_bytes_at [where off = 0, simplified]

lemma rd_wr_bytes_same:
  assumes "length bs \<le> 2 ^ 64"
  shows "rd_bytes (wr_bytes m a bs) a (length bs) = bs"
proof (rule nth_equalityI)
  fix i assume "i < length (rd_bytes (wr_bytes m a bs) a (length bs))"
  then have i: "i < length bs" by simp
  then have "unat (of_nat i :: u64) = i" using assms by (intro unat_of_nat_small) simp
  then show "rd_bytes (wr_bytes m a bs) a (length bs) ! i = bs ! i"
    using i assms by (simp add: nth_rd_bytes wr_bytes_apply in_range_def)
qed simp

definition disjoint_ranges :: "u64 \<Rightarrow> nat \<Rightarrow> u64 \<Rightarrow> nat \<Rightarrow> bool" where
  "disjoint_ranges a n b k \<longleftrightarrow> (\<forall>x. \<not> (in_range a n x \<and> in_range b k x))"

lemma rd_wr_bytes_disjoint:
  assumes "disjoint_ranges a (length bs) b n" and "length bs \<le> 2 ^ 64" and "n \<le> 2 ^ 64"
  shows "rd_bytes (wr_bytes m a bs) b n = rd_bytes m b n"
  using assms
  by (intro rd_bytes_cong) (auto simp: mem_eq_on_def wr_bytes_apply disjoint_ranges_def)

lemma rd64_wr64_same [mem_simps]: "rd64 (wr64 m a v) a = v"
  using rd_wr_bytes_same [of "le_split 8 v" m a] by (simp add: rd64_def wr64_def codec_simps)

lemma rd32_wr32_same [mem_simps]: "rd32 (wr32 m a v) a = v"
  using rd_wr_bytes_same [of "le_split 4 v" m a] by (simp add: rd32_def wr32_def codec_simps)

lemma rd64_wr64_disjoint: "disjoint_ranges a 8 b 8 \<Longrightarrow> rd64 (wr64 m a v) b = rd64 m b"
  by (simp add: rd64_def wr64_def rd_wr_bytes_disjoint)

lemma wr64_off: "mem_eq_off a 8 m (wr64 m a v)"
  by (simp add: mem_eq_off_def wr64_def wr_bytes_apply)

lemma wr32_off: "mem_eq_off a 4 m (wr32 m a v)"
  by (simp add: mem_eq_off_def wr32_def wr_bytes_apply)

lemma mem_eq_off_refl [simp]: "mem_eq_off a n m m"
  by (simp add: mem_eq_off_def)

lemma mem_eq_off_trans: "mem_eq_off a n m m' \<Longrightarrow> mem_eq_off a n m' m'' \<Longrightarrow> mem_eq_off a n m m''"
  by (simp add: mem_eq_off_def)

lemma mem_eq_off_sub:
  "mem_eq_off (a + off) k m m' \<Longrightarrow> unat off + k \<le> n \<Longrightarrow> mem_eq_off a n m m'"
  unfolding mem_eq_off_def by (metis in_range_sub)

section \<open>Width changes\<close>

lemma unat_ucast32 [simp]: "unat (ucast (x :: u32) :: u64) = unat x"
  by (simp add: unsigned_ucast_eq take_bit_nat_eq_self order_less_le_trans [OF unat_lt2p])

lemma unat_ucast8 [simp]: "unat (ucast (x :: u8) :: u16) = unat x"
  by (simp add: unsigned_ucast_eq take_bit_nat_eq_self order_less_le_trans [OF unat_lt2p])

lemma ucast_of_nat_32: "ucast (of_nat n :: u64) = (of_nat n :: u32)"
  by (rule bit_word_eqI) (auto simp: bit_simps)

lemma unat_ucast32_mult:
  assumes "k \<le> 2 ^ 32"
  shows "unat (ucast (x :: u32) * of_nat k :: u64) = unat x * k"
proof -
  have "unat x * k < 2 ^ 64"
  proof -
    have "unat x * k \<le> (2 ^ 32 - 1) * 2 ^ 32"
      using assms unat_lt2p [of x] by (intro mult_le_mono) auto
    then show ?thesis by simp
  qed
  then show ?thesis
    using assms by (simp add: unat_word_ariths unat_of_nat)
qed

lemma unat_Suc32: "unat (i :: u32) + 1 < 2 ^ 32 \<Longrightarrow> unat (i + 1) = unat i + 1"
  by (simp add: unat_word_ariths)

lemma in_range_bounds:
  assumes "in_range a n x" and "unat a + n \<le> 2 ^ 64"
  shows "unat a \<le> unat x \<and> unat x < unat a + n"
  using assms unat_lt2p [of x] by (auto simp: in_range_def unat_sub_if' split: if_splits)

lemma disjoint_rangesI:
  assumes "unat a + n \<le> unat b \<or> unat b + k \<le> unat a"
    and "unat a + n \<le> 2 ^ 64" and "unat b + k \<le> 2 ^ 64"
  shows "disjoint_ranges a n b k"
  unfolding disjoint_ranges_def
proof (intro allI notI)
  fix x assume "in_range a n x \<and> in_range b k x"
  then show False
    using assms in_range_bounds [of a n x] in_range_bounds [of b k x] by auto
qed

lemma word_less_Suc32: "(i :: u32) < n \<Longrightarrow> unat (i + 1) = unat i + 1"
  using unat_lt2p [of n] by (intro unat_Suc32) (simp add: word_less_nat_alt)

lemma ucast_Suc32: "(i :: u32) < n \<Longrightarrow> (ucast (i + 1) :: u64) = ucast i + 1"
  using word_less_Suc32 [of i n] unat_lt2p [of i]
  by (intro word_unat_eq_iff [THEN iffD2]) (simp add: unat_word_ariths)

lemma loop_decr32: "(i :: u32) < n \<Longrightarrow> 4294967296 - unat (i + 1) < 4294967296 - unat i"
  using unat_lt2p [of i] by (simp add: word_less_Suc32)

lemma word_diff_range:
  fixes d off :: u64
  assumes "unat off + n \<le> 2 ^ 64"
  shows "unat (d - off) < n \<longleftrightarrow> unat off \<le> unat d \<and> unat d < unat off + n"
  using assms unat_lt2p [of d] unat_lt2p [of off] by (auto simp: unat_sub_if')

lemma in_range_offset:
  assumes "unat off + n \<le> 2 ^ 64"
  shows "in_range (a + off) n x \<longleftrightarrow> unat off \<le> unat (x - a) \<and> unat (x - a) < unat off + n"
proof -
  have d: "x - (a + off) = (x - a) - off" by simp
  show ?thesis unfolding in_range_def d by (rule word_diff_range [OF assms])
qed

lemma disjoint_offsets:
  assumes "unat a + n \<le> unat b \<or> unat b + k \<le> unat a"
    and "unat a + n \<le> 2 ^ 64" and "unat b + k \<le> 2 ^ 64"
  shows "disjoint_ranges (p + a) n (p + b) k"
  using assms by (auto simp: disjoint_ranges_def in_range_offset)

lemma mem_eq_off_on:
  "mem_eq_off a n m m' \<Longrightarrow> disjoint_ranges a n b k \<Longrightarrow> mem_eq_on b k m' m"
  by (auto simp: mem_eq_off_def mem_eq_on_def disjoint_ranges_def)

lemma rd64_off: "mem_eq_off a n m m' \<Longrightarrow> disjoint_ranges a n b 8 \<Longrightarrow> rd64 m' b = rd64 m b"
  by (intro rd64_cong mem_eq_off_on)

lemma disjoint_ranges_sym: "disjoint_ranges a n b k \<Longrightarrow> disjoint_ranges b k a n"
  by (auto simp: disjoint_ranges_def)

lemma disjoint_ranges_sub:
  "disjoint_ranges a n b k \<Longrightarrow> unat off + j \<le> n \<Longrightarrow> disjoint_ranges (a + off) j b k"
  using in_range_sub unfolding disjoint_ranges_def by blast

lemma mem_eq_on_trans: "mem_eq_on a n m m' \<Longrightarrow> mem_eq_on a n m' m'' \<Longrightarrow> mem_eq_on a n m m''"
  by (simp add: mem_eq_on_def)

lemma mem_eq_on_refl [simp]: "mem_eq_on a n m m"
  by (simp add: mem_eq_on_def)

text \<open>Reads at one offset of a struct after a write at another.\<close>

definition apart :: "u64 \<Rightarrow> nat \<Rightarrow> u64 \<Rightarrow> nat \<Rightarrow> bool" where
  "apart a n b k \<longleftrightarrow> (unat a + n \<le> unat b \<or> unat b + k \<le> unat a) \<and>
     unat a + n \<le> 2 ^ 64 \<and> unat b + k \<le> 2 ^ 64"

lemma wr64_apart: "apart a 8 b k \<Longrightarrow> mem_eq_on (p + b) k (wr64 m (p + a) v) m"
  by (intro mem_eq_off_on [OF wr64_off] disjoint_offsets) (auto simp: apart_def)

lemma rd64_wr64_apart: "apart a 8 b 8 \<Longrightarrow> rd64 (wr64 m (p + a) v) (p + b) = rd64 m (p + b)"
  by (intro rd64_cong wr64_apart)

lemma rd32_wr64_apart: "apart a 8 b 4 \<Longrightarrow> rd32 (wr64 m (p + a) v) (p + b) = rd32 m (p + b)"
  by (intro rd32_cong wr64_apart)

lemma rd_bytes_wr64_apart:
  "apart a 8 b k \<Longrightarrow> k \<le> 2 ^ 64 \<Longrightarrow> rd_bytes (wr64 m (p + a) v) (p + b) k = rd_bytes m (p + b) k"
  by (intro rd_bytes_cong wr64_apart)

lemmas wr64_struct = rd64_wr64_apart rd32_wr64_apart rd_bytes_wr64_apart
  rd64_wr64_apart [where b = 0, simplified] rd32_wr64_apart [where b = 0, simplified]
  rd_bytes_wr64_apart [where b = 0, simplified]

section \<open>Byte lists in memory\<close>

lemma wr_bytes_append:
  "wr_bytes m a (xs @ ys) = wr_bytes (wr_bytes m a xs) (a + of_nat (length xs)) ys"
  by (induction xs arbitrary: m a) (simp_all add: algebra_simps)

definition overwrite :: "'a list \<Rightarrow> nat \<Rightarrow> 'a list \<Rightarrow> 'a list" where
  "overwrite xs k ys = take k xs @ ys @ drop (k + length ys) xs"

lemma length_overwrite [simp]: "k + length ys \<le> length xs \<Longrightarrow> length (overwrite xs k ys) = length xs"
  by (simp add: overwrite_def)

lemma nth_overwrite:
  "k + length ys \<le> length xs \<Longrightarrow> i < length xs \<Longrightarrow>
   overwrite xs k ys ! i = (if k \<le> i \<and> i < k + length ys then ys ! (i - k) else xs ! i)"
  by (auto simp: overwrite_def nth_append)

lemma wr_bytes_overwrite:
  assumes "k + length ys \<le> length xs" and "length xs < 2 ^ 64"
  shows "wr_bytes (wr_bytes m a xs) (a + of_nat k) ys = wr_bytes m a (overwrite xs k ys)"
proof
  fix x
  have k: "unat (of_nat k :: u64) = k" using assms by (intro unat_of_nat_small) simp
  define i where "i = unat (x - a)"
  have "in_range (a + of_nat k) (length ys) x \<longleftrightarrow> k \<le> i \<and> i < k + length ys"
    using in_range_offset [of "of_nat k" "length ys" a x] assms k by (simp add: i_def)
  moreover have "unat (x - (a + of_nat k)) = i - k" if "k \<le> i"
  proof -
    have "x - (a + of_nat k) = (x - a) - of_nat k" by simp
    then show ?thesis using that k by (simp only: i_def unat_sub word_le_nat_alt)
  qed
  ultimately show "wr_bytes (wr_bytes m a xs) (a + of_nat k) ys x = wr_bytes m a (overwrite xs k ys) x"
    using assms
    by (auto simp: wr_bytes_apply in_range_def [of a] i_def [symmetric] overwrite_def nth_append)
qed

lemma rd_bytes_wr_prefix: "length bs < 2 ^ 64 \<Longrightarrow> rd_bytes (wr_bytes m a bs) a (length bs) = bs"
  by (intro rd_wr_bytes_same) simp

lemma unat_and_not_mask:
  "unat (w AND NOT (mask k) :: 'a::len word) = unat w div 2 ^ k * 2 ^ k"
proof -
  have "w AND NOT (mask k) = push_bit k (drop_bit k w)"
    by (rule bit_word_eqI) (auto simp: bit_simps)
  then have "unat (w AND NOT (mask k)) = take_bit LENGTH('a) (push_bit k (drop_bit k (unat w)))"
    by (simp only: unsigned_push_bit_eq unat_drop_bit_eq)
  moreover have "unat w div 2 ^ k * 2 ^ k < 2 ^ LENGTH('a)"
    using unat_lt2p [of w] div_times_less_eq_dividend [of "unat w" "2 ^ k"] by linarith
  ultimately show ?thesis
    by (simp only: take_bit_nat_eq_self push_bit_eq_mult drop_bit_eq_div)
qed

lemma mask_2: "(3 :: u64) = mask 2" and mask_12: "(4095 :: u64) = mask 12"
  by (simp_all add: mask_eq_exp_minus_1)

section \<open>Cells\<close>

text \<open>What the components rely on of a value of fixed size in memory: a read depends only on the
  cell, sees the last write, and a write changes only the cell. The lemmas are proved once for all
  widths; the interpretations below are the little-endian words.\<close>

locale mem_cell =
  fixes rd :: "mem \<Rightarrow> u64 \<Rightarrow> 'a"
    and wr :: "mem \<Rightarrow> u64 \<Rightarrow> 'a \<Rightarrow> mem"
    and n :: nat
  assumes rd_local: "mem_eq_on a n m m' \<Longrightarrow> rd m a = rd m' a"
    and rd_wr: "rd (wr m a v) a = v"
    and wr_frame: "mem_eq_off a n m (wr m a v)"
begin

lemma rd_frame: "mem_eq_off a k m m' \<Longrightarrow> disjoint_ranges a k b n \<Longrightarrow> rd m' b = rd m b"
  by (intro rd_local mem_eq_off_on)

lemma rd_wr_other: "disjoint_ranges a n b n \<Longrightarrow> rd (wr m a v) b = rd m b"
  by (rule rd_frame [OF wr_frame])

lemma wr_apart: "apart a n b k \<Longrightarrow> mem_eq_on (p + b) k (wr m (p + a) v) m"
  by (intro mem_eq_off_on [OF wr_frame] disjoint_offsets) (auto simp: apart_def)

lemma wr_outside: "\<not> in_range a n x \<Longrightarrow> wr m a v x = m x"
  using wr_frame [of a m v] by (auto simp: mem_eq_off_def)

text \<open>A pass that updates disjoint cells one after the other updates each of them once, from its
  value before the pass, and nothing else.\<close>

lemma fold_frame:
  assumes "\<forall>p \<in> set ps. \<not> in_range (slot p) n x"
  shows "fold (\<lambda>p m. wr m (slot p) (g p (rd m (slot p)))) ps m x = m x"
  using assms by (induction ps arbitrary: m) (auto simp: wr_outside)

lemma fold_rd_other:
  assumes "\<forall>p \<in> set ps. disjoint_ranges (slot p) n b n"
  shows "rd (fold (\<lambda>p m. wr m (slot p) (g p (rd m (slot p)))) ps m) b = rd m b"
  using assms by (induction ps arbitrary: m) (auto simp: rd_wr_other)

lemma fold_cells:
  assumes "sorted_wrt (\<lambda>p q. disjoint_ranges (slot p) n (slot q) n) ps" and "p \<in> set ps"
  shows "rd (fold (\<lambda>p m. wr m (slot p) (g p (rd m (slot p)))) ps m) (slot p) = g p (rd m (slot p))"
  using assms
proof (induction ps arbitrary: m)
  case (Cons q qs)
  show ?case
  proof (cases "p = q \<and> p \<notin> set qs")
    case True
    then show ?thesis
      using Cons.prems by (simp add: fold_rd_other disjoint_ranges_sym rd_wr)
  next
    case False
    then have "p \<in> set qs" using Cons.prems by auto
    moreover from this have "disjoint_ranges (slot q) n (slot p) n" using Cons.prems by simp
    ultimately show ?thesis using Cons.IH Cons.prems by (simp add: rd_wr_other)
  qed
qed simp

end

interpretation cell32: mem_cell rd32 wr32 4
  by unfold_locales (rule rd32_cong, assumption, rule rd32_wr32_same, rule wr32_off)

interpretation cell64: mem_cell rd64 wr64 8
  by unfold_locales (rule rd64_cong, assumption, rule rd64_wr64_same, rule wr64_off)

end
