(* ===== verification/Macho_Types.thy ===== *)
theory Macho_Types
  imports Panthera_Prelude
begin

text \<open>
  The data of the kernel loader (\<open>boot/efi/loader/include/panthera_loader.h\<close> and the first part of
  \<open>boot/efi/loader/src/panthera_loader.c\<close>): the parsed kernel image the loader keeps, the status
  codes, and the Mach-O structures it overlays on memory. A C struct read through a pointer is a
  record filled by a \<open>ld_\<close> function that reads each field at its offset; \<open>sizeof\<close> values are the
  abbreviations \<open>sizeof_\<close>. Also here are the small helpers of the loader: zeroing, the 16-byte name
  copy and comparison, and the symbol classification.
\<close>

section \<open>Loader state (panthera_loader.h)\<close>

abbreviation PANTHERA_MAX_KERNEL_SEGMENTS :: u32 where "PANTHERA_MAX_KERNEL_SEGMENTS \<equiv> 16"
abbreviation PANTHERA_MAX_KERNEL_SECTIONS :: u32 where "PANTHERA_MAX_KERNEL_SECTIONS \<equiv> 64"

record PantheraKernelSegment =
  segname :: "u8 list"
  vmaddr :: u64
  vmsize :: u64
  fileoff :: u64
  filesize :: u64
  maxprot :: u32
  initprot :: u32

record PantheraKernelSection =
  sect_addr :: u64
  sect_size :: u64

record PantheraKernelImage =
  entry_pc :: u64
  lowest_vmaddr :: u64
  highest_vmaddr :: u64
  file_size :: u64
  local_reloc_offset :: u32
  local_reloc_count :: u32
  section_count :: u32
  segment_count :: u32
  segments :: "PantheraKernelSegment list"
  sections :: "PantheraKernelSection list"

datatype PantheraLoaderStatus =
    PANTHERA_LOADER_OK
  | PANTHERA_LOADER_E_NULL
  | PANTHERA_LOADER_E_TRUNCATED
  | PANTHERA_LOADER_E_BAD_MAGIC
  | PANTHERA_LOADER_E_BAD_CPU
  | PANTHERA_LOADER_E_BAD_FILETYPE
  | PANTHERA_LOADER_E_TOO_MANY_SEGMENTS
  | PANTHERA_LOADER_E_MISSING_ENTRY
  | PANTHERA_LOADER_E_BAD_RELOC
  | PANTHERA_LOADER_E_TOO_MANY_SECTIONS

primrec loader_status_code :: "PantheraLoaderStatus \<Rightarrow> u64" where
  "loader_status_code PANTHERA_LOADER_OK = 0"
| "loader_status_code PANTHERA_LOADER_E_NULL = 1"
| "loader_status_code PANTHERA_LOADER_E_TRUNCATED = 2"
| "loader_status_code PANTHERA_LOADER_E_BAD_MAGIC = 3"
| "loader_status_code PANTHERA_LOADER_E_BAD_CPU = 4"
| "loader_status_code PANTHERA_LOADER_E_BAD_FILETYPE = 5"
| "loader_status_code PANTHERA_LOADER_E_TOO_MANY_SEGMENTS = 6"
| "loader_status_code PANTHERA_LOADER_E_MISSING_ENTRY = 7"
| "loader_status_code PANTHERA_LOADER_E_BAD_RELOC = 8"
| "loader_status_code PANTHERA_LOADER_E_TOO_MANY_SECTIONS = 9"

section \<open>Mach-O constants and structures (panthera_loader.c)\<close>

abbreviation MH_MAGIC_64 :: u32 where "MH_MAGIC_64 \<equiv> 0xfeedfacf"
abbreviation CPU_TYPE_X86_64 :: u32 where "CPU_TYPE_X86_64 \<equiv> 0x01000007"
abbreviation MH_EXECUTE :: u32 where "MH_EXECUTE \<equiv> 0x2"
abbreviation LC_SEGMENT_64 :: u32 where "LC_SEGMENT_64 \<equiv> 0x19"
abbreviation LC_UNIXTHREAD :: u32 where "LC_UNIXTHREAD \<equiv> 0x5"
abbreviation LC_SYMTAB :: u32 where "LC_SYMTAB \<equiv> 0x2"
abbreviation LC_DYSYMTAB :: u32 where "LC_DYSYMTAB \<equiv> 0xb"
abbreviation X86_64_RELOC_UNSIGNED :: u32 where "X86_64_RELOC_UNSIGNED \<equiv> 0"

abbreviation sizeof_mach_header :: u64 where "sizeof_mach_header \<equiv> 32"
abbreviation sizeof_load_command :: u64 where "sizeof_load_command \<equiv> 8"
abbreviation sizeof_segment_command :: u64 where "sizeof_segment_command \<equiv> 72"
abbreviation sizeof_section :: u64 where "sizeof_section \<equiv> 80"
abbreviation sizeof_dysymtab_command :: u64 where "sizeof_dysymtab_command \<equiv> 80"
abbreviation sizeof_relocation_info :: u64 where "sizeof_relocation_info \<equiv> 8"
abbreviation sizeof_nlist :: u64 where "sizeof_nlist \<equiv> 16"
abbreviation sizeof_thread_state_header :: u64 where "sizeof_thread_state_header \<equiv> 8"
abbreviation sizeof_thread_state :: u64 where "sizeof_thread_state \<equiv> 168"

record PantheraMachHeader64 =
  mh_magic :: u32
  mh_cputype :: u32
  mh_cpusubtype :: u32
  mh_filetype :: u32
  mh_ncmds :: u32
  mh_sizeofcmds :: u32
  mh_flags :: u32
  mh_reserved :: u32

definition ld_mach_header :: "mem \<Rightarrow> u64 \<Rightarrow> PantheraMachHeader64" where
  "ld_mach_header m p = \<lparr>
     mh_magic = rd32 m p, mh_cputype = rd32 m (p + 4), mh_cpusubtype = rd32 m (p + 8),
     mh_filetype = rd32 m (p + 12), mh_ncmds = rd32 m (p + 16), mh_sizeofcmds = rd32 m (p + 20),
     mh_flags = rd32 m (p + 24), mh_reserved = rd32 m (p + 28)\<rparr>"

record PantheraLoadCommand =
  lc_cmd :: u32
  lc_cmdsize :: u32

definition ld_load_command :: "mem \<Rightarrow> u64 \<Rightarrow> PantheraLoadCommand" where
  "ld_load_command m p = \<lparr>lc_cmd = rd32 m p, lc_cmdsize = rd32 m (p + 4)\<rparr>"

record PantheraSymtabCommand =
  st_cmd :: u32
  st_cmdsize :: u32
  st_symoff :: u32
  st_nsyms :: u32
  st_stroff :: u32
  st_strsize :: u32

definition ld_symtab_command :: "mem \<Rightarrow> u64 \<Rightarrow> PantheraSymtabCommand" where
  "ld_symtab_command m p = \<lparr>
     st_cmd = rd32 m p, st_cmdsize = rd32 m (p + 4), st_symoff = rd32 m (p + 8),
     st_nsyms = rd32 m (p + 12), st_stroff = rd32 m (p + 16), st_strsize = rd32 m (p + 20)\<rparr>"

record PantheraSegmentCommand64 =
  sc_cmd :: u32
  sc_cmdsize :: u32
  sc_segname :: "u8 list"
  sc_vmaddr :: u64
  sc_vmsize :: u64
  sc_fileoff :: u64
  sc_filesize :: u64
  sc_maxprot :: u32
  sc_initprot :: u32
  sc_nsects :: u32
  sc_flags :: u32

definition ld_segment_command :: "mem \<Rightarrow> u64 \<Rightarrow> PantheraSegmentCommand64" where
  "ld_segment_command m p = \<lparr>
     sc_cmd = rd32 m p, sc_cmdsize = rd32 m (p + 4), sc_segname = rd_bytes m (p + 8) 16,
     sc_vmaddr = rd64 m (p + 24), sc_vmsize = rd64 m (p + 32), sc_fileoff = rd64 m (p + 40),
     sc_filesize = rd64 m (p + 48), sc_maxprot = rd32 m (p + 56), sc_initprot = rd32 m (p + 60),
     sc_nsects = rd32 m (p + 64), sc_flags = rd32 m (p + 68)\<rparr>"

record PantheraSection64 =
  s64_sectname :: "u8 list"
  s64_segname :: "u8 list"
  s64_addr :: u64
  s64_size :: u64
  s64_offset :: u32
  s64_align :: u32
  s64_reloff :: u32
  s64_nreloc :: u32
  s64_flags :: u32
  s64_reserved1 :: u32
  s64_reserved2 :: u32
  s64_reserved3 :: u32

definition ld_section :: "mem \<Rightarrow> u64 \<Rightarrow> PantheraSection64" where
  "ld_section m p = \<lparr>
     s64_sectname = rd_bytes m p 16, s64_segname = rd_bytes m (p + 16) 16,
     s64_addr = rd64 m (p + 32), s64_size = rd64 m (p + 40), s64_offset = rd32 m (p + 48),
     s64_align = rd32 m (p + 52), s64_reloff = rd32 m (p + 56), s64_nreloc = rd32 m (p + 60),
     s64_flags = rd32 m (p + 64), s64_reserved1 = rd32 m (p + 68),
     s64_reserved2 = rd32 m (p + 72), s64_reserved3 = rd32 m (p + 76)\<rparr>"

text \<open>Of the 20 words of the dynamic symbol table command the loader reads the two cmd words and
  the last two, at offsets 72 and 76; the record keeps those.\<close>

record PantheraDysymtabCommand =
  dy_cmd :: u32
  dy_cmdsize :: u32
  dy_locreloff :: u32
  dy_nlocrel :: u32

definition ld_dysymtab_command :: "mem \<Rightarrow> u64 \<Rightarrow> PantheraDysymtabCommand" where
  "ld_dysymtab_command m p = \<lparr>
     dy_cmd = rd32 m p, dy_cmdsize = rd32 m (p + 4),
     dy_locreloff = rd32 m (p + 72), dy_nlocrel = rd32 m (p + 76)\<rparr>"

record PantheraRelocationInfo =
  r_address :: u32
  r_info :: u32

definition ld_relocation_info :: "mem \<Rightarrow> u64 \<Rightarrow> PantheraRelocationInfo" where
  "ld_relocation_info m p = \<lparr>r_address = rd32 m p, r_info = rd32 m (p + 4)\<rparr>"

text \<open>The loader uses \<open>n_type\<close>, \<open>n_sect\<close> and \<open>n_value\<close> of a symbol.\<close>

record PantheraNList64 =
  n_strx :: u32
  n_type :: u8
  n_sect :: u8
  n_value :: u64

definition ld_nlist :: "mem \<Rightarrow> u64 \<Rightarrow> PantheraNList64" where
  "ld_nlist m p = \<lparr>n_strx = rd32 m p, n_type = m (p + 4), n_sect = m (p + 5), n_value = rd64 m (p + 8)\<rparr>"

text \<open>Of the thread state only \<open>rip\<close>, its 17th register, is used.\<close>

abbreviation offsetof_rip :: u64 where "offsetof_rip \<equiv> 128"

definition ld_thread_rip :: "mem \<Rightarrow> u64 \<Rightarrow> u64" where
  "ld_thread_rip m p = rd64 m (p + offsetof_rip)"

section \<open>Helpers\<close>

definition panthera_zero :: "mem \<Rightarrow> u64 \<Rightarrow> u64 \<Rightarrow> mem" where
  "panthera_zero m buffer sz = wr_bytes m buffer (replicate (unat sz) 0)"

definition zero_segment :: PantheraKernelSegment where
  "zero_segment = \<lparr>segname = replicate 16 0, vmaddr = 0, vmsize = 0, fileoff = 0, filesize = 0,
     maxprot = 0, initprot = 0\<rparr>"

definition zero_section :: PantheraKernelSection where
  "zero_section = \<lparr>sect_addr = 0, sect_size = 0\<rparr>"

definition zero_image :: PantheraKernelImage where
  "zero_image = \<lparr>entry_pc = 0, lowest_vmaddr = 0, highest_vmaddr = 0, file_size = 0,
     local_reloc_offset = 0, local_reloc_count = 0, section_count = 0, segment_count = 0,
     segments = replicate 16 zero_segment, sections = replicate 64 zero_section\<rparr>"

definition panthera_copy16 :: "u8 list \<Rightarrow> u8 list" where
  "panthera_copy16 src = map (\<lambda>i. src ! i) [0..<16]"

function name_equals_from :: "nat \<Rightarrow> u8 list \<Rightarrow> u8 list \<Rightarrow> bool" where
  "name_equals_from index lhs rhs =
     (if index < 16 then
        let rhs_char = cstr_at rhs index in
        if lhs ! index \<noteq> rhs_char then False
        else if rhs_char = 0 then True
        else name_equals_from (Suc index) lhs rhs
      else cstr_at rhs 16 = 0)"
  by pat_completeness auto
termination by (relation "measure (\<lambda>(index, lhs, rhs). 16 - index)") auto

declare name_equals_from.simps [simp del]

definition panthera_name_equals :: "u8 list \<Rightarrow> u8 list \<Rightarrow> bool" where
  "panthera_name_equals lhs rhs = name_equals_from 0 lhs rhs"

definition panthera_symbol_is_section_based :: "u8 \<Rightarrow> bool" where
  "panthera_symbol_is_section_based ty =
     (if ty AND 0xe0 \<noteq> 0 then
        ty \<in> {0x26, 0x28, 0x2e, 0x44, 0x4e, 0x64, 0x84, 0xa4, 0xe4, 0xe8, 0xe0, 0xc0}
      else ty AND 0x0e = 0x0e)"

definition panthera_loaded_vmaddr :: "PantheraKernelImage \<Rightarrow> u64 \<Rightarrow> u64 \<Rightarrow> u64 \<Rightarrow> u64" where
  "panthera_loaded_vmaddr kernel_image loaded_base va sz =
     (if va < lowest_vmaddr kernel_image then 0
      else if sz > highest_vmaddr kernel_image - va then 0
      else loaded_base + (va - lowest_vmaddr kernel_image))"

fun loaded_file_offset_in ::
  "PantheraKernelImage \<Rightarrow> u64 \<Rightarrow> u64 \<Rightarrow> u64 \<Rightarrow> PantheraKernelSegment list \<Rightarrow> u64" where
  "loaded_file_offset_in kernel_image loaded_base file_offset sz [] = 0"
| "loaded_file_offset_in kernel_image loaded_base file_offset sz (segment # rest) =
     (if filesize segment = 0 then
        loaded_file_offset_in kernel_image loaded_base file_offset sz rest
      else if file_offset < fileoff segment then
        loaded_file_offset_in kernel_image loaded_base file_offset sz rest
      else
        let segment_file_offset = file_offset - fileoff segment in
        if segment_file_offset > filesize segment then
          loaded_file_offset_in kernel_image loaded_base file_offset sz rest
        else if sz > filesize segment - segment_file_offset then
          loaded_file_offset_in kernel_image loaded_base file_offset sz rest
        else panthera_loaded_vmaddr kernel_image loaded_base (vmaddr segment + segment_file_offset) sz)"

definition panthera_loaded_file_offset ::
  "PantheraKernelImage \<Rightarrow> u64 \<Rightarrow> u64 \<Rightarrow> u64 \<Rightarrow> u64" where
  "panthera_loaded_file_offset kernel_image loaded_base file_offset sz =
     loaded_file_offset_in kernel_image loaded_base file_offset sz
       (take (unat (segment_count kernel_image)) (segments kernel_image))"

section \<open>Facts on the helpers\<close>

text \<open>A struct read depends on the bytes of the struct only.\<close>

named_theorems ld_cong \<open>struct reads depend on the bytes of the struct only\<close>

lemma ld_mach_header_cong [ld_cong]:
  "mem_eq_on p 32 m m' \<Longrightarrow> ld_mach_header m p = ld_mach_header m' p"
  by (simp add: ld_mach_header_def reads_at [of p 32 m m'])

lemma ld_load_command_cong [ld_cong]:
  "mem_eq_on p 8 m m' \<Longrightarrow> ld_load_command m p = ld_load_command m' p"
  by (simp add: ld_load_command_def reads_at [of p 8 m m'])

lemma ld_symtab_command_cong [ld_cong]:
  "mem_eq_on p 24 m m' \<Longrightarrow> ld_symtab_command m p = ld_symtab_command m' p"
  by (simp add: ld_symtab_command_def reads_at [of p 24 m m'])

lemma ld_segment_command_cong [ld_cong]:
  "mem_eq_on p 72 m m' \<Longrightarrow> ld_segment_command m p = ld_segment_command m' p"
  by (simp add: ld_segment_command_def reads_at [of p 72 m m'])

lemma ld_section_cong [ld_cong]:
  "mem_eq_on p 80 m m' \<Longrightarrow> ld_section m p = ld_section m' p"
  by (simp add: ld_section_def reads_at [of p 80 m m'])

lemma ld_dysymtab_command_cong [ld_cong]:
  "mem_eq_on p 80 m m' \<Longrightarrow> ld_dysymtab_command m p = ld_dysymtab_command m' p"
  by (simp add: ld_dysymtab_command_def reads_at [of p 80 m m'])

lemma ld_relocation_info_cong [ld_cong]:
  "mem_eq_on p 8 m m' \<Longrightarrow> ld_relocation_info m p = ld_relocation_info m' p"
  by (simp add: ld_relocation_info_def reads_at [of p 8 m m'])

lemma ld_nlist_cong [ld_cong]:
  "mem_eq_on p 16 m m' \<Longrightarrow> ld_nlist m p = ld_nlist m' p"
  by (simp add: ld_nlist_def reads_at [of p 16 m m'])

lemma ld_thread_rip_cong [ld_cong]:
  "mem_eq_on p 168 m m' \<Longrightarrow> ld_thread_rip m p = ld_thread_rip m' p"
  by (simp add: ld_thread_rip_def reads_at [of p 168 m m'])

lemma panthera_zero_bytes:
  "rd_bytes (panthera_zero m a n) a (unat n) = replicate (unat n) 0"
proof -
  have "unat n \<le> 2 ^ 64" using unat_lt2p [of n] by simp
  then show ?thesis
    using rd_wr_bytes_same [of "replicate (unat n) 0" m a] by (simp add: panthera_zero_def)
qed

lemma panthera_copy16_id [simp]: "length src = 16 \<Longrightarrow> panthera_copy16 src = src"
  using map_nth [of src] by (simp add: panthera_copy16_def)

lemma length_panthera_copy16 [simp]: "length (panthera_copy16 src) = 16"
  by (simp add: panthera_copy16_def)

lemma loaded_vmaddr_in_span:
  assumes "lowest_vmaddr k \<le> va" and "va \<le> highest_vmaddr k" and "sz \<le> highest_vmaddr k - va"
  shows "panthera_loaded_vmaddr k base va sz = base + (va - lowest_vmaddr k)"
  using assms by (auto simp: panthera_loaded_vmaddr_def dest: leD)

end
