(* ===== verification/Macho_Parse.thy ===== *)
theory Macho_Parse
  imports Macho_Types
begin

text \<open>
  The Mach-O parser of the boot loader, \<open>panthera_parse_kernel_macho\<close> of
  \<open>boot/efi/loader/src/panthera_loader.c\<close>. The file image is a range of the byte memory; the output
  struct is a record, absent (\<open>None\<close>) for a null pointer, and is returned with the status because an
  error return leaves it partly filled. The two loops are recursions on the number of iterations
  left. Theorems: the parser reads nothing outside the file, it keeps the array bounds, an accepted
  image satisfies the range checks of the code, and on a well-formed list of load commands the
  parser computes the abstract summary of that list.
\<close>

section \<open>The parser\<close>

fun parse_sections ::
  "mem \<Rightarrow> u64 \<Rightarrow> nat \<Rightarrow> u32 \<Rightarrow> PantheraKernelImage \<Rightarrow> PantheraLoaderStatus \<times> PantheraKernelImage" where
  "parse_sections m section 0 section_index out = (PANTHERA_LOADER_OK, out)"
| "parse_sections m section (Suc left) section_index out =
     (if section_count out \<ge> PANTHERA_MAX_KERNEL_SECTIONS then
        (PANTHERA_LOADER_E_TOO_MANY_SECTIONS, out)
      else
        let s = ld_section m (section + ucast section_index * sizeof_section);
            out_section = \<lparr>sect_addr = s64_addr s, sect_size = s64_size s\<rparr>
        in parse_sections m section left (section_index + 1)
             (out\<lparr>sections := (sections out)[unat (section_count out) := out_section],
                  section_count := section_count out + 1\<rparr>))"

definition widen_span :: "PantheraSegmentCommand64 \<Rightarrow> PantheraKernelImage \<Rightarrow> PantheraKernelImage" where
  "widen_span segment out =
     (let out = (if sc_vmaddr segment < lowest_vmaddr out
                 then out\<lparr>lowest_vmaddr := sc_vmaddr segment\<rparr> else out);
          segment_end = sc_vmaddr segment + sc_vmsize segment
      in if segment_end > highest_vmaddr out then out\<lparr>highest_vmaddr := segment_end\<rparr> else out)"

definition kernel_segment_of :: "PantheraSegmentCommand64 \<Rightarrow> PantheraKernelSegment" where
  "kernel_segment_of segment = \<lparr>segname = panthera_copy16 (sc_segname segment),
     vmaddr = sc_vmaddr segment, vmsize = sc_vmsize segment, fileoff = sc_fileoff segment,
     filesize = sc_filesize segment, maxprot = sc_maxprot segment, initprot = sc_initprot segment\<rparr>"

definition push_segment :: "PantheraSegmentCommand64 \<Rightarrow> PantheraKernelImage \<Rightarrow> PantheraKernelImage" where
  "push_segment segment out =
     out\<lparr>segments := (segments out)[unat (segment_count out) := kernel_segment_of segment],
         segment_count := segment_count out + 1\<rparr>"

definition parse_segment ::
  "mem \<Rightarrow> u64 \<Rightarrow> u32 \<Rightarrow> u64 \<Rightarrow> PantheraKernelImage \<Rightarrow> PantheraLoaderStatus \<times> PantheraKernelImage" where
  "parse_segment m cursor cmdsize image_size out =
     (if ucast cmdsize < sizeof_segment_command then (PANTHERA_LOADER_E_TRUNCATED, out)
      else
        let segment = ld_segment_command m cursor in
        if ucast cmdsize < sizeof_segment_command + ucast (sc_nsects segment) * sizeof_section then
          (PANTHERA_LOADER_E_TRUNCATED, out)
        else if sc_vmsize segment = 0 \<and> sc_filesize segment = 0 then (PANTHERA_LOADER_OK, out)
        else
          let out = widen_span segment out in
          if sc_fileoff segment + sc_filesize segment > image_size then
            (PANTHERA_LOADER_E_TRUNCATED, out)
          else if segment_count out \<ge> PANTHERA_MAX_KERNEL_SEGMENTS then
            (PANTHERA_LOADER_E_TOO_MANY_SEGMENTS, out)
          else parse_sections m (cursor + sizeof_segment_command) (unat (sc_nsects segment)) 0
                 (push_segment segment out))"

definition parse_dysymtab ::
  "mem \<Rightarrow> u64 \<Rightarrow> u32 \<Rightarrow> u64 \<Rightarrow> PantheraKernelImage \<Rightarrow> PantheraLoaderStatus \<times> PantheraKernelImage" where
  "parse_dysymtab m cursor cmdsize image_size out =
     (if ucast cmdsize < sizeof_dysymtab_command then (PANTHERA_LOADER_E_TRUNCATED, out)
      else
        let dysymtab = ld_dysymtab_command m cursor in
        if ucast (dy_locreloff dysymtab) + ucast (dy_nlocrel dysymtab) * sizeof_relocation_info
             > image_size then (PANTHERA_LOADER_E_TRUNCATED, out)
        else (PANTHERA_LOADER_OK,
              out\<lparr>local_reloc_offset := dy_locreloff dysymtab,
                  local_reloc_count := dy_nlocrel dysymtab\<rparr>))"

definition parse_unixthread ::
  "mem \<Rightarrow> u64 \<Rightarrow> u32 \<Rightarrow> PantheraKernelImage \<Rightarrow> PantheraLoaderStatus \<times> PantheraKernelImage" where
  "parse_unixthread m cursor cmdsize out =
     (if ucast cmdsize < sizeof_load_command + sizeof_thread_state_header + sizeof_thread_state then
        (PANTHERA_LOADER_E_TRUNCATED, out)
      else
        let thread_payload = cursor + sizeof_load_command + sizeof_thread_state_header
        in (PANTHERA_LOADER_OK, out\<lparr>entry_pc := ld_thread_rip m thread_payload\<rparr>))"

definition parse_command ::
  "mem \<Rightarrow> u64 \<Rightarrow> PantheraLoadCommand \<Rightarrow> u64 \<Rightarrow> PantheraKernelImage
     \<Rightarrow> PantheraLoaderStatus \<times> PantheraKernelImage" where
  "parse_command m cursor load_command image_size out =
     (if lc_cmd load_command = LC_SEGMENT_64 then
        parse_segment m cursor (lc_cmdsize load_command) image_size out
      else if lc_cmd load_command = LC_DYSYMTAB then
        parse_dysymtab m cursor (lc_cmdsize load_command) image_size out
      else if lc_cmd load_command = LC_UNIXTHREAD then
        parse_unixthread m cursor (lc_cmdsize load_command) out
      else (PANTHERA_LOADER_OK, out))"

fun parse_commands ::
  "mem \<Rightarrow> u64 \<Rightarrow> u64 \<Rightarrow> nat \<Rightarrow> u64 \<Rightarrow> PantheraKernelImage
     \<Rightarrow> PantheraLoaderStatus \<times> PantheraKernelImage" where
  "parse_commands m img image_size 0 cursor out =
     (if entry_pc out = 0 then (PANTHERA_LOADER_E_MISSING_ENTRY, out) else (PANTHERA_LOADER_OK, out))"
| "parse_commands m img image_size (Suc left) cursor out =
     (if (cursor - img) + sizeof_load_command > image_size then (PANTHERA_LOADER_E_TRUNCATED, out)
      else
        let load_command = ld_load_command m cursor in
        if ucast (lc_cmdsize load_command) < sizeof_load_command then
          (PANTHERA_LOADER_E_TRUNCATED, out)
        else if (cursor - img) + ucast (lc_cmdsize load_command) > image_size then
          (PANTHERA_LOADER_E_TRUNCATED, out)
        else
          case parse_command m cursor load_command image_size out of
            (status, out') \<Rightarrow>
              if status \<noteq> PANTHERA_LOADER_OK then (status, out')
              else parse_commands m img image_size left (cursor + ucast (lc_cmdsize load_command)) out')"

definition panthera_parse_kernel_macho ::
  "mem \<Rightarrow> u64 \<Rightarrow> u64 \<Rightarrow> PantheraKernelImage option
     \<Rightarrow> PantheraLoaderStatus \<times> PantheraKernelImage option" where
  "panthera_parse_kernel_macho m img image_size out_image =
     (case out_image of
        None \<Rightarrow> (PANTHERA_LOADER_E_NULL, None)
      | Some out0 \<Rightarrow>
          if img = 0 then (PANTHERA_LOADER_E_NULL, Some out0)
          else if image_size < sizeof_mach_header then (PANTHERA_LOADER_E_TRUNCATED, Some out0)
          else
            let header = ld_mach_header m img in
            if mh_magic header \<noteq> MH_MAGIC_64 then (PANTHERA_LOADER_E_BAD_MAGIC, Some out0)
            else if mh_cputype header \<noteq> CPU_TYPE_X86_64 then (PANTHERA_LOADER_E_BAD_CPU, Some out0)
            else if mh_filetype header \<noteq> MH_EXECUTE then (PANTHERA_LOADER_E_BAD_FILETYPE, Some out0)
            else if sizeof_mach_header + ucast (mh_sizeofcmds header) > image_size then
              (PANTHERA_LOADER_E_TRUNCATED, Some out0)
            else
              map_prod id Some
                (parse_commands m img image_size (unat (mh_ncmds header)) (img + sizeof_mach_header)
                   (zero_image\<lparr>file_size := image_size, lowest_vmaddr := - 1\<rparr>)))"

section \<open>Reads stay inside the file\<close>

lemma parse_sections_cong:
  assumes "mem_eq_on sec (80 * (unat idx + left)) m m'" and "unat idx + left < 2 ^ 32"
  shows "parse_sections m sec left idx out = parse_sections m' sec left idx out"
  using assms
proof (induction left arbitrary: idx out)
  case 0
  then show ?case by simp
next
  case (Suc left)
  have off: "unat (ucast idx * 80 :: u64) = unat idx * 80"
    using unat_ucast32_mult [of 80 idx] by simp
  have "ld_section m (sec + ucast idx * 80) = ld_section m' (sec + ucast idx * 80)"
    using Suc.prems by (intro ld_cong mem_eq_on_sub) (auto simp: off)
  moreover have "unat (idx + 1) = unat idx + 1"
    using Suc.prems(2) by (intro unat_Suc32) simp
  ultimately show ?case
    using Suc.IH [of "idx + 1"] Suc.prems by simp
qed

lemma parse_segment_cong:
  assumes "mem_eq_on cursor (unat cmdsize) m m'"
  shows "parse_segment m cursor cmdsize image_size out = parse_segment m' cursor cmdsize image_size out"
proof (cases "ucast cmdsize < sizeof_segment_command")
  case True
  then show ?thesis by (simp add: parse_segment_def)
next
  case False
  then have size72: "72 \<le> unat cmdsize"
    by (simp add: word_less_nat_alt)
  have seg: "ld_segment_command m' cursor = ld_segment_command m cursor"
    using assms size72 by (metis ld_segment_command_cong mem_eq_on_mono)
  define n where "n = sc_nsects (ld_segment_command m cursor)"
  show ?thesis
  proof (cases "ucast cmdsize < sizeof_segment_command + ucast n * sizeof_section")
    case True
    then show ?thesis by (simp add: parse_segment_def seg n_def)
  next
    case False
    have prod: "unat (ucast n * 80 :: u64) = unat n * 80"
      using unat_ucast32_mult [of 80 n] by simp
    have "unat n * 80 + 72 < 2 ^ 64" using unat_lt2p [of n] by simp
    then have "unat (72 + ucast n * 80 :: u64) = 72 + unat n * 80"
      by (simp add: unat_word_ariths prod)
    with False have "72 + unat n * 80 \<le> unat cmdsize"
      by (simp add: word_less_nat_alt)
    then have "mem_eq_on (cursor + 72) (80 * (unat (0 :: u32) + unat n)) m m'"
      using assms by (intro mem_eq_on_sub) auto
    then have "parse_sections m (cursor + 72) (unat n) 0 o' = parse_sections m' (cursor + 72) (unat n) 0 o'" for o'
      using unat_lt2p [of n] by (intro parse_sections_cong) auto
    then show ?thesis by (simp add: parse_segment_def seg n_def Let_def)
  qed
qed

lemma parse_dysymtab_cong:
  assumes "mem_eq_on cursor (unat cmdsize) m m'"
  shows "parse_dysymtab m cursor cmdsize image_size out = parse_dysymtab m' cursor cmdsize image_size out"
proof (cases "ucast cmdsize < sizeof_dysymtab_command")
  case False
  then have "ld_dysymtab_command m cursor = ld_dysymtab_command m' cursor"
    using assms by (intro ld_cong mem_eq_on_mono [OF assms]) (simp add: word_less_nat_alt)
  then show ?thesis by (simp add: parse_dysymtab_def)
qed (simp add: parse_dysymtab_def)

lemma parse_unixthread_cong:
  assumes "mem_eq_on cursor (unat cmdsize) m m'"
  shows "parse_unixthread m cursor cmdsize out = parse_unixthread m' cursor cmdsize out"
proof (cases "ucast cmdsize < (184 :: u64)")
  case False
  then have "mem_eq_on (cursor + 16) 168 m m'"
    by (intro mem_eq_on_sub [OF assms]) (simp add: word_less_nat_alt)
  then have "ld_thread_rip m (cursor + 16) = ld_thread_rip m' (cursor + 16)"
    by (rule ld_cong)
  then show ?thesis by (simp add: parse_unixthread_def add.assoc)
qed (simp add: parse_unixthread_def)

lemma parse_command_cong:
  assumes "mem_eq_on cursor (unat (lc_cmdsize lc)) m m'"
  shows "parse_command m cursor lc image_size out = parse_command m' cursor lc image_size out"
  using parse_segment_cong [OF assms] parse_dysymtab_cong [OF assms] parse_unixthread_cong [OF assms]
  by (simp add: parse_command_def)

lemma parse_commands_cong:
  assumes "mem_eq_on img (unat image_size) m m'" and "image_size < 2 ^ 63"
    and "cursor - img \<le> image_size"
  shows "parse_commands m img image_size left cursor out = parse_commands m' img image_size left cursor out"
  using assms
proof (induction left arbitrary: cursor out)
  case 0
  then show ?case by simp
next
  case (Suc left)
  define off where "off = cursor - img"
  have cursor: "cursor = img + off" by (simp add: off_def)
  have small: "unat image_size < 2 ^ 63" using Suc.prems(2) by (simp add: word_less_nat_alt)
  have off_le: "unat off \<le> unat image_size"
    using Suc.prems(3) by (simp add: off_def word_le_nat_alt)
  have add: "unat (off + x) = unat off + unat x" if "unat x \<le> 2 ^ 32" for x
    using off_le small that by (simp add: unat_word_ariths)
  show ?case
  proof (cases "off + sizeof_load_command > image_size")
    case True
    then show ?thesis by (simp add: off_def)
  next
    case False
    then have "unat off + 8 \<le> unat image_size" using add [of 8] by (simp add: word_less_nat_alt)
    then have lc: "ld_load_command m' cursor = ld_load_command m cursor"
      unfolding cursor using Suc.prems(1)
      by (intro ld_cong mem_eq_on_sub [OF mem_eq_on_sym]) auto
    define sz where "sz = lc_cmdsize (ld_load_command m cursor)"
    show ?thesis
    proof (cases "off + ucast sz > image_size")
      case True
      then show ?thesis by (simp add: off_def lc sz_def Let_def)
    next
      case fits: False
      have "unat (off + ucast sz) = unat off + unat sz"
        using add [of "ucast sz"] unat_lt2p [of sz] by simp
      with fits have le: "unat off + unat sz \<le> unat image_size" by (simp add: word_less_nat_alt)
      then have "mem_eq_on cursor (unat sz) m m'"
        unfolding cursor using Suc.prems(1) by (intro mem_eq_on_sub) auto
      then have cmd: "parse_command m cursor (ld_load_command m cursor) image_size out =
          parse_command m' cursor (ld_load_command m cursor) image_size out"
        by (intro parse_command_cong) (simp add: sz_def)
      have "cursor + ucast sz - img = off + ucast sz" by (simp add: off_def)
      then have "cursor + ucast sz - img \<le> image_size" using fits by (metis linorder_not_less)
      then have "parse_commands m img image_size left (cursor + ucast sz) o' =
          parse_commands m' img image_size left (cursor + ucast sz) o'" for o'
        using Suc.IH Suc.prems by blast
      then show ?thesis
        by (simp add: lc cmd sz_def Let_def split: prod.split)
    qed
  qed
qed

text \<open>
  C16. Memory safety of the parser: two memories that agree on the bytes of the file image give the
  same result, so the parser reads nothing outside \<open>[image, image + image_size)\<close>, for every file
  content, well-formed or not, below the size \<open>2 ^ 63\<close> no C object exceeds.
\<close>

theorem parse_reads_only_file:
  assumes "mem_eq_on img (unat image_size) m m'" and "image_size < 2 ^ 63"
  shows "panthera_parse_kernel_macho m img image_size out = panthera_parse_kernel_macho m' img image_size out"
proof (cases "image_size < sizeof_mach_header")
  case False
  then have ge: "32 \<le> unat image_size" by (simp add: word_less_nat_alt)
  then have hdr: "ld_mach_header m' img = ld_mach_header m img"
    using assms(1) by (metis ld_mach_header_cong mem_eq_on_mono)
  have "img + sizeof_mach_header - img \<le> image_size"
    using ge by (simp add: word_le_nat_alt)
  then have "parse_commands m img image_size n (img + sizeof_mach_header) o' =
      parse_commands m' img image_size n (img + sizeof_mach_header) o'" for n o'
    by (rule parse_commands_cong [OF assms])
  then show ?thesis
    by (simp add: panthera_parse_kernel_macho_def hdr Let_def split: option.split)
qed (simp add: panthera_parse_kernel_macho_def split: option.split)

section \<open>Bounds and accepted images\<close>

definition active_segments :: "PantheraKernelImage \<Rightarrow> PantheraKernelSegment list" where
  "active_segments k = take (unat (segment_count k)) (segments k)"

definition active_sections :: "PantheraKernelImage \<Rightarrow> PantheraKernelSection list" where
  "active_sections k = take (unat (section_count k)) (sections k)"

definition image_wf :: "PantheraKernelImage \<Rightarrow> bool" where
  "image_wf k \<longleftrightarrow> length (segments k) = 16 \<and> length (sections k) = 64 \<and>
     segment_count k \<le> PANTHERA_MAX_KERNEL_SEGMENTS \<and> section_count k \<le> PANTHERA_MAX_KERNEL_SECTIONS"

definition segment_checked :: "u64 \<Rightarrow> PantheraKernelImage \<Rightarrow> PantheraKernelSegment \<Rightarrow> bool" where
  "segment_checked image_size k s \<longleftrightarrow>
     lowest_vmaddr k \<le> vmaddr s \<and> vmaddr s + vmsize s \<le> highest_vmaddr k \<and>
     fileoff s + filesize s \<le> image_size \<and> \<not> (vmsize s = 0 \<and> filesize s = 0) \<and>
     length (segname s) = 16"

definition image_checked :: "u64 \<Rightarrow> PantheraKernelImage \<Rightarrow> bool" where
  "image_checked image_size k \<longleftrightarrow> image_wf k \<and>
     (\<forall>s \<in> set (active_segments k). segment_checked image_size k s) \<and>
     unat (local_reloc_offset k) + 8 * unat (local_reloc_count k) \<le> unat image_size \<and>
     file_size k = image_size"

lemma take_Suc_update: "n < length xs \<Longrightarrow> take (Suc n) (xs[n := x]) = take n xs @ [x]"
  by (simp add: take_Suc_conv_app_nth)

lemma word_count_Suc:
  fixes c :: u32
  assumes "\<not> k \<le> c" and "k \<le> 64"
  shows "unat (c + 1) = Suc (unat c)" and "c + 1 \<le> k" and "unat c < unat k"
proof -
  show lt: "unat c < unat k" using assms(1) by (simp add: word_le_nat_alt)
  have "unat k \<le> 64" using assms(2) by (simp add: word_le_nat_alt)
  with lt show Suc: "unat (c + 1) = Suc (unat c)" by (simp add: unat_word_ariths)
  with lt show "c + 1 \<le> k" by (simp add: word_le_nat_alt)
qed

lemma push_section_checked:
  assumes "image_checked z k" and "\<not> PANTHERA_MAX_KERNEL_SECTIONS \<le> section_count k"
  shows "image_checked z (k\<lparr>sections := (sections k)[unat (section_count k) := s],
    section_count := section_count k + 1\<rparr>)"
  using assms word_count_Suc(2) [OF assms(2)]
  by (simp add: image_checked_def image_wf_def active_segments_def segment_checked_def)

lemma parse_sections_checked:
  "image_checked z out \<Longrightarrow> parse_sections m sec left idx out = (st, k) \<Longrightarrow>
   image_checked z k \<and> entry_pc k = entry_pc out"
proof (induction left arbitrary: idx out)
  case 0
  then show ?case by simp
next
  case (Suc left)
  show ?case
  proof (cases "PANTHERA_MAX_KERNEL_SECTIONS \<le> section_count out")
    case True
    then show ?thesis using Suc.prems by simp
  next
    case False
    from push_section_checked [OF Suc.prems(1) False] show ?thesis
      using Suc.IH Suc.prems(2) False by (fastforce simp: Let_def)
  qed
qed

lemma widen_span_simps [simp]:
  "lowest_vmaddr (widen_span s out) = min (sc_vmaddr s) (lowest_vmaddr out)"
  "highest_vmaddr (widen_span s out) = max (sc_vmaddr s + sc_vmsize s) (highest_vmaddr out)"
  "segments (widen_span s out) = segments out"
  "sections (widen_span s out) = sections out"
  "segment_count (widen_span s out) = segment_count out"
  "section_count (widen_span s out) = section_count out"
  "entry_pc (widen_span s out) = entry_pc out"
  "file_size (widen_span s out) = file_size out"
  "local_reloc_offset (widen_span s out) = local_reloc_offset out"
  "local_reloc_count (widen_span s out) = local_reloc_count out"
  by (auto simp: widen_span_def Let_def min_def max_def)

lemma widen_span_checked: "image_checked z out \<Longrightarrow> image_checked z (widen_span s out)"
  by (auto simp: image_checked_def image_wf_def active_segments_def segment_checked_def
      min_le_iff_disj le_max_iff_disj)

lemma push_segment_checked:
  assumes "image_checked z out" and "\<not> PANTHERA_MAX_KERNEL_SEGMENTS \<le> segment_count out"
    and "sc_fileoff s + sc_filesize s \<le> z" and "\<not> (sc_vmsize s = 0 \<and> sc_filesize s = 0)"
  shows "image_checked z (push_segment s (widen_span s out))"
proof -
  from assms(2) have cnt: "unat (segment_count out + 1) = Suc (unat (segment_count out))"
    "segment_count out + 1 \<le> 16" "unat (segment_count out) < 16"
    using word_count_Suc [of 16 "segment_count out"] by simp_all
  have old: "segment_checked z (push_segment s (widen_span s out)) x"
    if "x \<in> set (active_segments out)" for x
    using assms(1) that
    by (auto simp: image_checked_def segment_checked_def push_segment_def min_le_iff_disj le_max_iff_disj)
  have new: "segment_checked z (push_segment s (widen_span s out)) (kernel_segment_of s)"
    using assms(3,4) by (simp add: segment_checked_def push_segment_def kernel_segment_of_def)
  have "length (segments out) = 16" using assms(1) by (simp add: image_checked_def image_wf_def)
  then have "active_segments (push_segment s (widen_span s out)) =
      active_segments out @ [kernel_segment_of s]"
    using cnt by (simp add: active_segments_def push_segment_def take_Suc_update)
  with old new show ?thesis
    using assms(1) cnt by (auto simp: image_checked_def image_wf_def push_segment_def)
qed

lemma parse_segment_checked:
  assumes "image_checked z out" and "parse_segment m cursor cmdsize z out = (st, k)"
  shows "image_checked z k \<and> entry_pc k = entry_pc out"
proof -
  define s where "s = ld_segment_command m cursor"
  have pushed: "image_checked z (push_segment s (widen_span s out))"
    if "\<not> PANTHERA_MAX_KERNEL_SEGMENTS \<le> segment_count out" "\<not> sc_fileoff s + sc_filesize s > z"
      "\<not> (sc_vmsize s = 0 \<and> sc_filesize s = 0)"
    using push_segment_checked [OF assms(1) that(1)] that(2,3) by simp
  show ?thesis
    using assms widen_span_checked [OF assms(1), of s] parse_sections_checked [OF pushed]
    by (auto simp: parse_segment_def Let_def s_def push_segment_def split: if_splits)
qed

lemma parse_dysymtab_checked:
  assumes "image_checked z out" and "parse_dysymtab m cursor cmdsize z out = (st, k)"
  shows "image_checked z k \<and> entry_pc k = entry_pc out"
proof -
  have fits: "unat o' + 8 * unat n \<le> unat z"
    if "\<not> ucast (o' :: u32) + ucast (n :: u32) * (8 :: u64) > z" for o' n
  proof -
    have "unat (ucast n * 8 :: u64) = unat n * 8" using unat_ucast32_mult [of 8 n] by simp
    then have "unat (ucast o' + ucast n * 8 :: u64) = unat o' + unat n * 8"
      using unat_lt2p [of o'] unat_lt2p [of n] by (simp add: unat_word_ariths)
    with that show ?thesis by (simp add: word_less_nat_alt)
  qed
  show ?thesis
    using assms fits
    by (auto simp: parse_dysymtab_def Let_def image_checked_def image_wf_def active_segments_def
        segment_checked_def split: if_splits)
qed

lemma parse_unixthread_checked:
  assumes "image_checked z out" and "parse_unixthread m cursor cmdsize out = (st, k)"
  shows "image_checked z k"
  using assms
  by (auto simp: parse_unixthread_def Let_def image_checked_def image_wf_def active_segments_def
      segment_checked_def split: if_splits)

lemma parse_command_checked:
  assumes "image_checked z out" and "parse_command m cursor lc z out = (st, k)"
  shows "image_checked z k"
  using assms parse_segment_checked [OF assms(1)] parse_dysymtab_checked [OF assms(1)]
    parse_unixthread_checked [OF assms(1)]
  unfolding parse_command_def by (metis prod.inject)

lemma parse_commands_checked:
  "image_checked z out \<Longrightarrow> parse_commands m img z left cursor out = (st, k) \<Longrightarrow>
   image_checked z k \<and> (st = PANTHERA_LOADER_OK \<longrightarrow> entry_pc k \<noteq> 0)"
proof (induction left arbitrary: cursor out)
  case 0
  then show ?case by (auto split: if_splits)
next
  case (Suc left)
  obtain st' k' where cmd: "parse_command m cursor (ld_load_command m cursor) z out = (st', k')"
    by fastforce
  have k': "image_checked z k'" by (rule parse_command_checked [OF Suc.prems(1) cmd])
  show ?case
    using Suc.prems Suc.IH [OF k'] k' by (auto simp: Let_def cmd split: if_splits)
qed

lemma image_checked_start: "image_checked z (zero_image\<lparr>file_size := z, lowest_vmaddr := - 1\<rparr>)"
  by (simp add: image_checked_def image_wf_def zero_image_def active_segments_def)


section \<open>Refinement of an abstract summary\<close>

text \<open>
  The specification side: a kernel file is a list of load commands with their sizes, and the
  parser's job is to compute a summary of that list.
\<close>

datatype load_cmd =
    SegmentCmd PantheraSegmentCommand64 "PantheraKernelSection list"
  | DysymtabCmd u32 u32
  | UnixthreadCmd u64
  | OtherCmd u32 "u8 list"

record macho_summary =
  ms_entry :: u64
  ms_lowest :: u64
  ms_highest :: u64
  ms_reloc :: "u32 \<times> u32"
  ms_segments :: "PantheraKernelSegment list"
  ms_sections :: "PantheraKernelSection list"

definition empty_summary :: macho_summary where
  "empty_summary = \<lparr>ms_entry = 0, ms_lowest = - 1, ms_highest = 0, ms_reloc = (0, 0),
     ms_segments = [], ms_sections = []\<rparr>"

fun summarize_cmd :: "load_cmd \<Rightarrow> macho_summary \<Rightarrow> macho_summary" where
  "summarize_cmd (SegmentCmd s secs) a =
     (if sc_vmsize s = 0 \<and> sc_filesize s = 0 then a
      else a\<lparr>ms_lowest := min (sc_vmaddr s) (ms_lowest a),
             ms_highest := max (sc_vmaddr s + sc_vmsize s) (ms_highest a),
             ms_segments := ms_segments a @ [kernel_segment_of s],
             ms_sections := ms_sections a @ secs\<rparr>)"
| "summarize_cmd (DysymtabCmd off n) a = a\<lparr>ms_reloc := (off, n)\<rparr>"
| "summarize_cmd (UnixthreadCmd rip) a = a\<lparr>ms_entry := rip\<rparr>"
| "summarize_cmd (OtherCmd c bs) a = a"

definition summary_of :: "PantheraKernelImage \<Rightarrow> macho_summary" where
  "summary_of k = \<lparr>ms_entry = entry_pc k, ms_lowest = lowest_vmaddr k, ms_highest = highest_vmaddr k,
     ms_reloc = (local_reloc_offset k, local_reloc_count k),
     ms_segments = active_segments k, ms_sections = active_sections k\<rparr>"

text \<open>What it means that memory holds a command at an address, and that the command passes the
  checks of the parser.\<close>

definition sections_at :: "mem \<Rightarrow> u64 \<Rightarrow> PantheraKernelSection list \<Rightarrow> bool" where
  "sections_at m p secs \<longleftrightarrow> (\<forall>i < length secs.
     sect_addr (secs ! i) = rd64 m (p + of_nat i * 80 + 32) \<and>
     sect_size (secs ! i) = rd64 m (p + of_nat i * 80 + 40))"

fun cmd_at :: "mem \<Rightarrow> u64 \<Rightarrow> u32 \<Rightarrow> load_cmd \<Rightarrow> bool" where
  "cmd_at m p sz (SegmentCmd s secs) \<longleftrightarrow> rd32 m p = LC_SEGMENT_64 \<and> ld_segment_command m p = s \<and>
     unat (sc_nsects s) = length secs \<and> 72 + 80 * length secs \<le> unat sz \<and> sections_at m (p + 72) secs"
| "cmd_at m p sz (DysymtabCmd off n) \<longleftrightarrow> rd32 m p = LC_DYSYMTAB \<and> 80 \<le> unat sz \<and>
     rd32 m (p + 72) = off \<and> rd32 m (p + 76) = n"
| "cmd_at m p sz (UnixthreadCmd rip) \<longleftrightarrow> rd32 m p = LC_UNIXTHREAD \<and> 184 \<le> unat sz \<and>
     rd64 m (p + 144) = rip"
| "cmd_at m p sz (OtherCmd c bs) \<longleftrightarrow> rd32 m p = c \<and>
     c \<notin> {LC_SEGMENT_64, LC_DYSYMTAB, LC_UNIXTHREAD} \<and> rd_bytes m (p + 8) (unat sz - 8) = bs"

fun cmds_at :: "mem \<Rightarrow> u64 \<Rightarrow> (u32 \<times> load_cmd) list \<Rightarrow> bool" where
  "cmds_at m p [] \<longleftrightarrow> True"
| "cmds_at m p ((sz, c) # cs) \<longleftrightarrow> rd32 m (p + 4) = sz \<and> 8 \<le> unat sz \<and> cmd_at m p sz c \<and>
     cmds_at m (p + ucast sz) cs"

fun cmd_fits :: "u64 \<Rightarrow> load_cmd \<Rightarrow> bool" where
  "cmd_fits z (SegmentCmd s secs) \<longleftrightarrow> sc_fileoff s + sc_filesize s \<le> z"
| "cmd_fits z (DysymtabCmd off n) \<longleftrightarrow> unat off + 8 * unat n \<le> unat z"
| "cmd_fits z (UnixthreadCmd rip) \<longleftrightarrow> True"
| "cmd_fits z (OtherCmd c bs) \<longleftrightarrow> True"

definition summarize :: "(u32 \<times> load_cmd) list \<Rightarrow> macho_summary \<Rightarrow> macho_summary" where
  "summarize cs a = fold (\<lambda>(sz, c). summarize_cmd c) cs a"

definition summary_fits :: "macho_summary \<Rightarrow> bool" where
  "summary_fits a \<longleftrightarrow> length (ms_segments a) \<le> 16 \<and> length (ms_sections a) \<le> 64"

lemma summarize_simps [simp]:
  "summarize [] a = a"
  "summarize ((sz, c) # cs) a = summarize cs (summarize_cmd c a)"
  by (simp_all add: summarize_def)

lemma summarize_cmd_grows:
  "length (ms_segments a) \<le> length (ms_segments (summarize_cmd c a)) \<and>
   length (ms_sections a) \<le> length (ms_sections (summarize_cmd c a))"
  by (cases c) auto

lemma summarize_grows:
  "length (ms_segments a) \<le> length (ms_segments (summarize cs a)) \<and>
   length (ms_sections a) \<le> length (ms_sections (summarize cs a))"
proof (induction cs arbitrary: a)
  case (Cons x cs)
  obtain sz c where "x = (sz, c)" by fastforce
  then show ?case
    using Cons.IH [of "summarize_cmd c a"] summarize_cmd_grows [of a c] by auto
qed simp

lemma parse_sections_summary:
  assumes "sections_at m sec secs" and "unat idx + left = length secs" and "length secs < 2 ^ 32"
    and "image_wf out" and "unat (section_count out) + left \<le> 64"
  shows "\<exists>k. parse_sections m sec left idx out = (PANTHERA_LOADER_OK, k) \<and> image_wf k \<and>
    file_size k = file_size out \<and>
    summary_of k = (summary_of out)\<lparr>ms_sections := active_sections out @ drop (unat idx) secs\<rparr>"
  using assms(2,4,5)
proof (induction left arbitrary: idx out)
  case 0
  then show ?case by (simp add: summary_of_def)
next
  case (Suc left)
  define s where "s = ld_section m (sec + ucast idx * 80)"
  define out' where "out' = out\<lparr>sections := (sections out)[unat (section_count out) :=
      \<lparr>sect_addr = s64_addr s, sect_size = s64_size s\<rparr>], section_count := section_count out + 1\<rparr>"
  have room: "\<not> PANTHERA_MAX_KERNEL_SECTIONS \<le> section_count out"
    using Suc.prems(3) by (simp add: word_le_nat_alt)
  note cnt = word_count_Suc [OF room, simplified]
  have idx: "unat idx < length secs" using Suc.prems(1) by simp
  have idx1: "unat (idx + 1) = Suc (unat idx)"
    using Suc.prems(1) assms(3) unat_Suc32 [of idx] by simp
  have "of_nat (unat idx) = (ucast idx :: u64)" by (simp add: unsigned_of_nat word_unat_eq_iff)
  with assms(1) idx have sec: "\<lparr>sect_addr = s64_addr s, sect_size = s64_size s\<rparr> = secs ! unat idx"
    unfolding sections_at_def s_def ld_section_def by simp
  have wf': "image_wf out'" using Suc.prems(2) cnt by (simp add: out'_def image_wf_def)
  have act: "active_sections out' = active_sections out @ [secs ! unat idx]"
    using Suc.prems(2) cnt sec by (simp add: out'_def active_sections_def image_wf_def take_Suc_update)
  have step: "parse_sections m sec (Suc left) idx out = parse_sections m sec left (idx + 1) out'"
    using room by (simp add: out'_def s_def Let_def)
  have "drop (unat idx) secs = secs ! unat idx # drop (Suc (unat idx)) secs"
    using idx by (simp add: Cons_nth_drop_Suc)
  moreover have "summary_of out' = (summary_of out)\<lparr>ms_sections := active_sections out'\<rparr>"
    by (simp add: out'_def summary_of_def active_segments_def active_sections_def)
  moreover have "file_size out' = file_size out" by (simp add: out'_def)
  ultimately show ?case
    using Suc.IH [of "idx + 1" out'] Suc.prems idx1 wf' act cnt step by (auto simp: out'_def)
qed

lemma push_segment_summary:
  assumes "image_wf out" and "unat (segment_count out) < 16"
  shows "image_wf (push_segment s (widen_span s out))"
    and "active_segments (push_segment s (widen_span s out)) = active_segments out @ [kernel_segment_of s]"
proof -
  have "\<not> PANTHERA_MAX_KERNEL_SEGMENTS \<le> segment_count out"
    using assms(2) by (simp add: word_le_nat_alt)
  note cnt = word_count_Suc [OF this, simplified]
  show "image_wf (push_segment s (widen_span s out))"
    using assms(1) cnt by (simp add: image_wf_def push_segment_def)
  show "active_segments (push_segment s (widen_span s out)) = active_segments out @ [kernel_segment_of s]"
    using assms cnt by (simp add: active_segments_def push_segment_def image_wf_def take_Suc_update)
qed

lemma length_active:
  "image_wf k \<Longrightarrow> length (active_segments k) = unat (segment_count k)"
  "image_wf k \<Longrightarrow> length (active_sections k) = unat (section_count k)"
  by (auto simp: image_wf_def active_segments_def active_sections_def word_le_nat_alt)

lemma parse_segment_summary:
  assumes at: "cmd_at m p sz (SegmentCmd s secs)" and fits: "cmd_fits z (SegmentCmd s secs)"
    and wf: "image_wf out" and room: "summary_fits (summarize_cmd (SegmentCmd s secs) (summary_of out))"
  shows "\<exists>k. parse_segment m p sz z out = (PANTHERA_LOADER_OK, k) \<and> image_wf k \<and>
    file_size k = file_size out \<and> summary_of k = summarize_cmd (SegmentCmd s secs) (summary_of out)"
proof -
  have n: "unat (sc_nsects s) = length secs" and big: "72 + 80 * length secs \<le> unat sz"
    and seg: "ld_segment_command m p = s" and secs: "sections_at m (p + 72) secs"
    using at by auto
  have len: "length secs < 2 ^ 32" using unat_lt2p [of "sc_nsects s"] n by simp
  have "unat (ucast (sc_nsects s) * 80 :: u64) = length secs * 80"
    using unat_ucast32_mult [of 80 "sc_nsects s"] n by simp
  then have "unat (72 + ucast (sc_nsects s) * 80 :: u64) = 72 + length secs * 80"
    using len by (simp add: unat_word_ariths)
  then have size_ok: "\<not> ucast sz < (72 + ucast (sc_nsects s) * 80 :: u64)" "\<not> ucast sz < (72 :: u64)"
    using big by (auto simp: word_less_nat_alt)
  show ?thesis
  proof (cases "sc_vmsize s = 0 \<and> sc_filesize s = 0")
    case True
    then show ?thesis using wf size_ok by (simp add: parse_segment_def seg)
  next
    case False
    define out1 where "out1 = push_segment s (widen_span s out)"
    have counts: "unat (segment_count out) < 16" "unat (section_count out) + length secs \<le> 64"
      using room False length_active [OF wf] by (auto simp: summary_fits_def summary_of_def)
    have wf1: "image_wf out1" and act: "active_segments out1 = active_segments out @ [kernel_segment_of s]"
      using push_segment_summary [OF wf counts(1)] by (simp_all add: out1_def)
    have more: "section_count out1 = section_count out" "active_sections out1 = active_sections out"
      "file_size out1 = file_size out"
      by (simp_all add: out1_def push_segment_def active_sections_def)
    obtain k where k: "parse_sections m (p + 72) (length secs) 0 out1 = (PANTHERA_LOADER_OK, k)"
      "image_wf k" "file_size k = file_size out1"
      "summary_of k = (summary_of out1)\<lparr>ms_sections := active_sections out1 @ secs\<rparr>"
      using parse_sections_summary [OF secs _ len wf1, of 0 "length secs"] counts more by auto
    have "\<not> PANTHERA_MAX_KERNEL_SEGMENTS \<le> segment_count out"
      using counts(1) by (simp add: word_le_nat_alt)
    then have "parse_segment m p sz z out = (PANTHERA_LOADER_OK, k)"
      using False size_ok fits k(1) by (auto simp: parse_segment_def seg n out1_def dest: leD)
    moreover have "summary_of k = summarize_cmd (SegmentCmd s secs) (summary_of out)"
      using False k(4) act more
      by (simp add: summary_of_def) (simp add: out1_def push_segment_def)
    ultimately show ?thesis using k(2,3) more by auto
  qed
qed

lemma parse_command_summary:
  assumes at: "cmd_at m p sz c" and fits: "cmd_fits z c" and wf: "image_wf out"
    and room: "summary_fits (summarize_cmd c (summary_of out))"
    and lc: "lc_cmd lc = rd32 m p" "lc_cmdsize lc = sz"
  shows "\<exists>k. parse_command m p lc z out = (PANTHERA_LOADER_OK, k) \<and> image_wf k \<and>
    file_size k = file_size out \<and> summary_of k = summarize_cmd c (summary_of out)"
proof (cases c)
  case (SegmentCmd s secs)
  then have "lc_cmd lc = LC_SEGMENT_64" using at lc by simp
  then have "parse_command m p lc z out = parse_segment m p sz z out"
    using lc(2) by (simp add: parse_command_def)
  then show ?thesis
    using parse_segment_summary [of m p sz s secs z out] at fits wf room
    unfolding SegmentCmd by (simp only:)
next
  case (DysymtabCmd off n)
  have "unat (ucast n * 8 :: u64) = unat n * 8" using unat_ucast32_mult [of 8 n] by simp
  then have "unat (ucast off + ucast n * 8 :: u64) = unat off + unat n * 8"
    using unat_lt2p [of off] unat_lt2p [of n] by (simp add: unat_word_ariths)
  then have "\<not> z < ucast off + ucast n * 8" "\<not> ucast sz < (80 :: u64)"
    using fits at DysymtabCmd by (auto simp: word_less_nat_alt)
  then show ?thesis
    using at wf lc DysymtabCmd
    by (simp add: parse_command_def parse_dysymtab_def ld_dysymtab_command_def image_wf_def
        summary_of_def active_segments_def active_sections_def)
next
  case (UnixthreadCmd rip)
  then have "\<not> ucast sz < (184 :: u64)" using at by (auto simp: word_less_nat_alt)
  then show ?thesis
    using at wf lc UnixthreadCmd
    by (simp add: parse_command_def parse_unixthread_def ld_thread_rip_def image_wf_def
        summary_of_def active_segments_def active_sections_def add.assoc)
next
  case (OtherCmd c' bs)
  then show ?thesis using at wf lc by (simp add: parse_command_def)
qed

lemma parse_commands_summary:
  assumes "cmds_at m cursor cs" and "\<forall>(sz, c) \<in> set cs. cmd_fits z c"
    and "unat (cursor - img) + (\<Sum>(sz, c) \<leftarrow> cs. unat sz) \<le> unat z" and "z < 2 ^ 63"
    and "image_wf out" and "summary_fits (summarize cs (summary_of out))"
    and "ms_entry (summarize cs (summary_of out)) \<noteq> 0"
  shows "\<exists>k. parse_commands m img z (length cs) cursor out = (PANTHERA_LOADER_OK, k) \<and>
    image_wf k \<and> file_size k = file_size out \<and> summary_of k = summarize cs (summary_of out)"
  using assms
proof (induction cs arbitrary: cursor out)
  case Nil
  then show ?case by (simp add: summary_of_def)
next
  case (Cons x cs)
  obtain sz c where x: "x = (sz, c)" by fastforce
  define lc where "lc = ld_load_command m cursor"
  have lc: "lc_cmd lc = rd32 m cursor" "lc_cmdsize lc = sz"
    using Cons.prems(1) x by (simp_all add: lc_def ld_load_command_def)
  have sz: "8 \<le> unat sz" using Cons.prems(1) x by simp
  have "summary_fits (summarize_cmd c (summary_of out))"
    using Cons.prems(6) summarize_grows [of "summarize_cmd c (summary_of out)" cs] x
    by (auto simp: summary_fits_def)
  then obtain k1 where k1: "parse_command m cursor lc z out = (PANTHERA_LOADER_OK, k1)"
    "image_wf k1" "file_size k1 = file_size out" "summary_of k1 = summarize_cmd c (summary_of out)"
    using parse_command_summary [of m cursor sz c z out lc] Cons.prems x lc by auto
  have z: "unat z < 2 ^ 63" using Cons.prems(4) by (simp add: word_less_nat_alt)
  have add: "unat (cursor - img + y) = unat (cursor - img) + unat y" if "unat y \<le> unat sz" for y :: u64
    using Cons.prems(3) z x that by (simp add: unat_word_ariths)
  have nxt: "unat (cursor + ucast sz - img) = unat (cursor - img) + unat sz"
    using add [of "ucast sz"] by (simp add: algebra_simps)
  have ok: "\<not> z < cursor - img + 8" "\<not> z < cursor - img + ucast sz" "\<not> ucast sz < (8 :: u64)"
    using add [of 8] add [of "ucast sz"] Cons.prems(3) x sz by (auto simp: word_less_nat_alt)
  have "parse_commands m img z (length (x # cs)) cursor out =
      parse_commands m img z (length cs) (cursor + ucast sz) k1"
    using ok lc k1(1) by (simp add: lc_def [symmetric])
  then show ?case
    using Cons.IH [of "cursor + ucast sz" k1] Cons.prems x k1 nxt by auto
qed

definition header_ok :: "PantheraMachHeader64 \<Rightarrow> u64 \<Rightarrow> nat \<Rightarrow> bool" where
  "header_ok h image_size n \<longleftrightarrow> mh_magic h = MH_MAGIC_64 \<and> mh_cputype h = CPU_TYPE_X86_64 \<and>
     mh_filetype h = MH_EXECUTE \<and> unat (mh_ncmds h) = n \<and>
     32 + unat (mh_sizeofcmds h) \<le> unat image_size"

lemma parse_summary_ok:
  assumes "img \<noteq> 0" and "image_size < 2 ^ 63" and "header_ok (ld_mach_header m img) image_size (length cs)"
    and "cmds_at m (img + 32) cs" and "32 + (\<Sum>(sz, c) \<leftarrow> cs. unat sz) \<le> unat image_size"
    and "\<forall>(sz, c) \<in> set cs. cmd_fits image_size c"
    and "summary_fits (summarize cs empty_summary)" and "ms_entry (summarize cs empty_summary) \<noteq> 0"
  shows "\<exists>k. panthera_parse_kernel_macho m img image_size (Some out) = (PANTHERA_LOADER_OK, Some k) \<and>
    image_wf k \<and> file_size k = image_size \<and> summary_of k = summarize cs empty_summary"
proof -
  define k0 where "k0 = zero_image\<lparr>file_size := image_size, lowest_vmaddr := - 1\<rparr>"
  have start: "image_wf k0" "summary_of k0 = empty_summary" "file_size k0 = image_size"
    by (simp_all add: k0_def zero_image_def image_wf_def summary_of_def empty_summary_def
        active_segments_def active_sections_def)
  have h: "unat (mh_sizeofcmds (ld_mach_header m img)) + 32 \<le> unat image_size"
    using assms(3) by (simp add: header_ok_def)
  then have "\<not> image_size < 32 + ucast (mh_sizeofcmds (ld_mach_header m img))"
    using unat_lt2p [of "mh_sizeofcmds (ld_mach_header m img)"]
    by (simp add: word_less_nat_alt unat_word_ariths)
  moreover have "\<not> image_size < 32" using h by (simp add: word_less_nat_alt)
  moreover obtain k where "parse_commands m img image_size (length cs) (img + 32) k0 = (PANTHERA_LOADER_OK, k)"
    "image_wf k" "file_size k = image_size" "summary_of k = summarize cs empty_summary"
    using parse_commands_summary [of m "img + 32" cs image_size img k0] assms start by auto
  ultimately show ?thesis
    using assms(1,3)
    by (simp add: panthera_parse_kernel_macho_def header_ok_def k0_def [symmetric] Let_def)
qed

text \<open>
  C17. Functional correctness of the parser, as a refinement: on a file whose header is accepted and
  whose load commands are well-formed, fit the file and the two tables and set an entry point, the
  parser succeeds and its tables, span, relocation range and entry point are the abstract summary
  of the command list.
\<close>

theorem parse_refines_summary:
  assumes "img \<noteq> 0" and "image_size < 2 ^ 63" and "header_ok (ld_mach_header m img) image_size (length cs)"
    and "cmds_at m (img + 32) cs" and "32 + (\<Sum>(sz, c) \<leftarrow> cs. unat sz) \<le> unat image_size"
    and "\<forall>(sz, c) \<in> set cs. cmd_fits image_size c"
    and "summary_fits (summarize cs empty_summary)" and "ms_entry (summarize cs empty_summary) \<noteq> 0"
  shows "\<exists>k. panthera_parse_kernel_macho m img image_size (Some out) = (PANTHERA_LOADER_OK, Some k) \<and>
    image_wf k \<and> file_size k = image_size \<and> summary_of k = summarize cs empty_summary"
  using assms by (rule parse_summary_ok)

section \<open>A concrete kernel file\<close>

text \<open>A file of 368 bytes at address \<open>0x1000\<close>: a header, one segment with one section, and the
  thread command with the entry point.\<close>

definition demo_kernel :: mem where
  "demo_kernel = (\<lambda>_. 0)(
     0x1000 := 0xcf, 0x1001 := 0xfa, 0x1002 := 0xed, 0x1003 := 0xfe,
     0x1004 := 0x07, 0x1007 := 0x01, 0x100c := 0x02, 0x1010 := 0x02, 0x1014 := 0x50, 0x1015 := 0x01,
     0x1020 := 0x19, 0x1024 := 0x98, 0x1028 := 0x5f, 0x1029 := 0x5f, 0x102a := 0x54, 0x102b := 0x45,
     0x102c := 0x58, 0x102d := 0x54, 0x103a := 0x10, 0x1041 := 0x20, 0x1050 := 0x70, 0x1051 := 0x01,
     0x1060 := 0x01, 0x1089 := 0x01, 0x108a := 0x10, 0x1090 := 0x10,
     0x10b8 := 0x05, 0x10bc := 0xb8, 0x1148 := 0x40, 0x114a := 0x10)"

definition demo_segment :: PantheraSegmentCommand64 where
  "demo_segment = \<lparr>sc_cmd = 0x19, sc_cmdsize = 0x98,
     sc_segname = [0x5f, 0x5f, 0x54, 0x45, 0x58, 0x54, 0, 0, 0, 0, 0, 0, 0, 0, 0, 0],
     sc_vmaddr = 0x100000, sc_vmsize = 0x2000, sc_fileoff = 0, sc_filesize = 0x170,
     sc_maxprot = 0, sc_initprot = 0, sc_nsects = 1, sc_flags = 0\<rparr>"

definition demo_section :: PantheraKernelSection where
  "demo_section = \<lparr>sect_addr = 0x100100, sect_size = 0x10\<rparr>"

definition demo_commands :: "(u32 \<times> load_cmd) list" where
  "demo_commands = [(0x98, SegmentCmd demo_segment [demo_section]), (0xb8, UnixthreadCmd 0x100040)]"

definition demo_summary :: macho_summary where
  "demo_summary = \<lparr>ms_entry = 0x100040, ms_lowest = 0x100000, ms_highest = 0x102000, ms_reloc = (0, 0),
     ms_segments = [kernel_segment_of demo_segment], ms_sections = [demo_section]\<rparr>"

lemma demo_header: "header_ok (ld_mach_header demo_kernel 0x1000) 368 (Suc (Suc 0))"
  by (simp add: header_ok_def ld_mach_header_def eval_mem demo_kernel_def)

lemma demo_segment_at: "ld_segment_command demo_kernel 0x1020 = demo_segment"
  by (simp add: ld_segment_command_def eval_mem demo_kernel_def demo_segment_def)

lemma demo_reads:
  "rd32 demo_kernel 0x1020 = 0x19" "rd32 demo_kernel 0x1024 = 0x98"
  "rd64 demo_kernel 0x1088 = 0x100100" "rd64 demo_kernel 0x1090 = 0x10"
  "rd32 demo_kernel 0x10b8 = 5" "rd32 demo_kernel 0x10bc = 0xb8" "rd64 demo_kernel 0x1148 = 0x100040"
  by (simp_all add: eval_mem demo_kernel_def)

lemma demo_commands_at: "cmds_at demo_kernel (0x1000 + 32) demo_commands"
  using demo_segment_at demo_reads
  by (simp add: demo_commands_def sections_at_def demo_section_def, simp add: demo_segment_def)

lemma demo_summarize: "summarize demo_commands empty_summary = demo_summary"
  by (simp add: demo_commands_def empty_summary_def demo_summary_def, simp add: demo_segment_def)

lemma demo_hyps:
  "header_ok (ld_mach_header demo_kernel 0x1000) 368 (length demo_commands)"
  "\<forall>(sz, c) \<in> set demo_commands. cmd_fits 368 c"
  "32 + (\<Sum>(sz, c) \<leftarrow> demo_commands. unat sz) \<le> unat (368 :: u64)"
  "summary_fits demo_summary" "ms_entry demo_summary \<noteq> 0"
  using demo_header
  by (simp_all add: demo_commands_def demo_segment_def summary_fits_def demo_summary_def)

lemma demo_parse:
  "\<exists>k. panthera_parse_kernel_macho demo_kernel 0x1000 368 (Some zero_image) = (PANTHERA_LOADER_OK, Some k) \<and>
     image_wf k \<and> file_size k = 368 \<and> summary_of k = demo_summary"
  using parse_summary_ok [of "0x1000" 368 demo_kernel demo_commands zero_image]
    demo_hyps demo_commands_at demo_summarize by simp

theorem parse_refines_summary_witness:
  "\<exists>k. panthera_parse_kernel_macho demo_kernel 0x1000 368 (Some zero_image) = (PANTHERA_LOADER_OK, Some k) \<and>
     image_wf k \<and> file_size k = 368 \<and> summary_of k = demo_summary"
  using parse_refines_summary [of "0x1000" 368 demo_kernel demo_commands zero_image]
    demo_hyps demo_commands_at demo_summarize by simp

theorem parse_reads_only_file_witness:
  "mem_eq_on 0x1000 368 demo_kernel (demo_kernel(0x2000 := 1)) \<and>
   panthera_parse_kernel_macho demo_kernel 0x1000 368 (Some zero_image) =
   panthera_parse_kernel_macho (demo_kernel(0x2000 := 1)) 0x1000 368 (Some zero_image)"
proof -
  have "mem_eq_on 0x1000 368 demo_kernel (demo_kernel(0x2000 := 1))"
    by (auto simp: mem_eq_on_def in_range_def)
  then show ?thesis
    using parse_reads_only_file [of "0x1000" 368 demo_kernel "demo_kernel(0x2000 := 1)" "Some zero_image"]
    by simp
qed


end
