(* ===== verification/Macho_Rebase.thy ===== *)
theory Macho_Rebase
  imports Macho_Parse
begin

text \<open>
  Rebasing of the kernel's local relocations, \<open>panthera_rebase_kernel_locals\<close> of
  \<open>boot/efi/loader/src/panthera_loader.c\<close>. The relocation table is read from the file image and the
  pointers are patched in the loaded image; both are ranges of the one memory, so the loop reads the
  table from the memory it is changing. One iteration is \<open>rebase_one\<close>; its three outcomes are the
  \<open>continue\<close>s, the error returns and the patch. Theorems: where the patch addresses lie in the
  image span nothing outside the loaded image changes, every eligible slot is moved by exactly the
  slide and the count is the number of eligible entries, and a zero slide changes nothing; the
  last part shows what the range check of \<open>panthera_loaded_vmaddr\<close> lets through.
\<close>

section \<open>The rebase loop\<close>

definition segname_is_data :: "u8 list \<Rightarrow> bool" where
  "segname_is_data s \<longleftrightarrow> s ! 0 = 0x5f \<and> s ! 1 = 0x5f \<and> s ! 2 = 0x44 \<and> s ! 3 = 0x41 \<and>
     s ! 4 = 0x54 \<and> s ! 5 = 0x41 \<and> s ! 6 = 0"

fun find_reloc_base :: "PantheraKernelSegment list \<Rightarrow> u64" where
  "find_reloc_base [] = 0"
| "find_reloc_base (segment # rest) =
     (if segname_is_data (segname segment) then vmaddr segment else find_reloc_base rest)"

definition patch_vmaddr_of :: "u64 \<Rightarrow> u32 \<Rightarrow> u64" where
  "patch_vmaddr_of reloc_base_vmaddr address =
     (let signed_address = sint address in
      if signed_address < 0 then reloc_base_vmaddr - of_int (- signed_address)
      else reloc_base_vmaddr + of_int signed_address)"

datatype rebase_outcome = RebaseSkip | RebaseFail | RebaseApply mem

definition rebase_one ::
  "PantheraKernelImage \<Rightarrow> u64 \<Rightarrow> u64 \<Rightarrow> u64 \<Rightarrow> PantheraRelocationInfo \<Rightarrow> mem \<Rightarrow> rebase_outcome" where
  "rebase_one kernel_image loaded_base slide reloc_base_vmaddr reloc m =
     (let info = r_info reloc;
          r_symbolnum = info AND 0x00ffffff;
          r_pcrel = drop_bit 24 info AND 0x1;
          r_length = drop_bit 25 info AND 0x3;
          r_extern = drop_bit 27 info AND 0x1;
          r_type = drop_bit 28 info AND 0xf
      in if r_symbolnum = 0 \<or> r_symbolnum > section_count kernel_image then RebaseSkip
         else if r_pcrel \<noteq> 0 \<or> r_extern \<noteq> 0 then RebaseSkip
         else if r_type \<noteq> X86_64_RELOC_UNSIGNED \<or> r_length \<noteq> 3 then RebaseSkip
         else
           let target_section = sections kernel_image ! unat (r_symbolnum - 1);
               patch_vmaddr = patch_vmaddr_of reloc_base_vmaddr (r_address reloc)
           in if patch_vmaddr = lowest_vmaddr kernel_image + 0x1042 \<or>
                 patch_vmaddr = lowest_vmaddr kernel_image + 0x99002 then RebaseSkip
              else
                let patch_slot = panthera_loaded_vmaddr kernel_image loaded_base patch_vmaddr 8 in
                if patch_slot = 0 then RebaseFail
                else
                  let candidate_value = rd64 m patch_slot in
                  if candidate_value < sect_addr target_section \<or>
                     candidate_value \<ge> sect_addr target_section + sect_size target_section
                  then RebaseFail
                  else RebaseApply (wr64 m patch_slot (rd64 m patch_slot + slide)))"

fun rebase_loop ::
  "PantheraKernelImage \<Rightarrow> u64 \<Rightarrow> u64 \<Rightarrow> u64 \<Rightarrow> u64 \<Rightarrow> nat \<Rightarrow> u32 \<Rightarrow> u32 \<Rightarrow> mem
     \<Rightarrow> PantheraLoaderStatus \<times> u32 \<times> mem" where
  "rebase_loop kernel_image loaded_base slide reloc_base relocs 0 index applied_count m =
     (PANTHERA_LOADER_OK, applied_count, m)"
| "rebase_loop kernel_image loaded_base slide reloc_base relocs (Suc left) index applied_count m =
     (case rebase_one kernel_image loaded_base slide reloc_base
             (ld_relocation_info m (relocs + ucast index * sizeof_relocation_info)) m of
        RebaseSkip \<Rightarrow>
          rebase_loop kernel_image loaded_base slide reloc_base relocs left (index + 1) applied_count m
      | RebaseFail \<Rightarrow> (PANTHERA_LOADER_E_BAD_RELOC, applied_count, m)
      | RebaseApply m' \<Rightarrow>
          rebase_loop kernel_image loaded_base slide reloc_base relocs left (index + 1)
            (applied_count + 1) m')"

definition kernel_slide :: "PantheraKernelImage \<Rightarrow> u64 \<Rightarrow> u64" where
  "kernel_slide kernel_image loaded_base = loaded_base - ucast (ucast (lowest_vmaddr kernel_image) :: u32)"

text \<open>The image pointer and the count pointer may be null (\<open>None\<close>); the count cell is returned.\<close>

definition panthera_rebase_kernel_locals ::
  "mem \<Rightarrow> u64 \<Rightarrow> u64 \<Rightarrow> PantheraKernelImage option \<Rightarrow> u64 \<Rightarrow> u32 option
     \<Rightarrow> PantheraLoaderStatus \<times> u32 option \<times> mem" where
  "panthera_rebase_kernel_locals m file_image fsize kernel_image loaded_base applied_count_out =
     (case kernel_image of
        None \<Rightarrow> (PANTHERA_LOADER_E_NULL, applied_count_out, m)
      | Some k \<Rightarrow>
        if file_image = 0 \<or> loaded_base = 0 then (PANTHERA_LOADER_E_NULL, applied_count_out, m)
        else
          let count0 = map_option (\<lambda>_. 0) applied_count_out;
              slide = kernel_slide k loaded_base
          in if slide = 0 \<or> local_reloc_count k = 0 then (PANTHERA_LOADER_OK, count0, m)
             else
               let reloc_bytes = ucast (local_reloc_count k) * sizeof_relocation_info in
               if ucast (local_reloc_offset k) + reloc_bytes > fsize then
                 (PANTHERA_LOADER_E_TRUNCATED, count0, m)
               else
                 let relocs = file_image + ucast (local_reloc_offset k);
                     reloc_base_vmaddr = find_reloc_base (active_segments k)
                 in if reloc_base_vmaddr = 0 then (PANTHERA_LOADER_E_BAD_RELOC, count0, m)
                    else
                      case rebase_loop k loaded_base slide reloc_base_vmaddr relocs
                             (unat (local_reloc_count k)) 0 0 m of
                        (status, applied_count, m') \<Rightarrow>
                          if status = PANTHERA_LOADER_OK
                          then (PANTHERA_LOADER_OK, map_option (\<lambda>_. applied_count) applied_count_out, m')
                          else (status, count0, m'))"

section \<open>Eligible entries and their slots\<close>

definition reloc_eligible :: "PantheraKernelImage \<Rightarrow> u64 \<Rightarrow> PantheraRelocationInfo \<Rightarrow> bool" where
  "reloc_eligible k rb r \<longleftrightarrow>
     r_info r AND 0x00ffffff \<noteq> 0 \<and> r_info r AND 0x00ffffff \<le> section_count k \<and>
     drop_bit 24 (r_info r) AND 0x1 = 0 \<and> drop_bit 27 (r_info r) AND 0x1 = 0 \<and>
     drop_bit 28 (r_info r) AND 0xf = X86_64_RELOC_UNSIGNED \<and> drop_bit 25 (r_info r) AND 0x3 = 3 \<and>
     patch_vmaddr_of rb (r_address r) \<noteq> lowest_vmaddr k + 0x1042 \<and>
     patch_vmaddr_of rb (r_address r) \<noteq> lowest_vmaddr k + 0x99002"

definition reloc_slot :: "PantheraKernelImage \<Rightarrow> u64 \<Rightarrow> u64 \<Rightarrow> PantheraRelocationInfo \<Rightarrow> u64" where
  "reloc_slot k base rb r = panthera_loaded_vmaddr k base (patch_vmaddr_of rb (r_address r)) 8"

definition reloc_target :: "PantheraKernelImage \<Rightarrow> PantheraRelocationInfo \<Rightarrow> PantheraKernelSection" where
  "reloc_target k r = sections k ! unat ((r_info r AND 0x00ffffff) - 1)"

definition points_into :: "PantheraKernelSection \<Rightarrow> u64 \<Rightarrow> bool" where
  "points_into s v \<longleftrightarrow> sect_addr s \<le> v \<and> v < sect_addr s + sect_size s"

lemma rebase_one_cases:
  "rebase_one k base slide rb r m =
     (if \<not> reloc_eligible k rb r then RebaseSkip
      else if reloc_slot k base rb r = 0 \<or> \<not> points_into (reloc_target k r) (rd64 m (reloc_slot k base rb r))
      then RebaseFail
      else RebaseApply (wr64 m (reloc_slot k base rb r) (rd64 m (reloc_slot k base rb r) + slide)))"
  by (auto simp: rebase_one_def Let_def reloc_eligible_def reloc_slot_def reloc_target_def
      points_into_def not_less not_le)

primrec relocs_at :: "mem \<Rightarrow> u64 \<Rightarrow> nat \<Rightarrow> u32 \<Rightarrow> PantheraRelocationInfo list" where
  "relocs_at m p 0 index = []"
| "relocs_at m p (Suc n) index = ld_relocation_info m (p + ucast index * 8) # relocs_at m p n (index + 1)"

fun rebase_list ::
  "PantheraKernelImage \<Rightarrow> u64 \<Rightarrow> u64 \<Rightarrow> u64 \<Rightarrow> PantheraRelocationInfo list \<Rightarrow> u32 \<Rightarrow> mem
     \<Rightarrow> PantheraLoaderStatus \<times> u32 \<times> mem" where
  "rebase_list k base slide rb [] n m = (PANTHERA_LOADER_OK, n, m)"
| "rebase_list k base slide rb (r # rs) n m =
     (case rebase_one k base slide rb r m of
        RebaseSkip \<Rightarrow> rebase_list k base slide rb rs n m
      | RebaseFail \<Rightarrow> (PANTHERA_LOADER_E_BAD_RELOC, n, m)
      | RebaseApply m' \<Rightarrow> rebase_list k base slide rb rs (n + 1) m')"

definition span_size :: "PantheraKernelImage \<Rightarrow> nat" where
  "span_size k = unat (highest_vmaddr k - lowest_vmaddr k)"

definition patch_in_span :: "PantheraKernelImage \<Rightarrow> u64 \<Rightarrow> PantheraRelocationInfo \<Rightarrow> bool" where
  "patch_in_span k rb r \<longleftrightarrow> patch_vmaddr_of rb (r_address r) \<le> highest_vmaddr k"

lemma loaded_vmaddr_span:
  assumes "panthera_loaded_vmaddr k base va sz \<noteq> 0" and "va \<le> highest_vmaddr k"
  shows "panthera_loaded_vmaddr k base va sz = base + (va - lowest_vmaddr k)"
    and "unat (va - lowest_vmaddr k) + unat sz \<le> span_size k"
proof -
  from assms(1) have ge: "lowest_vmaddr k \<le> va" and le: "sz \<le> highest_vmaddr k - va"
    by (auto simp: panthera_loaded_vmaddr_def split: if_splits)
  from assms(1) show "panthera_loaded_vmaddr k base va sz = base + (va - lowest_vmaddr k)"
    by (auto simp: panthera_loaded_vmaddr_def split: if_splits)
  have lh: "lowest_vmaddr k \<le> highest_vmaddr k" using ge assms(2) by simp
  have "unat (va - lowest_vmaddr k) = unat va - unat (lowest_vmaddr k)"
    "unat (highest_vmaddr k - va) = unat (highest_vmaddr k) - unat va"
    "unat (highest_vmaddr k - lowest_vmaddr k) = unat (highest_vmaddr k) - unat (lowest_vmaddr k)"
    using ge assms(2) lh by (simp_all add: unat_sub)
  then show "unat (va - lowest_vmaddr k) + unat sz \<le> span_size k"
    using ge le assms(2) by (simp add: span_size_def word_le_nat_alt)
qed

lemma slot_in_image:
  assumes "reloc_slot k base rb r \<noteq> 0" and "patch_in_span k rb r" and "in_range (reloc_slot k base rb r) 8 x"
  shows "in_range base (span_size k) x"
  using loaded_vmaddr_span [of k base "patch_vmaddr_of rb (r_address r)" 8] assms
    in_range_sub [of _ 8 "span_size k" base x]
  by (simp add: reloc_slot_def patch_in_span_def)

lemma wr64_slot_off:
  assumes "reloc_slot k base rb r \<noteq> 0" and "patch_in_span k rb r"
  shows "mem_eq_off base (span_size k) m (wr64 m (reloc_slot k base rb r) v)"
  using wr64_off [of "reloc_slot k base rb r" m v] slot_in_image [OF assms]
  by (auto simp: mem_eq_off_def)

lemma relocs_at_cong:
  assumes "mem_eq_on p (8 * (unat index + n)) m m'" and "unat index + n < 2 ^ 32"
  shows "relocs_at m p n index = relocs_at m' p n index"
  using assms
proof (induction n arbitrary: index)
  case 0
  then show ?case by simp
next
  case (Suc n)
  have "unat (ucast index * 8 :: u64) = unat index * 8" using unat_ucast32_mult [of 8 index] by simp
  then have "ld_relocation_info m (p + ucast index * 8) = ld_relocation_info m' (p + ucast index * 8)"
    using Suc.prems by (intro ld_cong mem_eq_on_sub) auto
  moreover have "unat (index + 1) = unat index + 1" using Suc.prems(2) by (intro unat_Suc32) simp
  ultimately show ?case using Suc.IH [of "index + 1"] Suc.prems by simp
qed

lemma rebase_loop_list:
  assumes "disjoint_ranges base (span_size k) p (8 * (unat index + n))" and "unat index + n < 2 ^ 32"
    and "\<forall>r \<in> set (relocs_at m p n index). reloc_eligible k rb r \<longrightarrow> patch_in_span k rb r"
  shows "rebase_loop k base slide rb p n index c m = rebase_list k base slide rb (relocs_at m p n index) c m"
  using assms
proof (induction n arbitrary: index c m)
  case 0
  then show ?case by simp
next
  case (Suc n)
  define r where "r = ld_relocation_info m (p + ucast index * 8)"
  have idx: "unat (index + 1) = unat index + 1" using Suc.prems(2) by (intro unat_Suc32) simp
  have same: "relocs_at m' p n (index + 1) = relocs_at m p n (index + 1)"
    if "mem_eq_off base (span_size k) m m'" for m'
  proof (rule relocs_at_cong)
    show "mem_eq_on p (8 * (unat (index + 1) + n)) m' m"
      using Suc.prems(1) that idx by (auto simp: mem_eq_on_def mem_eq_off_def disjoint_ranges_def)
    show "unat (index + 1) + n < 2 ^ 32" using idx Suc.prems(2) by simp
  qed
  have IH: "rebase_loop k base slide rb p n (index + 1) c' m' =
      rebase_list k base slide rb (relocs_at m p n (index + 1)) c' m'"
    if "mem_eq_off base (span_size k) m m'" for c' m'
    using Suc.IH [of "index + 1" m' c'] Suc.prems idx same [OF that] by simp
  have apply_off: "mem_eq_off base (span_size k) m (wr64 m (reloc_slot k base rb r) v)"
    if "reloc_eligible k rb r" "reloc_slot k base rb r \<noteq> 0" for v
    using Suc.prems(3) that by (intro wr64_slot_off) (auto simp: r_def)
  show ?case
    using IH [of m] IH [OF apply_off]
    by (simp add: r_def [symmetric] rebase_one_cases)
qed

lemma rebase_list_frame:
  assumes "rebase_list k base slide rb rs c m = (st, n, m')"
    and "\<forall>r \<in> set rs. reloc_eligible k rb r \<longrightarrow> patch_in_span k rb r"
  shows "mem_eq_off base (span_size k) m m'"
  using assms
proof (induction rs arbitrary: c m)
  case Nil
  then show ?case by simp
next
  case (Cons r rs)
  show ?case
  proof (cases "reloc_eligible k rb r \<and> reloc_slot k base rb r \<noteq> 0 \<and>
      points_into (reloc_target k r) (rd64 m (reloc_slot k base rb r))")
    case True
    define m1 where "m1 = wr64 m (reloc_slot k base rb r) (rd64 m (reloc_slot k base rb r) + slide)"
    have "mem_eq_off base (span_size k) m m1"
      unfolding m1_def using True Cons.prems(2) by (intro wr64_slot_off) auto
    moreover have "mem_eq_off base (span_size k) m1 m'"
      using Cons.IH [of "c + 1" m1] Cons.prems True by (simp add: rebase_one_cases m1_def)
    ultimately show ?thesis by (rule mem_eq_off_trans)
  next
    case False
    then show ?thesis
      using Cons.IH [of c m] Cons.prems by (auto simp: rebase_one_cases split: if_splits)
  qed
qed

definition eligible_relocs :: "PantheraKernelImage \<Rightarrow> u64 \<Rightarrow> PantheraRelocationInfo list \<Rightarrow> PantheraRelocationInfo list" where
  "eligible_relocs k rb rs = filter (reloc_eligible k rb) rs"

definition slots_disjoint :: "PantheraKernelImage \<Rightarrow> u64 \<Rightarrow> u64 \<Rightarrow> PantheraRelocationInfo list \<Rightarrow> bool" where
  "slots_disjoint k base rb rs =
     sorted_wrt (\<lambda>r r'. disjoint_ranges (reloc_slot k base rb r) 8 (reloc_slot k base rb r') 8) rs"

lemma rebase_list_slides:
  assumes "rebase_list k base slide rb rs c m = (PANTHERA_LOADER_OK, n, m')"
    and "slots_disjoint k base rb (eligible_relocs k rb rs)"
  shows "n = c + of_nat (length (eligible_relocs k rb rs)) \<and>
    (\<forall>r \<in> set (eligible_relocs k rb rs).
       points_into (reloc_target k r) (rd64 m (reloc_slot k base rb r)) \<and>
       rd64 m' (reloc_slot k base rb r) = rd64 m (reloc_slot k base rb r) + slide) \<and>
    (\<forall>x. (\<forall>r \<in> set (eligible_relocs k rb rs). \<not> in_range (reloc_slot k base rb r) 8 x) \<longrightarrow> m' x = m x)"
  using assms
proof (induction rs arbitrary: c m)
  case Nil
  then show ?case by (simp add: eligible_relocs_def)
next
  case (Cons r rs)
  show ?case
  proof (cases "reloc_eligible k rb r")
    case False
    then show ?thesis using Cons by (simp add: rebase_one_cases eligible_relocs_def)
  next
    case True
    define sl where "sl = reloc_slot k base rb r"
    define m1 where "m1 = wr64 m sl (rd64 m sl + slide)"
    from True Cons.prems(1) have pt: "points_into (reloc_target k r) (rd64 m sl)"
      and rest: "rebase_list k base slide rb rs (c + 1) m1 = (PANTHERA_LOADER_OK, n, m')"
      by (auto simp: rebase_one_cases sl_def m1_def split: if_splits)
    have el: "eligible_relocs k rb (r # rs) = r # eligible_relocs k rb rs"
      using True by (simp add: eligible_relocs_def)
    have disj: "disjoint_ranges sl 8 (reloc_slot k base rb r') 8"
      if "r' \<in> set (eligible_relocs k rb rs)" for r'
      using Cons.prems(2) that by (simp add: el slots_disjoint_def sl_def)
    have keep: "rd64 m1 (reloc_slot k base rb r') = rd64 m (reloc_slot k base rb r')"
      if "r' \<in> set (eligible_relocs k rb rs)" for r'
      unfolding m1_def by (intro rd64_wr64_disjoint disj that)
    have IH: "n = c + 1 + of_nat (length (eligible_relocs k rb rs)) \<and>
      (\<forall>r \<in> set (eligible_relocs k rb rs).
         points_into (reloc_target k r) (rd64 m1 (reloc_slot k base rb r)) \<and>
         rd64 m' (reloc_slot k base rb r) = rd64 m1 (reloc_slot k base rb r) + slide) \<and>
      (\<forall>x. (\<forall>r \<in> set (eligible_relocs k rb rs). \<not> in_range (reloc_slot k base rb r) 8 x) \<longrightarrow> m' x = m1 x)"
      using Cons.prems(2) by (intro Cons.IH [OF rest]) (simp add: el slots_disjoint_def)
    have "mem_eq_on sl 8 m' m1"
      using IH disj by (fastforce simp: mem_eq_on_def disjoint_ranges_def)
    then have "rd64 m' sl = rd64 m sl + slide"
      by (simp add: rd64_cong [of sl m' m1] m1_def mem_simps)
    moreover have "m1 x = m x" if "\<not> in_range sl 8 x" for x
      using wr64_off [of sl m "rd64 m sl + slide"] that by (simp add: m1_def mem_eq_off_def)
    ultimately show ?thesis using IH keep pt by (simp add: el sl_def [symmetric])
  qed
qed

section \<open>The whole pass\<close>

definition kernel_relocs :: "mem \<Rightarrow> u64 \<Rightarrow> PantheraKernelImage \<Rightarrow> PantheraRelocationInfo list" where
  "kernel_relocs m file_image k =
     relocs_at m (file_image + ucast (local_reloc_offset k)) (unat (local_reloc_count k)) 0"

definition relocs_separate :: "mem \<Rightarrow> u64 \<Rightarrow> PantheraKernelImage \<Rightarrow> u64 \<Rightarrow> bool" where
  "relocs_separate m file_image k base \<longleftrightarrow>
     disjoint_ranges base (span_size k) (file_image + ucast (local_reloc_offset k))
       (8 * unat (local_reloc_count k)) \<and>
     (\<forall>r \<in> set (kernel_relocs m file_image k).
        reloc_eligible k (find_reloc_base (active_segments k)) r \<longrightarrow>
        patch_in_span k (find_reloc_base (active_segments k)) r)"

lemma rebase_pass_list:
  assumes "relocs_separate m file_image k base"
  shows "rebase_loop k base slide (find_reloc_base (active_segments k))
      (file_image + ucast (local_reloc_offset k)) (unat (local_reloc_count k)) 0 0 m =
    rebase_list k base slide (find_reloc_base (active_segments k)) (kernel_relocs m file_image k) 0 m"
  using assms unat_lt2p [of "local_reloc_count k"]
  by (simp add: rebase_loop_list relocs_separate_def kernel_relocs_def)

text \<open>
  C18. Write safety of the rebase pass, whatever its status: when the relocation table lies outside the
  loaded image and the eligible entries name addresses not above the end of the span, no byte
  outside the loaded image changes.
\<close>

theorem rebase_frame:
  assumes "panthera_rebase_kernel_locals m file_image fsize (Some k) base count = (status, count', m')"
    and "relocs_separate m file_image k base"
  shows "mem_eq_off base (span_size k) m m'"
proof -
  have ok: "\<forall>r \<in> set (kernel_relocs m file_image k).
      reloc_eligible k (find_reloc_base (active_segments k)) r \<longrightarrow>
      patch_in_span k (find_reloc_base (active_segments k)) r"
    using assms(2) by (simp add: relocs_separate_def)
  show ?thesis
    using assms(1) rebase_list_frame [OF _ ok]
    by (auto simp: panthera_rebase_kernel_locals_def Let_def rebase_pass_list [OF assms(2)]
        split: if_splits prod.splits)
qed


definition kernel_eligible :: "mem \<Rightarrow> u64 \<Rightarrow> PantheraKernelImage \<Rightarrow> PantheraRelocationInfo list" where
  "kernel_eligible m file_image k =
     eligible_relocs k (find_reloc_base (active_segments k)) (kernel_relocs m file_image k)"

definition kernel_slot :: "PantheraKernelImage \<Rightarrow> u64 \<Rightarrow> PantheraRelocationInfo \<Rightarrow> u64" where
  "kernel_slot k base = reloc_slot k base (find_reloc_base (active_segments k))"

definition kernel_slots_disjoint :: "mem \<Rightarrow> u64 \<Rightarrow> PantheraKernelImage \<Rightarrow> u64 \<Rightarrow> bool" where
  "kernel_slots_disjoint m file_image k base \<longleftrightarrow>
     slots_disjoint k base (find_reloc_base (active_segments k)) (kernel_eligible m file_image k)"

text \<open>
  C19. Functional correctness of the rebase pass: when it succeeds with a non-zero slide, every
  eligible entry pointed into the section it names before the pass, its slot has been moved by
  exactly the slide, the count is the number of eligible entries, and every byte outside the
  eligible slots is unchanged. The slots are required to be pairwise disjoint.
\<close>

theorem rebase_slides:
  assumes "panthera_rebase_kernel_locals m file_image fsize (Some k) base (Some c) =
      (PANTHERA_LOADER_OK, Some n, m')"
    and "relocs_separate m file_image k base"
    and "kernel_slots_disjoint m file_image k base" and "kernel_slide k base \<noteq> 0"
  shows "n = of_nat (length (kernel_eligible m file_image k)) \<and>
    (\<forall>r \<in> set (kernel_eligible m file_image k).
       points_into (reloc_target k r) (rd64 m (kernel_slot k base r)) \<and>
       rd64 m' (kernel_slot k base r) = rd64 m (kernel_slot k base r) + kernel_slide k base) \<and>
    (\<forall>x. (\<forall>r \<in> set (kernel_eligible m file_image k). \<not> in_range (kernel_slot k base r) 8 x) \<longrightarrow> m' x = m x)"
proof (cases "local_reloc_count k = 0")
  case True
  then show ?thesis
    using assms(1,4)
    by (auto simp: panthera_rebase_kernel_locals_def Let_def kernel_relocs_def eligible_relocs_def
        kernel_eligible_def split: if_splits)
next
  case False
  then have "rebase_list k base (kernel_slide k base) (find_reloc_base (active_segments k))
      (kernel_relocs m file_image k) 0 m = (PANTHERA_LOADER_OK, n, m')"
    using assms(1,4) rebase_pass_list [OF assms(2)]
    by (auto simp: panthera_rebase_kernel_locals_def Let_def split: if_splits prod.splits)
  from rebase_list_slides [OF this] assms(3) show ?thesis
    by (simp add: kernel_eligible_def kernel_slot_def kernel_slots_disjoint_def)
qed

lemma rebase_list_succeeds:
  assumes "slots_disjoint k base rb (eligible_relocs k rb rs)"
    and "\<forall>r \<in> set (eligible_relocs k rb rs). reloc_slot k base rb r \<noteq> 0 \<and>
           points_into (reloc_target k r) (rd64 m (reloc_slot k base rb r))"
  shows "\<exists>n m'. rebase_list k base slide rb rs c m = (PANTHERA_LOADER_OK, n, m')"
  using assms
proof (induction rs arbitrary: c m)
  case Nil
  then show ?case by simp
next
  case (Cons r rs)
  show ?case
  proof (cases "reloc_eligible k rb r")
    case False
    then show ?thesis using Cons by (simp add: rebase_one_cases eligible_relocs_def)
  next
    case True
    then have el: "eligible_relocs k rb (r # rs) = r # eligible_relocs k rb rs"
      by (simp add: eligible_relocs_def)
    define m1 where "m1 = wr64 m (reloc_slot k base rb r) (rd64 m (reloc_slot k base rb r) + slide)"
    have keep: "rd64 m1 (reloc_slot k base rb r') = rd64 m (reloc_slot k base rb r')"
      if "r' \<in> set (eligible_relocs k rb rs)" for r'
      using Cons.prems(1) that unfolding m1_def
      by (intro rd64_wr64_disjoint) (simp add: el slots_disjoint_def)
    have "\<exists>n m'. rebase_list k base slide rb rs (c + 1) m1 = (PANTHERA_LOADER_OK, n, m')"
      using Cons.prems keep by (intro Cons.IH) (simp_all add: el slots_disjoint_def)
    then show ?thesis
      using True Cons.prems(2) by (simp add: rebase_one_cases el m1_def)
  qed
qed

definition rebase_ready :: "u64 \<Rightarrow> u64 \<Rightarrow> PantheraKernelImage \<Rightarrow> u64 \<Rightarrow> bool" where
  "rebase_ready file_image fsize k base \<longleftrightarrow> file_image \<noteq> 0 \<and> base \<noteq> 0 \<and>
     ucast (local_reloc_offset k) + ucast (local_reloc_count k) * 8 \<le> fsize \<and>
     find_reloc_base (active_segments k) \<noteq> 0"

lemma rebase_pass_succeeds:
  assumes "rebase_ready file_image fsize k base" and "relocs_separate m file_image k base"
    and "kernel_slots_disjoint m file_image k base"
    and "\<forall>r \<in> set (kernel_eligible m file_image k). kernel_slot k base r \<noteq> 0 \<and>
           points_into (reloc_target k r) (rd64 m (kernel_slot k base r))"
  shows "\<exists>n m'. panthera_rebase_kernel_locals m file_image fsize (Some k) base (Some c) =
           (PANTHERA_LOADER_OK, Some n, m')"
proof -
  obtain n m' where "rebase_list k base (kernel_slide k base) (find_reloc_base (active_segments k))
      (kernel_relocs m file_image k) 0 m = (PANTHERA_LOADER_OK, n, m')"
    using rebase_list_succeeds [of k base "find_reloc_base (active_segments k)"
        "kernel_relocs m file_image k" m "kernel_slide k base" 0] assms(3,4)
    by (auto simp: kernel_eligible_def kernel_slot_def kernel_slots_disjoint_def)
  then show ?thesis
    using assms(1) rebase_pass_list [OF assms(2)]
    by (auto simp: panthera_rebase_kernel_locals_def Let_def rebase_ready_def)
qed

text \<open>
  C20. Completeness of the rebase pass: with a relocation table inside the file, a data segment and
  separate slots, the pass succeeds as soon as every eligible slot is in range and points into
  the section its entry names.
\<close>

theorem rebase_succeeds:
  assumes "rebase_ready file_image fsize k base" and "relocs_separate m file_image k base"
    and "kernel_slots_disjoint m file_image k base"
    and "\<forall>r \<in> set (kernel_eligible m file_image k). kernel_slot k base r \<noteq> 0 \<and>
           points_into (reloc_target k r) (rd64 m (kernel_slot k base r))"
  shows "\<exists>n m'. panthera_rebase_kernel_locals m file_image fsize (Some k) base (Some c) =
           (PANTHERA_LOADER_OK, Some n, m')"
  using assms by (rule rebase_pass_succeeds)

section \<open>What the range check lets through\<close>

text \<open>
  C21. The size test of \<open>panthera_loaded_vmaddr\<close>, \<open>size > highest_vmaddr - vmaddr\<close>, is unsigned:
  every address above the end of the image passes it as long as the wrapped difference is large
  enough, and is translated to an address outside the loaded image.
\<close>

theorem loaded_vmaddr_beyond_image:
  assumes "lowest_vmaddr k \<le> highest_vmaddr k" and "highest_vmaddr k < va" and "va - highest_vmaddr k < 2 ^ 63"
  shows "panthera_loaded_vmaddr k base va 8 = base + (va - lowest_vmaddr k) \<and>
    \<not> in_range base (span_size k) (panthera_loaded_vmaddr k base va 8)"
proof -
  have ge: "lowest_vmaddr k \<le> va" using assms(1,2) by simp
  have "\<not> highest_vmaddr k - va < 8"
    using assms(2,3) unat_lt2p [of va]
    by (auto simp: word_less_nat_alt unat_sub_if' split: if_splits)
  then have eq: "panthera_loaded_vmaddr k base va 8 = base + (va - lowest_vmaddr k)"
    using ge by (auto simp: panthera_loaded_vmaddr_def)
  have "unat (highest_vmaddr k - lowest_vmaddr k) \<le> unat (va - lowest_vmaddr k)"
    using assms(1,2) ge by (simp add: unat_sub word_less_nat_alt word_le_nat_alt)
  then show ?thesis by (simp add: eq in_range_def span_size_def)
qed

section \<open>A concrete rebase\<close>

text \<open>One relocation entry at \<open>0x1000\<close> for the pointer at \<open>0x101010\<close>, in an image of \<open>0x2000\<close>
  bytes linked at \<open>0x100000\<close> and loaded at \<open>0x200000\<close>; the pointer holds \<open>0x100104\<close>.\<close>

definition rebase_image :: PantheraKernelImage where
  "rebase_image = zero_image\<lparr>lowest_vmaddr := 0x100000, highest_vmaddr := 0x102000,
     local_reloc_count := 1, segment_count := 1, section_count := 1,
     segments := (segments zero_image)[0 := zero_segment\<lparr>
       segname := [0x5f, 0x5f, 0x44, 0x41, 0x54, 0x41, 0, 0, 0, 0, 0, 0, 0, 0, 0, 0], vmaddr := 0x101000\<rparr>],
     sections := (sections zero_image)[0 := \<lparr>sect_addr = 0x100100, sect_size = 0x10\<rparr>]\<rparr>"

definition rebase_mem :: mem where
  "rebase_mem = (\<lambda>_. 0)(0x1000 := 0x10, 0x1004 := 0x01, 0x1007 := 0x06,
     0x201010 := 0x04, 0x201011 := 0x01, 0x201012 := 0x10)"

lemma rebase_demo_image:
  "find_reloc_base (active_segments rebase_image) = 0x101000" "section_count rebase_image = 1"
  "lowest_vmaddr rebase_image = 0x100000" "highest_vmaddr rebase_image = 0x102000"
  "local_reloc_count rebase_image = 1" "local_reloc_offset rebase_image = 0"
  "sections rebase_image ! 0 = \<lparr>sect_addr = 0x100100, sect_size = 0x10\<rparr>"
  by (simp_all add: rebase_image_def active_segments_def zero_image_def zero_segment_def segname_is_data_def
      take_Suc_conv_app_nth)

lemma rebase_demo_relocs:
  "kernel_relocs rebase_mem 0x1000 rebase_image = [\<lparr>r_address = 0x10, r_info = 0x06000001\<rparr>]"
  "rd64 rebase_mem 0x201010 = 0x100104"
  by (simp_all add: kernel_relocs_def rebase_demo_image ld_relocation_info_def eval_mem rebase_mem_def)

lemma rebase_demo_eligible:
  "kernel_eligible rebase_mem 0x1000 rebase_image = [\<lparr>r_address = 0x10, r_info = 0x06000001\<rparr>]"
  "kernel_slot rebase_image 0x200000 \<lparr>r_address = 0x10, r_info = 0x06000001\<rparr> = 0x201010"
  by (simp_all add: kernel_eligible_def eligible_relocs_def reloc_eligible_def rebase_demo_image
      rebase_demo_relocs patch_vmaddr_of_def kernel_slot_def reloc_slot_def panthera_loaded_vmaddr_def)


lemma rebase_demo_hyps:
  "rebase_ready 0x1000 8 rebase_image 0x200000" "relocs_separate rebase_mem 0x1000 rebase_image 0x200000"
  "kernel_slots_disjoint rebase_mem 0x1000 rebase_image 0x200000"
  "kernel_slide rebase_image 0x200000 = 0x100000"
proof -
  show "rebase_ready 0x1000 8 rebase_image 0x200000"
    by (simp add: rebase_ready_def rebase_demo_image)
  have "disjoint_ranges (0x200000 :: u64) 0x2000 0x1000 8"
    by (rule disjoint_rangesI) simp_all
  then show "relocs_separate rebase_mem 0x1000 rebase_image 0x200000"
    by (simp add: relocs_separate_def span_size_def rebase_demo_image rebase_demo_relocs
        patch_in_span_def patch_vmaddr_of_def)
  show "kernel_slots_disjoint rebase_mem 0x1000 rebase_image 0x200000"
    by (simp add: kernel_slots_disjoint_def slots_disjoint_def rebase_demo_eligible)
  show "kernel_slide rebase_image 0x200000 = 0x100000" by (simp add: kernel_slide_def rebase_demo_image)
qed

lemma rebase_demo_target:
  "\<forall>r \<in> set (kernel_eligible rebase_mem 0x1000 rebase_image). kernel_slot rebase_image 0x200000 r \<noteq> 0 \<and>
     points_into (reloc_target rebase_image r) (rd64 rebase_mem (kernel_slot rebase_image 0x200000 r))"
  by (simp add: rebase_demo_eligible rebase_demo_relocs points_into_def reloc_target_def rebase_demo_image)

lemma rebase_demo_run:
  "\<exists>n m'. panthera_rebase_kernel_locals rebase_mem 0x1000 8 (Some rebase_image) 0x200000 (Some 7) =
     (PANTHERA_LOADER_OK, Some n, m')"
  by (rule rebase_pass_succeeds [OF rebase_demo_hyps(1-3) rebase_demo_target])

theorem rebase_succeeds_witness:
  "\<exists>n m'. panthera_rebase_kernel_locals rebase_mem 0x1000 8 (Some rebase_image) 0x200000 (Some 7) =
     (PANTHERA_LOADER_OK, Some n, m')"
  using rebase_succeeds [OF rebase_demo_hyps(1-3) rebase_demo_target] by blast

theorem rebase_slides_witness:
  "\<exists>m'. panthera_rebase_kernel_locals rebase_mem 0x1000 8 (Some rebase_image) 0x200000 (Some 7) =
     (PANTHERA_LOADER_OK, Some 1, m') \<and> rd64 m' 0x201010 = 0x200104"
proof -
  obtain n m' where run: "panthera_rebase_kernel_locals rebase_mem 0x1000 8 (Some rebase_image) 0x200000
      (Some 7) = (PANTHERA_LOADER_OK, Some n, m')" using rebase_demo_run by blast
  from rebase_slides [OF run rebase_demo_hyps(2,3)] have "n = 1 \<and> rd64 m' 0x201010 = 0x200104"
    by (simp add: rebase_demo_hyps rebase_demo_eligible rebase_demo_relocs)
  with run show ?thesis by blast
qed

theorem rebase_frame_witness:
  "\<exists>n m'. panthera_rebase_kernel_locals rebase_mem 0x1000 8 (Some rebase_image) 0x200000 (Some 7) =
     (PANTHERA_LOADER_OK, Some n, m') \<and> mem_eq_off 0x200000 0x2000 rebase_mem m'"
proof -
  obtain n m' where run: "panthera_rebase_kernel_locals rebase_mem 0x1000 8 (Some rebase_image) 0x200000
      (Some 7) = (PANTHERA_LOADER_OK, Some n, m')" using rebase_demo_run by blast
  from rebase_frame [OF run rebase_demo_hyps(2)] have "mem_eq_off 0x200000 0x2000 rebase_mem m'"
    by (simp add: span_size_def rebase_demo_image)
  with run show ?thesis by blast
qed

theorem loaded_vmaddr_beyond_image_witness:
  "panthera_loaded_vmaddr rebase_image 0x200000 0x102008 8 = 0x202008 \<and>
   \<not> in_range 0x200000 (span_size rebase_image) 0x202008"
  using loaded_vmaddr_beyond_image [of rebase_image "0x102008" "0x200000"]
  by (auto simp: rebase_demo_image)

end
