(* ===== verification/Macho_Slide.thy ===== *)
theory Macho_Slide
  imports Macho_Rebase
begin

text \<open>
  Sliding of the loaded image's own Mach-O metadata, \<open>panthera_slide_kernel_macho_metadata\<close> of
  \<open>boot/efi/loader/src/panthera_loader.c\<close>: the segment and section addresses of the load commands,
  the pointers of the \<open>__got\<close> and \<open>__mod_init_func\<close> sections of \<open>__DATA_CONST\<close>, the entry point of
  the thread command and the values of the section-based symbols. The C code reads every loop bound
  (\<open>ncmds\<close>, \<open>nsects\<close>, \<open>nsyms\<close>) again from the memory it is changing, and so do the loops here; they
  end because their 32-bit index grows up to the bound read. Theorems: the pointer pass and the
  symbol pass are maps over their tables and change nothing else, and the whole pass turns the
  command list found in the loaded image into the slid command list.
\<close>

section \<open>The passes\<close>

definition segname_is_text :: "u8 list \<Rightarrow> bool" where
  "segname_is_text s \<longleftrightarrow> s ! 0 = 0x5f \<and> s ! 1 = 0x5f \<and> s ! 2 = 0x54 \<and> s ! 3 = 0x45 \<and>
     s ! 4 = 0x58 \<and> s ! 5 = 0x54 \<and> s ! 6 = 0"

fun find_text_segment :: "PantheraKernelSegment list \<Rightarrow> PantheraKernelSegment option" where
  "find_text_segment [] = None"
| "find_text_segment (segment # rest) =
     (if segname_is_text (segname segment) then Some segment else find_text_segment rest)"

fun slide_pointers :: "PantheraKernelImage \<Rightarrow> u64 \<Rightarrow> u64 \<Rightarrow> nat \<Rightarrow> u64 \<Rightarrow> mem \<Rightarrow> mem" where
  "slide_pointers kernel_image slide pointer_slot 0 slot_index m = m"
| "slide_pointers kernel_image slide pointer_slot (Suc left) slot_index m =
     (let candidate_value = rd64 m (pointer_slot + slot_index * 8) in
      slide_pointers kernel_image slide pointer_slot left (slot_index + 1)
        (if lowest_vmaddr kernel_image \<le> candidate_value \<and> candidate_value < highest_vmaddr kernel_image
         then wr64 m (pointer_slot + slot_index * 8) (candidate_value + slide) else m))"

definition is_pointer_section :: "mem \<Rightarrow> u64 \<Rightarrow> u64 \<Rightarrow> bool" where
  "is_pointer_section m segment sect \<longleftrightarrow>
     panthera_name_equals (rd_bytes m (segment + 8) 16) (bytes_of_string ''__DATA_CONST'') \<and>
     (panthera_name_equals (rd_bytes m sect 16) (bytes_of_string ''__got'') \<or>
      panthera_name_equals (rd_bytes m sect 16) (bytes_of_string ''__mod_init_func''))"

definition slide_section ::
  "PantheraKernelImage \<Rightarrow> u64 \<Rightarrow> u64 \<Rightarrow> u64 \<Rightarrow> u64 \<Rightarrow> mem \<Rightarrow> PantheraLoaderStatus \<times> mem" where
  "slide_section kernel_image loaded_base slide segment sect m =
     (let original_section_addr = s64_addr (ld_section m sect);
          m1 = (if original_section_addr \<noteq> 0 then wr64 m (sect + 32) (original_section_addr + slide)
                else m)
      in if is_pointer_section m1 segment sect then
           let pointer_slot = panthera_loaded_vmaddr kernel_image loaded_base original_section_addr
                 (s64_size (ld_section m1 sect))
           in if pointer_slot = 0 then (PANTHERA_LOADER_E_BAD_RELOC, m1)
              else (PANTHERA_LOADER_OK,
                    slide_pointers kernel_image slide pointer_slot
                      (unat (s64_size (ld_section m1 sect) div 8)) 0 m1)
         else (PANTHERA_LOADER_OK, m1))"

function slide_sections ::
  "PantheraKernelImage \<Rightarrow> u64 \<Rightarrow> u64 \<Rightarrow> u64 \<Rightarrow> u32 \<Rightarrow> mem \<Rightarrow> PantheraLoaderStatus \<times> mem" where
  "slide_sections kernel_image loaded_base slide segment section_index m =
     (if section_index < sc_nsects (ld_segment_command m segment) then
        case slide_section kernel_image loaded_base slide segment
               (segment + sizeof_segment_command + ucast section_index * sizeof_section) m of
          (status, m1) \<Rightarrow>
            if status \<noteq> PANTHERA_LOADER_OK then (status, m1)
            else slide_sections kernel_image loaded_base slide segment (section_index + 1) m1
      else (PANTHERA_LOADER_OK, m))"
  by pat_completeness auto
termination
  by (relation "measure (\<lambda>(k, base, slide, segment, i, m). 2 ^ 32 - unat (i :: u32))")
    (auto intro: loop_decr32)

declare slide_sections.simps [simp del]

text \<open>One load command; the last component is the symbol table command seen, if any.\<close>

definition slide_command ::
  "PantheraKernelImage \<Rightarrow> u64 \<Rightarrow> u64 \<Rightarrow> u64 \<Rightarrow> mem \<Rightarrow> u64 option
     \<Rightarrow> PantheraLoaderStatus \<times> mem \<times> u64 option" where
  "slide_command kernel_image loaded_base slide load_command m symtab_command =
     (let lc = ld_load_command m load_command in
      if ucast (lc_cmdsize lc) < sizeof_load_command then (PANTHERA_LOADER_E_TRUNCATED, m, symtab_command)
      else if lc_cmd lc = LC_SEGMENT_64 then
        if ucast (lc_cmdsize lc) < sizeof_segment_command +
             ucast (sc_nsects (ld_segment_command m load_command)) * sizeof_section
        then (PANTHERA_LOADER_E_TRUNCATED, m, symtab_command)
        else
          let m1 = wr64 m (load_command + 24) (sc_vmaddr (ld_segment_command m load_command) + slide);
              (status, m2) = slide_sections kernel_image loaded_base slide load_command 0 m1
          in (status, m2, symtab_command)
      else if lc_cmd lc = LC_UNIXTHREAD then
        if ucast (lc_cmdsize lc) < sizeof_load_command + sizeof_thread_state_header + sizeof_thread_state
        then (PANTHERA_LOADER_E_TRUNCATED, m, symtab_command)
        else
          let thread_state = load_command + sizeof_load_command + sizeof_thread_state_header in
          (PANTHERA_LOADER_OK,
           wr64 m (thread_state + offsetof_rip) (ld_thread_rip m thread_state + slide), symtab_command)
      else if lc_cmd lc = LC_SYMTAB then (PANTHERA_LOADER_OK, m, Some load_command)
      else (PANTHERA_LOADER_OK, m, symtab_command))"

function slide_commands ::
  "PantheraKernelImage \<Rightarrow> u64 \<Rightarrow> u64 \<Rightarrow> u64 \<Rightarrow> u32 \<Rightarrow> u64 \<Rightarrow> mem \<Rightarrow> u64 option
     \<Rightarrow> PantheraLoaderStatus \<times> mem \<times> u64 option" where
  "slide_commands kernel_image loaded_base slide header command_index load_command m symtab_command =
     (if command_index < mh_ncmds (ld_mach_header m header) then
        case slide_command kernel_image loaded_base slide load_command m symtab_command of
          (status, m1, symtab1) \<Rightarrow>
            if status \<noteq> PANTHERA_LOADER_OK then (status, m1, symtab1)
            else slide_commands kernel_image loaded_base slide header (command_index + 1)
                   (load_command + ucast (lc_cmdsize (ld_load_command m1 load_command))) m1 symtab1
      else (PANTHERA_LOADER_OK, m, symtab_command))"
  by pat_completeness auto
termination
  by (relation "measure (\<lambda>(k, base, slide, header, i, lc, m, s). 2 ^ 32 - unat (i :: u32))")
    (auto intro: loop_decr32)

declare slide_commands.simps [simp del]

definition symbol_slides :: "PantheraKernelImage \<Rightarrow> PantheraNList64 \<Rightarrow> bool" where
  "symbol_slides kernel_image symbol \<longleftrightarrow>
     panthera_symbol_is_section_based (n_type symbol) \<and>
     \<not> (n_sect symbol = 0 \<or> n_value symbol = 0) \<and>
     \<not> (n_value symbol < lowest_vmaddr kernel_image \<or> n_value symbol \<ge> highest_vmaddr kernel_image)"

function slide_symbols :: "PantheraKernelImage \<Rightarrow> u64 \<Rightarrow> u64 \<Rightarrow> u64 \<Rightarrow> u32 \<Rightarrow> mem \<Rightarrow> mem" where
  "slide_symbols kernel_image slide symtab_command symbols symbol_index m =
     (if symbol_index < st_nsyms (ld_symtab_command m symtab_command) then
        let symbol = symbols + ucast symbol_index * sizeof_nlist;
            sym = ld_nlist m symbol
        in slide_symbols kernel_image slide symtab_command symbols (symbol_index + 1)
             (if symbol_slides kernel_image sym then wr64 m (symbol + 8) (n_value sym + slide) else m)
      else m)"
  by pat_completeness auto
termination
  by (relation "measure (\<lambda>(k, slide, st, symbols, i, m). 2 ^ 32 - unat (i :: u32))")
    (auto intro: loop_decr32)

declare slide_symbols.simps [simp del]

definition slide_symtab ::
  "PantheraKernelImage \<Rightarrow> u64 \<Rightarrow> u64 \<Rightarrow> u64 option \<Rightarrow> mem \<Rightarrow> PantheraLoaderStatus \<times> mem" where
  "slide_symtab kernel_image loaded_base slide symtab_command m =
     (case symtab_command of
        None \<Rightarrow> (PANTHERA_LOADER_OK, m)
      | Some st \<Rightarrow>
        if st_nsyms (ld_symtab_command m st) = 0 then (PANTHERA_LOADER_OK, m)
        else
          let symbol_bytes = ucast (st_nsyms (ld_symtab_command m st)) * sizeof_nlist;
              symbols = panthera_loaded_file_offset kernel_image loaded_base
                          (ucast (st_symoff (ld_symtab_command m st))) symbol_bytes
          in if symbols = 0 then (PANTHERA_LOADER_E_BAD_RELOC, m)
             else (PANTHERA_LOADER_OK, slide_symbols kernel_image slide st symbols 0 m))"

definition panthera_slide_kernel_macho_metadata ::
  "mem \<Rightarrow> PantheraKernelImage option \<Rightarrow> u64 \<Rightarrow> PantheraLoaderStatus \<times> mem" where
  "panthera_slide_kernel_macho_metadata m kernel_image loaded_base =
     (case kernel_image of
        None \<Rightarrow> (PANTHERA_LOADER_E_NULL, m)
      | Some k \<Rightarrow>
        if loaded_base = 0 then (PANTHERA_LOADER_E_NULL, m)
        else
          let slide = kernel_slide k loaded_base in
          if slide = 0 then (PANTHERA_LOADER_OK, m)
          else
            case find_text_segment (active_segments k) of
              None \<Rightarrow> (PANTHERA_LOADER_E_BAD_RELOC, m)
            | Some text_segment \<Rightarrow>
              let header = panthera_loaded_vmaddr k loaded_base (vmaddr text_segment) sizeof_mach_header in
              if header = 0 then (PANTHERA_LOADER_E_BAD_RELOC, m)
              else if mh_magic (ld_mach_header m header) \<noteq> MH_MAGIC_64 then (PANTHERA_LOADER_E_BAD_MAGIC, m)
              else if panthera_loaded_vmaddr k loaded_base (vmaddr text_segment)
                        (sizeof_mach_header + ucast (mh_sizeofcmds (ld_mach_header m header))) = 0
              then (PANTHERA_LOADER_E_TRUNCATED, m)
              else
                case slide_commands k loaded_base slide header 0 (header + sizeof_mach_header) m None of
                  (status, m1, symtab) \<Rightarrow>
                    if status \<noteq> PANTHERA_LOADER_OK then (status, m1)
                    else slide_symtab k loaded_base slide symtab m1)"

section \<open>The pointer pass\<close>

definition slide_ptr :: "PantheraKernelImage \<Rightarrow> u64 \<Rightarrow> u64 \<Rightarrow> u64" where
  "slide_ptr k slide v = (if lowest_vmaddr k \<le> v \<and> v < highest_vmaddr k then v + slide else v)"

primrec slide_run :: "PantheraKernelImage \<Rightarrow> u64 \<Rightarrow> nat \<Rightarrow> u64 \<Rightarrow> mem \<Rightarrow> mem" where
  "slide_run k slide 0 p m = m"
| "slide_run k slide (Suc n) p m = slide_run k slide n (p + 8)
     (if slide_ptr k slide (rd64 m p) = rd64 m p then m else wr64 m p (slide_ptr k slide (rd64 m p)))"

lemma wr64_rd64 [simp]: "wr64 m a (rd64 m a) = m"
proof
  fix x
  show "wr64 m a (rd64 m a) x = m x"
    by (auto simp: wr64_def rd64_def codec_simps wr_bytes_apply nth_rd_bytes in_range_def)
qed

lemma slide_pointers_run:
  "slide_pointers k slide p n i m = slide_run k slide n (p + i * 8) m"
  by (induction n arbitrary: i m) (simp_all add: slide_ptr_def Let_def algebra_simps)

lemma slide_run_spec:
  assumes "8 * n \<le> 2 ^ 64"
  shows "mem_eq_off p (8 * n) m (slide_run k slide n p m) \<and>
    (\<forall>j < n. rd64 (slide_run k slide n p m) (p + of_nat (8 * j)) =
              slide_ptr k slide (rd64 m (p + of_nat (8 * j))))"
  using assms
proof (induction n arbitrary: p m)
  case 0
  then show ?case by simp
next
  case (Suc n)
  define m1 where "m1 = (if slide_ptr k slide (rd64 m p) = rd64 m p then m
     else wr64 m p (slide_ptr k slide (rd64 m p)))"
  define m' where "m' = slide_run k slide n (p + 8) m1"
  have off1: "mem_eq_off p 8 m m1" by (simp add: m1_def wr64_off)
  have IH: "mem_eq_off (p + 8) (8 * n) m1 m'"
    "rd64 m' (p + 8 + of_nat (8 * j)) = slide_ptr k slide (rd64 m1 (p + 8 + of_nat (8 * j)))" if "j < n" for j
    using Suc.IH [of "p + 8" m1] Suc.prems that by (simp_all add: m'_def)
  have IH0: "mem_eq_off (p + 8) (8 * n) m1 m'" using Suc.IH [of "p + 8" m1] Suc.prems by (simp add: m'_def)
  have "disjoint_ranges (p + 8) (8 * n) (p + 0) 8" using Suc.prems by (intro disjoint_offsets) auto
  then have first: "rd64 m' p = slide_ptr k slide (rd64 m p)"
    using rd64_off [OF IH0, of p] by (simp add: m1_def mem_simps)
  have rest: "rd64 m' (p + of_nat (8 * Suc j)) = slide_ptr k slide (rd64 m (p + of_nat (8 * Suc j)))"
    if j: "j < n" for j
  proof -
    have o: "unat (of_nat (8 * Suc j) :: u64) = 8 * Suc j"
      using j Suc.prems by (intro unat_of_nat_small) simp
    have "disjoint_ranges (p + 0) 8 (p + of_nat (8 * Suc j)) 8"
      using j Suc.prems by (intro disjoint_offsets) (simp_all only: o, simp_all)
    then have "rd64 m1 (p + of_nat (8 * Suc j)) = rd64 m (p + of_nat (8 * Suc j))"
      using rd64_off [OF off1] by simp
    then show ?thesis using IH(2) [OF j] by (simp add: algebra_simps)
  qed
  have "mem_eq_off p (8 * Suc n) m m1"
    using mem_eq_off_sub [of p 0 8 m m1 "8 * Suc n"] off1 by simp
  moreover have "mem_eq_off p (8 * Suc n) m1 m'"
    using mem_eq_off_sub [OF IH0] by simp
  ultimately have "mem_eq_off p (8 * Suc n) m m'" by (rule mem_eq_off_trans)
  moreover have "rd64 m' (p + of_nat (8 * j)) = slide_ptr k slide (rd64 m (p + of_nat (8 * j)))"
    if "j < Suc n" for j
    using that first rest by (cases j) auto
  ultimately show ?case by (simp add: m'_def m1_def)
qed

lemma slide_pointers_spec:
  assumes "n \<le> 2 ^ 61"
  shows "mem_eq_off p (8 * n) m (slide_pointers k slide p n 0 m)"
    and "j < n \<Longrightarrow> rd64 (slide_pointers k slide p n 0 m) (p + of_nat (8 * j)) =
           slide_ptr k slide (rd64 m (p + of_nat (8 * j)))"
  using slide_run_spec [of n p m k slide] assms by (simp_all add: slide_pointers_run)

section \<open>The symbol pass\<close>

definition slide_symbol :: "PantheraKernelImage \<Rightarrow> u64 \<Rightarrow> PantheraNList64 \<Rightarrow> PantheraNList64" where
  "slide_symbol k slide s = (if symbol_slides k s then s\<lparr>n_value := n_value s + slide\<rparr> else s)"

primrec slide_sym_run :: "PantheraKernelImage \<Rightarrow> u64 \<Rightarrow> nat \<Rightarrow> u64 \<Rightarrow> mem \<Rightarrow> mem" where
  "slide_sym_run k slide 0 p m = m"
| "slide_sym_run k slide (Suc n) p m = slide_sym_run k slide n (p + 16)
     (wr64 m (p + 8) (n_value (slide_symbol k slide (ld_nlist m p))))"

lemma slide_sym_step:
  "wr64 m (p + 8) (n_value (slide_symbol k slide (ld_nlist m p))) =
     (if symbol_slides k (ld_nlist m p) then wr64 m (p + 8) (n_value (ld_nlist m p) + slide) else m)"
  by (simp add: slide_symbol_def ld_nlist_def)

lemma ld_nlist_wr64: "ld_nlist (wr64 m (p + 8) v) p = (ld_nlist m p)\<lparr>n_value := v\<rparr>"
proof -
  have "disjoint_ranges (p + 8) 8 (p + 0) 8" by (rule disjoint_offsets) auto
  then have "mem_eq_on p 8 (wr64 m (p + 8) v) m" using mem_eq_off_on [OF wr64_off] by simp
  then show ?thesis
    by (simp add: ld_nlist_def mem_simps reads_at [of p 8 "wr64 m (p + 8) v" m])
qed

lemma slide_sym_run_spec:
  assumes "16 * n \<le> 2 ^ 64"
  shows "mem_eq_off p (16 * n) m (slide_sym_run k slide n p m) \<and>
    (\<forall>j < n. ld_nlist (slide_sym_run k slide n p m) (p + of_nat (16 * j)) =
              slide_symbol k slide (ld_nlist m (p + of_nat (16 * j))))"
  using assms
proof (induction n arbitrary: p m)
  case 0
  then show ?case by simp
next
  case (Suc n)
  define m1 where "m1 = wr64 m (p + 8) (n_value (slide_symbol k slide (ld_nlist m p)))"
  define m' where "m' = slide_sym_run k slide n (p + 16) m1"
  have off1: "mem_eq_off p 16 m m1"
    unfolding m1_def by (rule mem_eq_off_sub [OF wr64_off]) simp
  have IH: "mem_eq_off (p + 16) (16 * n) m1 m'"
    and IHj: "j < n \<Longrightarrow> ld_nlist m' (p + 16 + of_nat (16 * j)) =
      slide_symbol k slide (ld_nlist m1 (p + 16 + of_nat (16 * j)))" for j
    using Suc.IH [of "p + 16" m1] Suc.prems by (simp_all add: m'_def)
  have "disjoint_ranges (p + 16) (16 * n) (p + 0) 16" using Suc.prems by (intro disjoint_offsets) auto
  then have "ld_nlist m' p = ld_nlist m1 p" using mem_eq_off_on [OF IH] by (intro ld_cong) simp
  then have first: "ld_nlist m' p = slide_symbol k slide (ld_nlist m p)"
    by (simp add: m1_def ld_nlist_wr64) (simp add: slide_symbol_def)
  have rest: "ld_nlist m' (p + of_nat (16 * Suc j)) = slide_symbol k slide (ld_nlist m (p + of_nat (16 * Suc j)))"
    if j: "j < n" for j
  proof -
    have o: "unat (of_nat (16 * Suc j) :: u64) = 16 * Suc j"
      using j Suc.prems by (intro unat_of_nat_small) simp
    have "disjoint_ranges (p + 0) 16 (p + of_nat (16 * Suc j)) 16"
      using j Suc.prems by (intro disjoint_offsets) (simp_all only: o, simp_all)
    then have "ld_nlist m1 (p + of_nat (16 * Suc j)) = ld_nlist m (p + of_nat (16 * Suc j))"
      using mem_eq_off_on [OF off1] by (intro ld_cong) simp
    then show ?thesis using IHj [OF j] by (simp add: algebra_simps)
  qed
  have "mem_eq_off p (16 * Suc n) m m1"
    using mem_eq_off_sub [of p 0 16 m m1 "16 * Suc n"] off1 by simp
  moreover have "mem_eq_off p (16 * Suc n) m1 m'"
    using mem_eq_off_sub [OF IH] by simp
  ultimately have "mem_eq_off p (16 * Suc n) m m'" by (rule mem_eq_off_trans)
  moreover have "ld_nlist m' (p + of_nat (16 * j)) = slide_symbol k slide (ld_nlist m (p + of_nat (16 * j)))"
    if "j < Suc n" for j
    using that first rest by (cases j) auto
  ultimately show ?case by (simp add: m'_def m1_def)
qed

lemma slide_symbols_run:
  assumes "disjoint_ranges sy (16 * unat nsyms) st 24" and "st_nsyms (ld_symtab_command m st) = nsyms"
    and "unat i + n = unat nsyms"
  shows "slide_symbols k slide st sy i m = slide_sym_run k slide n (sy + ucast i * 16) m"
  using assms
proof (induction n arbitrary: i m)
  case 0
  then have "\<not> i < nsyms" by (simp add: word_less_nat_alt)
  then show ?case using 0 by (simp add: slide_symbols.simps)
next
  case (Suc n)
  have lt: "i < nsyms" using Suc.prems(3) by (simp add: word_less_nat_alt)
  define p where "p = sy + ucast i * 16"
  define m1 where "m1 = wr64 m (p + 8) (n_value (slide_symbol k slide (ld_nlist m p)))"
  have ui: "unat (ucast i * 16 :: u64) = unat i * 16" using unat_ucast32_mult [of 16 i] by simp
  have i1: "unat (i + 1) = unat i + 1" using lt by (rule word_less_Suc32)
  have "unat (ucast i * 16 + 8 :: u64) + 8 \<le> 16 * unat nsyms"
    using unat_add_le [of "ucast i * 16 :: u64" 8] Suc.prems(3) ui by simp
  then have "disjoint_ranges (p + 8) 8 st 24"
    using disjoint_ranges_sub [OF Suc.prems(1), of "ucast i * 16 + 8" 8] by (simp add: p_def add.assoc)
  then have "mem_eq_on st 24 m1 m" unfolding m1_def by (rule mem_eq_off_on [OF wr64_off])
  then have "st_nsyms (ld_symtab_command m1 st) = nsyms"
    using Suc.prems(2) by (simp add: ld_symtab_command_cong)
  moreover have "sy + ucast (i + 1) * 16 = p + 16"
    using ucast_Suc32 [OF lt] by (simp add: p_def algebra_simps)
  ultimately have "slide_symbols k slide st sy (i + 1) m1 = slide_sym_run k slide n (p + 16) m1"
    using Suc.IH [of m1 "i + 1"] Suc.prems i1 by simp
  then show ?case
    using lt Suc.prems(2)
    by (subst slide_symbols.simps) (simp add: Let_def p_def [symmetric] slide_sym_step m1_def)
qed

lemma slide_symbols_spec:
  assumes "disjoint_ranges sy (16 * unat nsyms) st 24" and "st_nsyms (ld_symtab_command m st) = nsyms"
  shows "mem_eq_off sy (16 * unat nsyms) m (slide_symbols k slide st sy 0 m)"
    and "j < unat nsyms \<Longrightarrow> ld_nlist (slide_symbols k slide st sy 0 m) (sy + of_nat (16 * j)) =
           slide_symbol k slide (ld_nlist m (sy + of_nat (16 * j)))"
proof -
  have "16 * unat nsyms \<le> 2 ^ 64" using unat_lt2p [of nsyms] by simp
  then show "mem_eq_off sy (16 * unat nsyms) m (slide_symbols k slide st sy 0 m)"
    and "j < unat nsyms \<Longrightarrow> ld_nlist (slide_symbols k slide st sy 0 m) (sy + of_nat (16 * j)) =
           slide_symbol k slide (ld_nlist m (sy + of_nat (16 * j)))"
    using slide_sym_run_spec [of "unat nsyms" sy m k slide]
      slide_symbols_run [OF assms, of 0 "unat nsyms" k slide] by simp_all
qed

section \<open>The segment pass\<close>

text \<open>The command area is the range of \<open>an\<close> bytes from \<open>hdr\<close>. A pointer section is harmless to the
  command area when its slots are found and lie outside it.\<close>

definition sect_at :: "u64 \<Rightarrow> nat \<Rightarrow> u64" where
  "sect_at p j = p + of_nat (72 + 80 * j)"

definition slide_addr :: "u64 \<Rightarrow> u64 \<Rightarrow> u64" where
  "slide_addr slide a = (if a = 0 then 0 else a + slide)"

definition pointers_clear ::
  "mem \<Rightarrow> PantheraKernelImage \<Rightarrow> u64 \<Rightarrow> u64 \<Rightarrow> nat \<Rightarrow> u64 \<Rightarrow> nat \<Rightarrow> bool" where
  "pointers_clear m k base hdr an p j \<longleftrightarrow>
     (is_pointer_section m p (sect_at p j) \<longrightarrow>
      (let sz = rd64 m (sect_at p j + 40);
           slot = panthera_loaded_vmaddr k base (rd64 m (sect_at p j + 32)) sz
       in slot \<noteq> 0 \<and> disjoint_ranges slot (unat sz) hdr an))"

lemma sect_offset: "unat (of_nat (72 + 80 * j) + off :: u64) = 72 + 80 * j + unat off"
  if "72 + 80 * j + unat off < 2 ^ 64"
  using that by (simp only: unat_word_ariths unat_of_nat) simp

lemma is_pointer_section_cong:
  assumes "mem_eq_on (p + 8) 16 m m'" and "mem_eq_on s 16 m m'"
  shows "is_pointer_section m p s = is_pointer_section m' p s"
  using rd_bytes_cong [OF assms(1)] rd_bytes_cong [OF assms(2)] by (simp add: is_pointer_section_def)

lemma slide_section_addr:
  fixes m p slide j
  assumes "72 + 80 * j + 80 \<le> 2 ^ 32"
  defines "m1 \<equiv> (if rd64 m (sect_at p j + 32) = 0 then m
     else wr64 m (sect_at p j + 32) (rd64 m (sect_at p j + 32) + slide))"
  shows "mem_eq_off (sect_at p j + 32) 8 m m1"
    and "rd64 m1 (sect_at p j + 32) = slide_addr slide (rd64 m (sect_at p j + 32))"
    and "rd64 m1 (sect_at p j + 40) = rd64 m (sect_at p j + 40)"
    and "is_pointer_section m1 p (sect_at p j) = is_pointer_section m p (sect_at p j)"
proof -
  show off: "mem_eq_off (sect_at p j + 32) 8 m m1" by (simp add: m1_def wr64_off)
  show "rd64 m1 (sect_at p j + 32) = slide_addr slide (rd64 m (sect_at p j + 32))"
    by (simp add: m1_def slide_addr_def mem_simps)
  have at: "sect_at p j + off = p + (of_nat (72 + 80 * j) + off)" for off
    by (simp add: sect_at_def)
  have u: "unat (of_nat (72 + 80 * j) + off :: u64) = 72 + 80 * j + unat off" if "unat off \<le> 2 ^ 32" for off
    using that assms(1) by (intro sect_offset) simp
  have "disjoint_ranges (sect_at p j + 32) 8 (sect_at p j + 40) 8"
    unfolding at by (rule disjoint_offsets) (use assms(1) in \<open>simp_all add: u del: of_nat_add of_nat_mult\<close>)
  then show "rd64 m1 (sect_at p j + 40) = rd64 m (sect_at p j + 40)" by (rule rd64_off [OF off])
  have "disjoint_ranges (sect_at p j + 32) 8 (p + 8) 16"
    unfolding at by (rule disjoint_offsets) (use assms(1) in \<open>simp_all add: u del: of_nat_add of_nat_mult\<close>)
  moreover have "disjoint_ranges (sect_at p j + 32) 8 (sect_at p j + 0) 16"
    unfolding at by (rule disjoint_offsets) (use assms(1) u [of 32] u [of 0] in simp_all)
  ultimately show "is_pointer_section m1 p (sect_at p j) = is_pointer_section m p (sect_at p j)"
    using mem_eq_off_on [OF off] by (intro is_pointer_section_cong) auto
qed

lemma slide_section_spec:
  assumes "72 + 80 * j + 80 \<le> 2 ^ 32" and "pointers_clear m k base hdr an p j"
    and "\<forall>x. in_range (sect_at p j) 80 x \<longrightarrow> in_range hdr an x"
  obtains m2 where "slide_section k base slide p (sect_at p j) m = (PANTHERA_LOADER_OK, m2)"
    and "\<forall>x. in_range hdr an x \<and> \<not> in_range (sect_at p j + 32) 8 x \<longrightarrow> m2 x = m x"
    and "rd64 m2 (sect_at p j + 32) = slide_addr slide (rd64 m (sect_at p j + 32))"
proof -
  define m1 where "m1 = (if rd64 m (sect_at p j + 32) = 0 then m
     else wr64 m (sect_at p j + 32) (rd64 m (sect_at p j + 32) + slide))"
  note m1 = slide_section_addr [OF assms(1), where m = m and p = p and slide = slide, folded m1_def]
  have m1': "(if rd64 m (sect_at p j + 32) \<noteq> 0 then wr64 m (sect_at p j + 32)
      (rd64 m (sect_at p j + 32) + slide) else m) = m1" by (simp add: m1_def)
  have keep: "\<forall>x. in_range hdr an x \<and> \<not> in_range (sect_at p j + 32) 8 x \<longrightarrow> m1 x = m x"
    using m1(1) by (auto simp: mem_eq_off_def)
  show thesis
  proof (cases "is_pointer_section m p (sect_at p j)")
    case False
    then have "slide_section k base slide p (sect_at p j) m = (PANTHERA_LOADER_OK, m1)"
      by (simp add: slide_section_def ld_section_def Let_def m1' m1(4))
    then show ?thesis using keep m1(2) by (rule that)
  next
    case True
    define sz where "sz = rd64 m (sect_at p j + 40)"
    define slot where "slot = panthera_loaded_vmaddr k base (rd64 m (sect_at p j + 32)) sz"
    from assms(2) True have slot: "slot \<noteq> 0" "disjoint_ranges slot (unat sz) hdr an"
      by (simp_all add: pointers_clear_def Let_def slot_def sz_def)
    define m2 where "m2 = slide_pointers k slide slot (unat (sz div 8)) 0 m1"
    have n: "unat (sz div 8) \<le> 2 ^ 61" "8 * unat (sz div 8) \<le> unat sz"
      using unat_lt2p [of sz] by (simp_all add: unat_div)
    have "mem_eq_off slot (8 * unat (sz div 8)) m1 m2"
      unfolding m2_def by (rule slide_pointers_spec(1) [OF n(1)])
    then have "mem_eq_off slot (unat sz) m1 m2"
      using mem_eq_off_sub [of slot 0 "8 * unat (sz div 8)" m1 m2 "unat sz"] n(2) by simp
    then have eq: "mem_eq_on hdr an m2 m1" using slot(2) by (rule mem_eq_off_on)
    have "slide_section k base slide p (sect_at p j) m = (PANTHERA_LOADER_OK, m2)"
      using True slot(1)
      by (simp add: slide_section_def ld_section_def Let_def m1' m1(3,4) sz_def [symmetric] slot_def [symmetric] m2_def)
    moreover have "rd64 m2 (sect_at p j + 32) = rd64 m1 (sect_at p j + 32)"
      using eq assms(3) in_range_sub [of 32 8 80 "sect_at p j"]
      by (intro rd64_cong) (auto simp: mem_eq_on_def)
    moreover have "\<forall>x. in_range hdr an x \<and> \<not> in_range (sect_at p j + 32) 8 x \<longrightarrow> m2 x = m x"
      using eq keep by (simp add: mem_eq_on_def)
    ultimately show ?thesis using m1(2) that by simp
  qed
qed

lemma pointers_clear_cong:
  assumes "mem_eq_on p 72 m m'" and "mem_eq_on (sect_at p j) 80 m m'"
  shows "pointers_clear m k base hdr an p j = pointers_clear m' k base hdr an p j"
proof -
  have "is_pointer_section m p (sect_at p j) = is_pointer_section m' p (sect_at p j)"
    using assms by (intro is_pointer_section_cong mem_eq_on_sub [of p 72])
      (auto intro: mem_eq_on_mono)
  moreover have "rd64 m (sect_at p j + 32) = rd64 m' (sect_at p j + 32)"
    "rd64 m (sect_at p j + 40) = rd64 m' (sect_at p j + 40)"
    using assms(2) by (simp_all add: reads_at [of _ 80 m m'])
  ultimately show ?thesis by (simp add: pointers_clear_def)
qed

lemma sect_in_cmd:
  assumes "j < n" and "72 + 80 * n \<le> 2 ^ 32" and "in_range (sect_at p j) 80 x"
  shows "in_range p (72 + 80 * n) x"
proof (rule in_range_sub)
  show "in_range (p + of_nat (72 + 80 * j)) 80 x" using assms(3) by (simp add: sect_at_def)
  have "unat (of_nat (72 + 80 * j) :: u64) = 72 + 80 * j" using assms by (intro unat_of_nat_small) simp
  then show "unat (of_nat (72 + 80 * j) :: u64) + 80 \<le> 72 + 80 * n" using assms(1) by linarith
qed

lemma sect_field_disjoint:
  assumes "i < n" and "j < n" and "i \<noteq> j" and "72 + 80 * n \<le> 2 ^ 32"
  shows "disjoint_ranges (sect_at p i + 32) 8 (sect_at p j) 80"
proof -
  have ui: "unat (of_nat (72 + 80 * i) + 32 :: u64) = 72 + 80 * i + 32"
    using sect_offset [of i 32] assms by simp
  have uj: "unat (of_nat (72 + 80 * j) :: u64) = 72 + 80 * j" using assms by (intro unat_of_nat_small) simp
  have "disjoint_ranges (p + (of_nat (72 + 80 * i) + 32)) 8 (p + of_nat (72 + 80 * j)) 80"
    by (rule disjoint_offsets; unfold ui uj) (use assms in auto)
  then show ?thesis by (simp only: sect_at_def add.assoc)
qed

lemma sect_field_disjoint_cmd:
  assumes "i < n" and "72 + 80 * n \<le> 2 ^ 32"
  shows "disjoint_ranges (sect_at p i + 32) 8 p 72"
proof -
  have ui: "unat (of_nat (72 + 80 * i) + 32 :: u64) = 72 + 80 * i + 32"
    using sect_offset [of i 32] assms by simp
  have "disjoint_ranges (p + (of_nat (72 + 80 * i) + 32)) 8 (p + 0) 72"
    by (rule disjoint_offsets) (use ui assms in auto)
  then show ?thesis by (simp only: sect_at_def add.assoc add_0_right)
qed

lemma slide_sections_spec:
  assumes "\<forall>x. in_range p (72 + 80 * N) x \<longrightarrow> in_range hdr an x" and "72 + 80 * N \<le> 2 ^ 32"
    and "unat (sc_nsects (ld_segment_command m p)) = N" and "unat i + n = N"
    and "\<forall>j. unat i \<le> j \<and> j < N \<longrightarrow> pointers_clear m k base hdr an p j"
  shows "\<exists>m'. slide_sections k base slide p i m = (PANTHERA_LOADER_OK, m') \<and>
    (\<forall>x. in_range hdr an x \<and> (\<forall>j. unat i \<le> j \<and> j < N \<longrightarrow> \<not> in_range (sect_at p j + 32) 8 x) \<longrightarrow> m' x = m x) \<and>
    (\<forall>j. unat i \<le> j \<and> j < N \<longrightarrow> rd64 m' (sect_at p j + 32) = slide_addr slide (rd64 m (sect_at p j + 32)))"
  using assms
proof (induction n arbitrary: i m)
  case 0
  then have "\<not> i < sc_nsects (ld_segment_command m p)" by (simp add: word_less_nat_alt)
  then show ?case using 0 by (subst slide_sections.simps) auto
next
  case (Suc n)
  have lt: "i < sc_nsects (ld_segment_command m p)" using Suc.prems(3,4) by (simp add: word_less_nat_alt)
  have i1: "unat (i + 1) = unat i + 1" using lt by (rule word_less_Suc32)
  have iN: "unat i < N" using Suc.prems(4) by simp
  have at: "p + 72 + ucast i * 80 = sect_at p (unat i)" by (simp add: sect_at_def add.assoc)
  obtain m2 where m2: "slide_section k base slide p (sect_at p (unat i)) m = (PANTHERA_LOADER_OK, m2)"
    "\<forall>x. in_range hdr an x \<and> \<not> in_range (sect_at p (unat i) + 32) 8 x \<longrightarrow> m2 x = m x"
    "rd64 m2 (sect_at p (unat i) + 32) = slide_addr slide (rd64 m (sect_at p (unat i) + 32))"
    by (rule slide_section_spec [of "unat i" m k base hdr an p slide])
      (use Suc.prems iN sect_in_cmd [of "unat i" N p] in auto)
  have cmd: "mem_eq_on p 72 m2 m"
    using m2(2) Suc.prems(1) sect_field_disjoint_cmd [OF iN Suc.prems(2), of p]
      in_range_sub [of 0 72 "72 + 80 * N" p]
    by (auto simp: mem_eq_on_def disjoint_ranges_def)
  have sect: "mem_eq_on (sect_at p j) 80 m2 m" if "unat i < j" "j < N" for j
    using m2(2) Suc.prems(1) sect_field_disjoint [OF iN that(2) _ Suc.prems(2), of p] that
      sect_in_cmd [OF that(2) Suc.prems(2), of p]
    by (auto simp: mem_eq_on_def disjoint_ranges_def)
  have "unat (sc_nsects (ld_segment_command m2 p)) = N"
    using Suc.prems(3) cmd by (simp add: ld_segment_command_cong)
  moreover have "\<forall>j. unat (i + 1) \<le> j \<and> j < N \<longrightarrow> pointers_clear m2 k base hdr an p j"
    using Suc.prems(5) pointers_clear_cong [OF cmd sect] i1 by auto
  moreover have "unat (i + 1) + n = N" using Suc.prems(4) i1 by simp
  ultimately obtain m' where m': "slide_sections k base slide p (i + 1) m2 = (PANTHERA_LOADER_OK, m')"
    "\<forall>x. in_range hdr an x \<and> (\<forall>j. unat i + 1 \<le> j \<and> j < N \<longrightarrow> \<not> in_range (sect_at p j + 32) 8 x) \<longrightarrow> m' x = m2 x"
    "\<forall>j. unat i + 1 \<le> j \<and> j < N \<longrightarrow> rd64 m' (sect_at p j + 32) = slide_addr slide (rd64 m2 (sect_at p j + 32))"
    using Suc.IH [of m2 "i + 1"] Suc.prems(1,2) i1 by auto
  have "slide_sections k base slide p i m = (PANTHERA_LOADER_OK, m')"
    using lt m2(1) m'(1) by (subst slide_sections.simps) (simp only: at, simp)
  moreover have "m' x = m x" if "in_range hdr an x"
    "\<forall>j. unat i \<le> j \<and> j < N \<longrightarrow> \<not> in_range (sect_at p j + 32) 8 x" for x
    using that m2(2) m'(2) iN by simp
  moreover have "rd64 m' (sect_at p j + 32) = slide_addr slide (rd64 m (sect_at p j + 32))"
    if j: "unat i \<le> j" "j < N" for j
  proof (cases "j = unat i")
    case True
    have "mem_eq_on (sect_at p (unat i)) 80 m' m2"
      using m'(2) Suc.prems(1) sect_field_disjoint [OF _ iN _ Suc.prems(2), of _ p]
        sect_in_cmd [OF iN Suc.prems(2), of p]
      by (fastforce simp: mem_eq_on_def disjoint_ranges_def)
    then show ?thesis using m2(3) True by (simp add: reads_at [of _ 80 m' m2])
  next
    case False
    then show ?thesis using m'(3) sect [of j] j by (simp add: reads_at [of _ 80 m2 m])
  qed
  ultimately show ?case by blast
qed

section \<open>The command pass\<close>

definition slide_kernel_section :: "u64 \<Rightarrow> PantheraKernelSection \<Rightarrow> PantheraKernelSection" where
  "slide_kernel_section slide s = s\<lparr>sect_addr := slide_addr slide (sect_addr s)\<rparr>"

fun slide_cmd :: "u64 \<Rightarrow> load_cmd \<Rightarrow> load_cmd" where
  "slide_cmd slide (SegmentCmd s secs) =
     SegmentCmd (s\<lparr>sc_vmaddr := sc_vmaddr s + slide\<rparr>) (map (slide_kernel_section slide) secs)"
| "slide_cmd slide (UnixthreadCmd rip) = UnixthreadCmd (rip + slide)"
| "slide_cmd slide c = c"

fun cmd_clear :: "mem \<Rightarrow> PantheraKernelImage \<Rightarrow> u64 \<Rightarrow> u64 \<Rightarrow> nat \<Rightarrow> u64 \<Rightarrow> load_cmd \<Rightarrow> bool" where
  "cmd_clear m k base hdr an p (SegmentCmd s secs) \<longleftrightarrow>
     (\<forall>j < length secs. pointers_clear m k base hdr an p j)"
| "cmd_clear m k base hdr an p c \<longleftrightarrow> True"

definition symtab_seen :: "u64 \<Rightarrow> load_cmd \<Rightarrow> u64 option \<Rightarrow> u64 option" where
  "symtab_seen p c st = (case c of OtherCmd cmd bs \<Rightarrow> if cmd = LC_SYMTAB then Some p else st | _ \<Rightarrow> st)"

lemma ld_segment_wr_vmaddr:
  "ld_segment_command (wr64 m (p + 24) v) p = (ld_segment_command m p)\<lparr>sc_vmaddr := v\<rparr>"
  by (simp add: ld_segment_command_def wr64_struct apart_def mem_simps)

lemma sections_at_sect:
  "sections_at m (p + 72) secs \<longleftrightarrow> (\<forall>j < length secs.
     sect_addr (secs ! j) = rd64 m (sect_at p j + 32) \<and> sect_size (secs ! j) = rd64 m (sect_at p j + 40))"
  by (simp add: sections_at_def sect_at_def algebra_simps)

definition frame_cmd :: "u64 \<Rightarrow> nat \<Rightarrow> u64 \<Rightarrow> nat \<Rightarrow> mem \<Rightarrow> mem \<Rightarrow> bool" where
  "frame_cmd hdr an p n m m' \<longleftrightarrow> (\<forall>x. in_range hdr an x \<and> \<not> in_range p n x \<longrightarrow> m' x = m x)"

lemma frame_wr64: "unat off + 8 \<le> n \<Longrightarrow> frame_cmd hdr an p n m (wr64 m (p + off) v)"
  using wr64_off [of "p + off" m v] in_range_sub [of off 8 n p]
  unfolding frame_cmd_def mem_eq_off_def by metis

lemma frame_cmd_mono: "frame_cmd hdr an p n m m' \<Longrightarrow> n \<le> k \<Longrightarrow> frame_cmd hdr an p k m m'"
  using in_range_mono unfolding frame_cmd_def by blast

lemma slide_sections_all:
  assumes area: "\<forall>x. in_range p (72 + 80 * N) x \<longrightarrow> in_range hdr an x" and N: "72 + 80 * N \<le> 2 ^ 32"
    and "unat (sc_nsects (ld_segment_command m p)) = N"
    and "\<forall>j < N. pointers_clear m k base hdr an p j"
  obtains m' where "slide_sections k base slide p 0 m = (PANTHERA_LOADER_OK, m')"
    and "mem_eq_on p 72 m' m"
    and "\<forall>j < N. rd64 m' (sect_at p j + 32) = slide_addr slide (rd64 m (sect_at p j + 32))"
    and "\<forall>j < N. rd64 m' (sect_at p j + 40) = rd64 m (sect_at p j + 40)"
    and "frame_cmd hdr an p (72 + 80 * N) m m'"
proof -
  obtain m' where m': "slide_sections k base slide p 0 m = (PANTHERA_LOADER_OK, m')"
    "\<forall>x. in_range hdr an x \<and> (\<forall>j < N. \<not> in_range (sect_at p j + 32) 8 x) \<longrightarrow> m' x = m x"
    "\<forall>j < N. rd64 m' (sect_at p j + 32) = slide_addr slide (rd64 m (sect_at p j + 32))"
    using slide_sections_spec [OF area N assms(3), of 0 N k base slide] assms(4) by auto
  have "mem_eq_on p 72 m' m"
    using m'(2) area sect_field_disjoint_cmd [OF _ N, of _ p] in_range_sub [of 0 72 "72 + 80 * N" p]
    by (simp add: mem_eq_on_def disjoint_ranges_def) blast
  moreover have "rd64 m' (sect_at p j + 40) = rd64 m (sect_at p j + 40)" if j: "j < N" for j
  proof -
    have "disjoint_ranges (sect_at p i + 32) 8 (sect_at p j + 40) 8" if i: "i < N" for i
    proof (cases "i = j")
      case True
      show ?thesis unfolding True by (rule disjoint_offsets) auto
    next
      case False
      then show ?thesis
        using disjoint_ranges_sub [OF disjoint_ranges_sym [OF sect_field_disjoint [OF i j False N]], of 40 8]
        by (simp add: disjoint_ranges_sym)
    qed
    moreover have "in_range hdr an x" if "in_range (sect_at p j + 40) 8 x" for x
      using area sect_in_cmd [OF j N] in_range_sub [OF _ that, of 80] by simp
    ultimately show ?thesis
      using m'(2) by (intro rd64_cong) (simp add: mem_eq_on_def disjoint_ranges_def, blast)
  qed
  moreover have "frame_cmd hdr an p (72 + 80 * N) m m'"
    using m'(2) sect_in_cmd [OF _ N, of _ p] in_range_sub [of 32 8 80 "sect_at p _"]
    by (simp add: frame_cmd_def) blast
  ultimately show thesis using m'(1,3) that by blast
qed

lemma slide_segment_spec:
  assumes "rd32 m (p + 4) = sz" and "cmd_at m p sz (SegmentCmd s secs)"
    and area: "\<forall>x. in_range p (unat sz) x \<longrightarrow> in_range hdr an x"
    and "cmd_clear m k base hdr an p (SegmentCmd s secs)"
  shows "\<exists>m'. slide_command k base slide p m st = (PANTHERA_LOADER_OK, m', st) \<and>
    rd32 m' (p + 4) = sz \<and> cmd_at m' p sz (slide_cmd slide (SegmentCmd s secs)) \<and> frame_cmd hdr an p (unat sz) m m'"
proof -
  let ?N = "length secs"
  from assms(2) have cmd: "rd32 m p = LC_SEGMENT_64" "ld_segment_command m p = s"
    "unat (sc_nsects s) = ?N" "72 + 80 * ?N \<le> unat sz" "sections_at m (p + 72) secs" by simp_all
  have N: "72 + 80 * ?N \<le> 2 ^ 32" using cmd(4) unat_lt2p [of sz] by simp
  define m1 where "m1 = wr64 m (p + 24) (sc_vmaddr s + slide)"
  have seg1: "ld_segment_command m1 p = s\<lparr>sc_vmaddr := sc_vmaddr s + slide\<rparr>"
    by (simp add: m1_def ld_segment_wr_vmaddr cmd(2))
  have sect1: "mem_eq_on (sect_at p j) 80 m1 m" if "j < ?N" for j
  proof -
    have "unat (of_nat (72 + 80 * j) :: u64) = 72 + 80 * j" using that N by (intro unat_of_nat_small) simp
    then have "apart 24 8 (of_nat (72 + 80 * j)) 80" using that N by (auto simp: apart_def)
    then show ?thesis unfolding sect_at_def m1_def by (rule wr64_apart)
  qed
  have clear1: "pointers_clear m1 k base hdr an p j" if j: "j < ?N" for j
  proof -
    have "is_pointer_section m1 p (sect_at p j) = is_pointer_section m p (sect_at p j)"
      using wr64_apart [of 24 8 16 p m] mem_eq_on_mono [OF sect1 [OF j]]
      by (intro is_pointer_section_cong) (simp_all add: m1_def apart_def)
    then show ?thesis
      using assms(4) j sect1 [OF j] by (simp add: pointers_clear_def reads_at [of _ 80 m1 m])
  qed
  have area72: "\<forall>x. in_range p (72 + 80 * ?N) x \<longrightarrow> in_range hdr an x"
    using area cmd(4) by (auto simp: in_range_def)
  obtain m' where m': "slide_sections k base slide p 0 m1 = (PANTHERA_LOADER_OK, m')"
    "mem_eq_on p 72 m' m1"
    "\<forall>j < ?N. rd64 m' (sect_at p j + 32) = slide_addr slide (rd64 m1 (sect_at p j + 32))"
    "\<forall>j < ?N. rd64 m' (sect_at p j + 40) = rd64 m1 (sect_at p j + 40)"
    "frame_cmd hdr an p (72 + 80 * ?N) m1 m'"
    using slide_sections_all [OF area72 N, of m1 k base slide] clear1 seg1 cmd(3) by auto
  have "slide_command k base slide p m st = (PANTHERA_LOADER_OK, m', st)"
    using assms(1) cmd m'(1) m1_def
    by (simp add: slide_command_def ld_load_command_def Let_def word_less_nat_alt unat_word_ariths)
  moreover have "rd32 m' (p + 4) = sz" "rd32 m' p = LC_SEGMENT_64"
    using assms(1) cmd(1) reads_at [OF m'(2)] by (simp_all add: m1_def wr64_struct apart_def)
  moreover have "ld_segment_command m' p = s\<lparr>sc_vmaddr := sc_vmaddr s + slide\<rparr>"
    using seg1 ld_segment_command_cong [OF m'(2)] by simp
  moreover have "sections_at m' (p + 72) (map (slide_kernel_section slide) secs)"
    using cmd(5) m'(3,4) sect1
    by (auto simp: sections_at_sect slide_kernel_section_def reads_at [of _ 80 m1 m])
  moreover have "frame_cmd hdr an p (unat sz) m m'"
    using frame_cmd_mono [OF m'(5) cmd(4)] frame_wr64 [of 24 "unat sz" hdr an p m] cmd(4)
    by (simp add: frame_cmd_def m1_def)
  ultimately show ?thesis using cmd(3,4) by auto
qed


lemma slide_command_spec:
  assumes "rd32 m (p + 4) = sz" and "8 \<le> unat sz" and "cmd_at m p sz c"
    and area: "\<forall>x. in_range p (unat sz) x \<longrightarrow> in_range hdr an x"
    and "cmd_clear m k base hdr an p c"
  shows "\<exists>m'. slide_command k base slide p m st = (PANTHERA_LOADER_OK, m', symtab_seen p c st) \<and>
    rd32 m' (p + 4) = sz \<and> cmd_at m' p sz (slide_cmd slide c) \<and> frame_cmd hdr an p (unat sz) m m'"
proof (cases c)
  case (SegmentCmd s secs)
  then have st: "symtab_seen p c st = st" by (simp add: symtab_seen_def)
  show ?thesis
    using slide_segment_spec [OF assms(1) assms(3) [unfolded SegmentCmd] area assms(5) [unfolded SegmentCmd]] st
    by (simp only: SegmentCmd)
next
  case (DysymtabCmd off n)
  then show ?thesis
    using assms
    by (auto simp: slide_command_def ld_load_command_def Let_def word_less_nat_alt symtab_seen_def frame_cmd_def)
next
  case (UnixthreadCmd rip)
  define m1 where "m1 = wr64 m (p + 144) (rip + slide)"
  have "slide_command k base slide p m st = (PANTHERA_LOADER_OK, m1, st)"
    using assms(1,2,3) UnixthreadCmd
    by (simp add: slide_command_def ld_load_command_def Let_def word_less_nat_alt m1_def
        ld_thread_rip_def add.commute [of 144 p])
  moreover have "rd32 m1 (p + 4) = sz" "rd32 m1 p = LC_UNIXTHREAD" "rd64 m1 (p + 144) = rip + slide"
    using assms(1,3) UnixthreadCmd by (simp_all add: m1_def wr64_struct apart_def mem_simps)
  moreover have "frame_cmd hdr an p (unat sz) m m1"
    unfolding m1_def using assms(3) UnixthreadCmd by (intro frame_wr64) simp
  ultimately show ?thesis using assms(3) UnixthreadCmd by (simp add: symtab_seen_def)
next
  case (OtherCmd c' bs)
  then show ?thesis
    using assms
    by (auto simp: slide_command_def ld_load_command_def Let_def word_less_nat_alt symtab_seen_def frame_cmd_def)
qed

definition cmds_size :: "(u32 \<times> load_cmd) list \<Rightarrow> nat" where
  "cmds_size cs = (\<Sum>(sz, c) \<leftarrow> cs. unat sz)"

fun cmds_clear ::
  "mem \<Rightarrow> PantheraKernelImage \<Rightarrow> u64 \<Rightarrow> u64 \<Rightarrow> nat \<Rightarrow> u64 \<Rightarrow> (u32 \<times> load_cmd) list \<Rightarrow> bool" where
  "cmds_clear m k base hdr an p [] \<longleftrightarrow> True"
| "cmds_clear m k base hdr an p ((sz, c) # cs) \<longleftrightarrow>
     cmd_clear m k base hdr an p c \<and> cmds_clear m k base hdr an (p + ucast sz) cs"

fun last_symtab :: "u64 \<Rightarrow> (u32 \<times> load_cmd) list \<Rightarrow> u64 option \<Rightarrow> u64 option" where
  "last_symtab p [] st = st"
| "last_symtab p ((sz, c) # cs) st = last_symtab (p + ucast sz) cs (symtab_seen p c st)"

definition slide_cmds :: "u64 \<Rightarrow> (u32 \<times> load_cmd) list \<Rightarrow> (u32 \<times> load_cmd) list" where
  "slide_cmds slide cs = map (\<lambda>(sz, c). (sz, slide_cmd slide c)) cs"

lemma cmds_simps [simp]:
  "cmds_size [] = 0" "cmds_size ((sz, c) # cs) = unat sz + cmds_size cs"
  "slide_cmds slide [] = []" "slide_cmds slide ((sz, c) # cs) = (sz, slide_cmd slide c) # slide_cmds slide cs"
  by (simp_all add: cmds_size_def slide_cmds_def)

lemma sect_mem_eq:
  assumes "mem_eq_on p (unat (sz :: u32)) m m'" and "72 + 80 * n \<le> unat sz" and "j < n"
  shows "mem_eq_on (sect_at p j) 80 m m'"
  unfolding mem_eq_on_def
proof (intro allI impI)
  fix x assume "in_range (sect_at p j) 80 x"
  then have "in_range p (72 + 80 * n) x"
    using assms(2,3) unat_lt2p [of sz] by (intro sect_in_cmd) simp_all
  then have "in_range p (unat sz) x" using assms(2) by (rule in_range_mono)
  then show "m x = m' x" using assms(1) by (simp add: mem_eq_on_def)
qed

lemma cmd_at_cong:
  assumes "mem_eq_on p (unat sz) m m'" and "8 \<le> unat sz" and "cmd_at m p sz c"
  shows "cmd_at m' p sz c"
proof (cases c)
  case (SegmentCmd s secs)
  have "sections_at m' (p + 72) secs"
    unfolding sections_at_sect
  proof (intro allI impI)
    fix j assume j: "j < length secs"
    have N: "72 + 80 * length secs \<le> unat sz" using assms(3) SegmentCmd by auto
    have "mem_eq_on (sect_at p j) 80 m m'" by (rule sect_mem_eq [OF assms(1) N j])
    then show "sect_addr (secs ! j) = rd64 m' (sect_at p j + 32) \<and>
        sect_size (secs ! j) = rd64 m' (sect_at p j + 40)"
      using assms(3) SegmentCmd j by (simp add: sections_at_sect reads_at [of _ 80 m m'])
  qed
  then show ?thesis
    using assms SegmentCmd ld_segment_command_cong [of p m m'] mem_eq_on_mono [OF assms(1), of 72]
    by (simp add: reads_at [OF assms(1)])
next
  case (OtherCmd c' bs)
  have "rd_bytes m (p + 8) (unat sz - 8) = rd_bytes m' (p + 8) (unat sz - 8)"
    using assms(2) unat_lt2p [of sz] by (intro rd_bytes_at [OF assms(1)]) simp_all
  then show ?thesis using assms OtherCmd by (simp add: reads_at [OF assms(1)])
qed (use assms in \<open>auto simp: reads_at [OF assms(1)]\<close>)

lemma cmd_clear_cong:
  assumes "mem_eq_on p (unat sz) m m'" and "cmd_at m p sz c" and "cmd_clear m k base hdr an p c"
  shows "cmd_clear m' k base hdr an p c"
proof (cases c)
  case (SegmentCmd s secs)
  have N: "72 + 80 * length secs \<le> unat sz" using assms(2) SegmentCmd by auto
  have "mem_eq_on (sect_at p j) 80 m m'" if "j < length secs" for j
    by (rule sect_mem_eq [OF assms(1) N that])
  moreover have "mem_eq_on p 72 m m'" using mem_eq_on_mono [OF assms(1)] N by simp
  ultimately show ?thesis
    using assms(3) SegmentCmd pointers_clear_cong [of p m m'] by simp
qed simp_all


lemma unat_lt_cmds: "cmds_size cs \<le> n \<Longrightarrow> (sz, c) \<in> set cs \<Longrightarrow> unat sz \<le> n"
  by (induction cs) auto

lemma cmds_cong:
  assumes "mem_eq_on p (cmds_size cs) m m'" and "cmds_at m p cs" and "cmds_size cs < 2 ^ 64"
  shows "cmds_at m' p cs \<and> (cmds_clear m k base hdr an p cs \<longrightarrow> cmds_clear m' k base hdr an p cs)"
  using assms
proof (induction cs arbitrary: p)
  case Nil
  then show ?case by simp
next
  case (Cons x cs)
  obtain sz c where x: "x = (sz, c)" by fastforce
  have here: "mem_eq_on p (unat sz) m m'" using mem_eq_on_mono [OF Cons.prems(1)] x by simp
  have "mem_eq_on (p + ucast sz) (cmds_size cs) m m'"
    by (rule mem_eq_on_sub [OF Cons.prems(1)]) (simp add: x)
  then have "cmds_at m' (p + ucast sz) cs \<and>
      (cmds_clear m k base hdr an (p + ucast sz) cs \<longrightarrow> cmds_clear m' k base hdr an (p + ucast sz) cs)"
    using Cons.IH [of "p + ucast sz"] Cons.prems x by simp
  moreover have "cmd_at m' p sz c" "rd32 m' (p + 4) = rd32 m (p + 4)"
    using cmd_at_cong [OF here] rd32_at [OF here, of 4] Cons.prems(2) x by simp_all
  ultimately show ?case using Cons.prems(2) x cmd_clear_cong [OF here] by auto
qed

lemma frame_cmd_keep:
  assumes "frame_cmd hdr an (hdr + off) n m m'" and "apart off n off' k" and "unat off' + k \<le> an"
  shows "mem_eq_on (hdr + off') k m m'"
  unfolding mem_eq_on_def
proof (intro allI impI)
  fix x assume x: "in_range (hdr + off') k x"
  have "disjoint_ranges (hdr + off) n (hdr + off') k"
    using assms(2) by (intro disjoint_offsets) (auto simp: apart_def)
  then have "\<not> in_range (hdr + off) n x" using x by (auto simp: disjoint_ranges_def)
  moreover have "in_range hdr an x" using assms(3) x by (rule in_range_sub)
  ultimately show "m x = m' x" using assms(1) by (simp add: frame_cmd_def)
qed

lemma frame_cmd_trans:
  assumes "frame_cmd hdr an p n m m1" and "frame_cmd hdr an (p + d) k m1 m'" and "unat d = n"
  shows "frame_cmd hdr an p (n + k) m m'"
  using assms in_range_mono [of p n _ "n + k"] in_range_sub [of d k "n + k" p]
  unfolding frame_cmd_def by (metis le_add1 order_refl)

lemma slide_commands_spec:
  assumes "cmds_at m (hdr + off) cs" and "32 \<le> unat off" and "unat off + cmds_size cs \<le> an" and "an < 2 ^ 64"
    and "unat i + length cs = unat (mh_ncmds (ld_mach_header m hdr))"
    and "cmds_clear m k base hdr an (hdr + off) cs"
  shows "\<exists>m'. slide_commands k base slide hdr i (hdr + off) m st =
      (PANTHERA_LOADER_OK, m', last_symtab (hdr + off) cs st) \<and>
    cmds_at m' (hdr + off) (slide_cmds slide cs) \<and> frame_cmd hdr an (hdr + off) (cmds_size cs) m m'"
  using assms
proof (induction cs arbitrary: off i m st)
  case Nil
  then have "\<not> i < mh_ncmds (ld_mach_header m hdr)" by (simp add: word_less_nat_alt)
  then show ?case by (subst slide_commands.simps) (simp add: frame_cmd_def)
next
  case (Cons x cs)
  obtain sz c where x: "x = (sz, c)" by fastforce
  define off' where "off' = off + ucast sz"
  have uo: "unat off' = unat off + unat sz"
    using Cons.prems(3,4) x by (simp add: off'_def unat_word_ariths)
  have lt: "i < mh_ncmds (ld_mach_header m hdr)" using Cons.prems(5) by (simp add: word_less_nat_alt)
  have area: "\<forall>y. in_range (hdr + off) (unat sz) y \<longrightarrow> in_range hdr an y"
    using in_range_sub [of off "unat sz" an hdr] Cons.prems(3) x by simp
  obtain m1 where m1: "slide_command k base slide (hdr + off) m st =
      (PANTHERA_LOADER_OK, m1, symtab_seen (hdr + off) c st)" "rd32 m1 (hdr + off + 4) = sz"
    "cmd_at m1 (hdr + off) sz (slide_cmd slide c)" "frame_cmd hdr an (hdr + off) (unat sz) m m1"
    using slide_command_spec [of m "hdr + off" sz c hdr an k base slide st] Cons.prems(1,6) area x by auto
  have hd1: "ld_mach_header m1 hdr = ld_mach_header m hdr"
    using frame_cmd_keep [OF m1(4), of 0 32] Cons.prems(2,3,4) x ld_mach_header_cong [of hdr m m1]
    by (simp add: apart_def)
  have rest: "mem_eq_on (hdr + off') (cmds_size cs) m m1"
    using uo Cons.prems(3,4) x by (intro frame_cmd_keep [OF m1(4)]) (simp_all add: apart_def)
  have cs1: "cmds_at m1 (hdr + off') cs" "cmds_clear m1 k base hdr an (hdr + off') cs"
    using cmds_cong [OF rest, of k base hdr an] Cons.prems x by (auto simp: off'_def add.assoc)
  have i1: "unat (i + 1) = unat i + 1" using lt by (rule word_less_Suc32)
  obtain m' where m': "slide_commands k base slide hdr (i + 1) (hdr + off') m1 (symtab_seen (hdr + off) c st) =
      (PANTHERA_LOADER_OK, m', last_symtab (hdr + off') cs (symtab_seen (hdr + off) c st))"
    "cmds_at m' (hdr + off') (slide_cmds slide cs)" "frame_cmd hdr an (hdr + off') (cmds_size cs) m1 m'"
    using Cons.IH [OF cs1(1) _ _ Cons.prems(4) _ cs1(2), of "i + 1"] Cons.prems(2,3,5) uo i1 hd1 x by auto
  have "lc_cmdsize (ld_load_command m1 (hdr + off)) = sz" using m1(2) by (simp add: ld_load_command_def)
  then have run: "slide_commands k base slide hdr i (hdr + off) m st =
      (PANTHERA_LOADER_OK, m', last_symtab (hdr + off') cs (symtab_seen (hdr + off) c st))"
    using lt m1(1) m'(1) by (subst slide_commands.simps) (simp add: off'_def add.assoc)
  have "mem_eq_on (hdr + off) (unat sz) m1 m'"
    using uo Cons.prems(3,4) x by (intro frame_cmd_keep [OF m'(3)]) (simp_all add: apart_def)
  then have "cmd_at m' (hdr + off) sz (slide_cmd slide c)" "rd32 m' (hdr + off + 4) = sz"
    using cmd_at_cong m1(2,3) rd32_at [of "hdr + off" "unat sz" m1 m' 4] Cons.prems(1) x by auto
  then have "cmds_at m' (hdr + off) (slide_cmds slide (x # cs))"
    using m'(2) Cons.prems(1) x by (simp add: off'_def add.assoc)
  moreover have "frame_cmd hdr an (hdr + off) (cmds_size (x # cs)) m m'"
    using frame_cmd_trans [OF m1(4), of "ucast sz" "cmds_size cs" m'] m'(3) x
    by (simp add: off'_def add.assoc)
  ultimately show ?case using run x by (simp add: off'_def add.assoc)
qed

section \<open>The whole pass\<close>

fun is_symtab :: "load_cmd \<Rightarrow> bool" where
  "is_symtab (OtherCmd cmd bs) \<longleftrightarrow> cmd = LC_SYMTAB"
| "is_symtab c \<longleftrightarrow> False"

lemma symtab_seen_simp: "symtab_seen p c st = (if is_symtab c then Some p else st)"
  by (cases c) (simp_all add: symtab_seen_def)

definition symtabs_sized :: "(u32 \<times> load_cmd) list \<Rightarrow> bool" where
  "symtabs_sized cs \<longleftrightarrow> (\<forall>(sz, c) \<in> set cs. is_symtab c \<longrightarrow> 24 \<le> unat sz)"

lemma other_cmd_kept:
  assumes "cmd_at m p sz c" and "cmd_at m' p sz (slide_cmd slide c)"
    and "rd32 m (p + 4) = sz" and "rd32 m' (p + 4) = sz" and "is_symtab c" and "24 \<le> unat sz"
  shows "ld_symtab_command m p = ld_symtab_command m' p"
proof -
  from assms(5) obtain cmd bs where c: "c = OtherCmd cmd bs" by (cases c) auto
  have "unat sz - 8 \<le> 2 ^ 64" using unat_lt2p [of sz] by simp
  then have "mem_eq_on (p + 8) (unat sz - 8) m m'"
    using assms(1,2) c by (intro rd_bytes_eq_on) simp_all
  then have "rd32 m (p + 8 + off) = rd32 m' (p + 8 + off)" if "unat off + 4 \<le> unat sz - 8" for off
    using that by (rule rd32_at)
  from this [of 0] this [of 4] this [of 8] this [of 12] show ?thesis
    using assms c by (simp add: ld_symtab_command_def add.assoc)
qed

lemma last_symtab_kept:
  assumes "cmds_at m p cs" and "cmds_at m' p (slide_cmds slide cs)" and "symtabs_sized cs"
    and "last_symtab p cs st = Some q"
  shows "st = Some q \<or> ld_symtab_command m q = ld_symtab_command m' q \<and>
    (\<forall>x. in_range q 24 x \<longrightarrow> in_range p (cmds_size cs) x)"
  using assms
proof (induction cs arbitrary: p st)
  case Nil
  then show ?case by simp
next
  case (Cons x cs)
  obtain sz c where x: "x = (sz, c)" by fastforce
  have "symtab_seen p c st = Some q \<or> ld_symtab_command m q = ld_symtab_command m' q \<and>
      (\<forall>y. in_range q 24 y \<longrightarrow> in_range (p + ucast sz) (cmds_size cs) y)"
    using Cons.IH [of "p + ucast sz" "symtab_seen p c st"] Cons.prems x by (simp add: symtabs_sized_def)
  moreover have "ld_symtab_command m p = ld_symtab_command m' p \<and> 24 \<le> unat sz" if "is_symtab c"
    using other_cmd_kept [of m p sz c m' slide] that Cons.prems x by (simp add: symtabs_sized_def)
  ultimately show ?case
    using in_range_sub [of "ucast sz" "cmds_size cs" "unat sz + cmds_size cs" p] x
      in_range_mono [of p 24 _ "unat sz + cmds_size cs"]
    by (auto simp: symtab_seen_simp split: if_splits)
qed

definition symtab_clear :: "mem \<Rightarrow> PantheraKernelImage \<Rightarrow> u64 \<Rightarrow> u64 \<Rightarrow> nat \<Rightarrow> u64 option \<Rightarrow> bool" where
  "symtab_clear m k base hdr an st \<longleftrightarrow>
     (case st of None \<Rightarrow> True
      | Some q \<Rightarrow>
        let nsyms = st_nsyms (ld_symtab_command m q);
            symbols = panthera_loaded_file_offset k base (ucast (st_symoff (ld_symtab_command m q)))
                        (ucast nsyms * 16)
        in nsyms \<noteq> 0 \<longrightarrow> symbols \<noteq> 0 \<and> disjoint_ranges symbols (16 * unat nsyms) hdr an)"

lemma slide_symtab_spec:
  assumes "symtab_clear m k base hdr an st"
    and "\<And>q x. st = Some q \<Longrightarrow> in_range q 24 x \<Longrightarrow> in_range hdr an x"
  shows "\<exists>m'. slide_symtab k base slide st m = (PANTHERA_LOADER_OK, m') \<and> mem_eq_on hdr an m m'"
proof (cases st)
  case None
  then show ?thesis by (simp add: slide_symtab_def)
next
  case (Some q)
  define nsyms where "nsyms = st_nsyms (ld_symtab_command m q)"
  define symbols where "symbols = panthera_loaded_file_offset k base
    (ucast (st_symoff (ld_symtab_command m q))) (ucast nsyms * 16)"
  show ?thesis
  proof (cases "nsyms = 0")
    case True
    then show ?thesis using Some by (simp add: slide_symtab_def nsyms_def)
  next
    case False
    then have sy: "symbols \<noteq> 0" "disjoint_ranges symbols (16 * unat nsyms) hdr an"
      using assms(1) Some by (simp_all add: symtab_clear_def nsyms_def symbols_def Let_def)
    have "disjoint_ranges symbols (16 * unat nsyms) q 24"
      using sy(2) assms(2) [OF Some] by (auto simp: disjoint_ranges_def)
    then have "mem_eq_off symbols (16 * unat nsyms) m (slide_symbols k slide q symbols 0 m)"
      by (rule slide_symbols_spec(1)) (simp add: nsyms_def)
    then have "mem_eq_on hdr an m (slide_symbols k slide q symbols 0 m)"
      using mem_eq_off_on sy(2) mem_eq_on_sym by blast
    then show ?thesis
      using Some False sy(1) by (simp add: slide_symtab_def nsyms_def symbols_def Let_def)
  qed
qed

lemma cmds_size_slide: "cmds_size (slide_cmds slide cs) = cmds_size cs"
  by (induction cs) auto

definition slide_ready :: "mem \<Rightarrow> PantheraKernelImage \<Rightarrow> u64 \<Rightarrow> u64 \<Rightarrow> (u32 \<times> load_cmd) list \<Rightarrow> bool" where
  "slide_ready m k base hdr cs \<longleftrightarrow> base \<noteq> 0 \<and> kernel_slide k base \<noteq> 0 \<and> hdr \<noteq> 0 \<and>
     (case find_text_segment (active_segments k) of None \<Rightarrow> False
      | Some t \<Rightarrow> panthera_loaded_vmaddr k base (vmaddr t) 32 = hdr \<and>
          panthera_loaded_vmaddr k base (vmaddr t)
            (32 + ucast (mh_sizeofcmds (ld_mach_header m hdr))) \<noteq> 0) \<and>
     mh_magic (ld_mach_header m hdr) = MH_MAGIC_64 \<and>
     unat (mh_ncmds (ld_mach_header m hdr)) = length cs \<and> 32 + cmds_size cs < 2 ^ 64 \<and> symtabs_sized cs"

text \<open>
  C22. Functional correctness of the metadata pass as a refinement: when the loaded image holds the
  command list \<open>cs\<close> behind its header, and its pointer sections and symbol table are in range and
  lie outside the header and the commands, the pass succeeds and the memory then holds the slid
  command list behind an unchanged header: segment addresses, non-zero section addresses and the
  entry point are moved by the slide, every other field and command is unchanged.
\<close>

theorem slide_metadata_refines:
  assumes "slide_ready m k base hdr cs" and "cmds_at m (hdr + 32) cs"
    and "cmds_clear m k base hdr (32 + cmds_size cs) (hdr + 32) cs"
    and "symtab_clear m k base hdr (32 + cmds_size cs) (last_symtab (hdr + 32) cs None)"
  shows "\<exists>m'. panthera_slide_kernel_macho_metadata m (Some k) base = (PANTHERA_LOADER_OK, m') \<and>
    cmds_at m' (hdr + 32) (slide_cmds (kernel_slide k base) cs) \<and> ld_mach_header m' hdr = ld_mach_header m hdr"
proof -
  define n where "n = cmds_size cs"
  obtain t where t: "find_text_segment (active_segments k) = Some t"
    "panthera_loaded_vmaddr k base (vmaddr t) 32 = hdr"
    "panthera_loaded_vmaddr k base (vmaddr t) (32 + ucast (mh_sizeofcmds (ld_mach_header m hdr))) \<noteq> 0"
    using assms(1) by (auto simp: slide_ready_def split: option.splits)
  note ready = assms(1) [unfolded slide_ready_def]
  let ?slide = "kernel_slide k base" and ?st = "last_symtab (hdr + 32) cs None"
  have an: "32 + n < 2 ^ 64" using ready by (simp add: n_def)
  obtain m1 where m1: "slide_commands k base ?slide hdr 0 (hdr + 32) m None = (PANTHERA_LOADER_OK, m1, ?st)"
    "cmds_at m1 (hdr + 32) (slide_cmds ?slide cs)" "frame_cmd hdr (32 + n) (hdr + 32) n m m1"
    using slide_commands_spec [OF assms(2), of "32 + n" 0 k base ?slide None] assms(3) ready an
    by (auto simp: n_def)
  have hd1: "mem_eq_on hdr 32 m m1"
    using frame_cmd_keep [OF m1(3), of 0 32] an by (simp add: apart_def)
  have kept: "ld_symtab_command m q = ld_symtab_command m1 q"
    "\<forall>x. in_range q 24 x \<longrightarrow> in_range (hdr + 32) n x" if "?st = Some q" for q
    using last_symtab_kept [OF assms(2) m1(2) _ that] ready by (auto simp: n_def)
  have "symtab_clear m1 k base hdr (32 + n) ?st"
    using assms(4) kept(1) by (simp add: symtab_clear_def n_def split: option.splits)
  then obtain m' where m': "slide_symtab k base ?slide ?st m1 = (PANTHERA_LOADER_OK, m')"
    "mem_eq_on hdr (32 + n) m1 m'"
    using slide_symtab_spec [of m1 k base hdr "32 + n" ?st ?slide] kept(2) in_range_sub [of 32 n "32 + n" hdr]
    by auto
  have "panthera_slide_kernel_macho_metadata m (Some k) base = (PANTHERA_LOADER_OK, m')"
    using ready t m1(1) m'(1) by (simp add: panthera_slide_kernel_macho_metadata_def Let_def)
  moreover have "cmds_at m' (hdr + 32) (slide_cmds ?slide cs)"
    using cmds_cong [of "hdr + 32" "slide_cmds ?slide cs" m1 m'] m1(2) an
      mem_eq_on_sub [OF m'(2), of 32 n] by (simp add: cmds_size_slide n_def)
  moreover have "ld_mach_header m' hdr = ld_mach_header m hdr"
    using ld_mach_header_cong [OF hd1] ld_mach_header_cong [OF mem_eq_on_mono [OF m'(2)]] by simp
  ultimately show ?thesis by blast
qed

text \<open>
  The symbol pass, when the symbol table does not overlap its own command: every symbol of the
  table is moved exactly when it is section based, has a section and a value inside the image,
  all its other fields are unchanged, and no byte outside the table changes.
\<close>

theorem symbol_pass_maps:
  assumes "disjoint_ranges symbols (16 * unat nsyms) st 24" and "st_nsyms (ld_symtab_command m st) = nsyms"
  shows "mem_eq_off symbols (16 * unat nsyms) m (slide_symbols k slide st symbols 0 m) \<and>
    (\<forall>j < unat nsyms. ld_nlist (slide_symbols k slide st symbols 0 m) (symbols + of_nat (16 * j)) =
       slide_symbol k slide (ld_nlist m (symbols + of_nat (16 * j))))"
  using slide_symbols_spec [OF assms] by blast

text \<open>
  The pointer pass over \<open>n\<close> slots moves exactly the pointers into the image and changes no byte
  outside the slots.
\<close>

theorem pointer_pass_maps:
  assumes "n \<le> 2 ^ 61"
  shows "mem_eq_off p (8 * n) m (slide_pointers k slide p n 0 m) \<and>
    (\<forall>j < n. rd64 (slide_pointers k slide p n 0 m) (p + of_nat (8 * j)) =
       slide_ptr k slide (rd64 m (p + of_nat (8 * j))))"
  using slide_pointers_spec [OF assms] by blast

section \<open>A concrete slide\<close>

text \<open>The file of \<open>demo_kernel\<close> loaded at \<open>0x200000\<close>, \<open>0x100000\<close> above its link address.\<close>

definition slide_mem :: mem where
  "slide_mem = (\<lambda>a. demo_kernel (a - 0x1ff000))"

definition slide_image :: PantheraKernelImage where
  "slide_image = zero_image\<lparr>lowest_vmaddr := 0x100000, highest_vmaddr := 0x102000, segment_count := 1,
     segments := (segments zero_image)[0 := kernel_segment_of demo_segment]\<rparr>"

lemma slide_demo_commands: "cmds_at slide_mem (0x200000 + 32) demo_commands"
proof -
  have "ld_segment_command slide_mem 0x200020 = demo_segment"
    by (simp add: ld_segment_command_def eval_mem slide_mem_def demo_kernel_def demo_segment_def)
  moreover have "rd32 slide_mem 0x200020 = 0x19" "rd32 slide_mem 0x200024 = 0x98"
    "rd64 slide_mem 0x200088 = 0x100100" "rd64 slide_mem 0x200090 = 0x10"
    "rd32 slide_mem 0x2000b8 = 5" "rd32 slide_mem 0x2000bc = 0xb8" "rd64 slide_mem 0x200148 = 0x100040"
    by (simp_all add: eval_mem slide_mem_def demo_kernel_def)
  ultimately show ?thesis
    by (simp add: demo_commands_def sections_at_def demo_section_def, simp add: demo_segment_def)
qed

lemma slide_demo_ready: "slide_ready slide_mem slide_image 0x200000 0x200000 demo_commands"
proof -
  have "find_text_segment (active_segments slide_image) = Some (kernel_segment_of demo_segment)"
    by (simp add: slide_image_def active_segments_def zero_image_def take_Suc_conv_app_nth
        kernel_segment_of_def segname_is_text_def demo_segment_def)
  moreover have "mh_magic (ld_mach_header slide_mem 0x200000) = MH_MAGIC_64"
    "mh_ncmds (ld_mach_header slide_mem 0x200000) = 2" "mh_sizeofcmds (ld_mach_header slide_mem 0x200000) = 0x150"
    by (simp_all add: ld_mach_header_def eval_mem slide_mem_def demo_kernel_def)
  moreover have "vmaddr (kernel_segment_of demo_segment) = 0x100000"
    by (simp add: kernel_segment_of_def demo_segment_def)
  ultimately show ?thesis
    by (simp add: slide_ready_def kernel_slide_def panthera_loaded_vmaddr_def slide_image_def
        symtabs_sized_def demo_commands_def)
qed

lemma slide_demo_clear:
  "cmds_clear slide_mem slide_image 0x200000 0x200000 (32 + cmds_size demo_commands) (0x200000 + 32) demo_commands"
  "last_symtab (0x200000 + 32) demo_commands None = None"
proof -
  have "\<not> is_pointer_section slide_mem 0x200020 p" for p
    by (simp add: is_pointer_section_def panthera_name_equals_def name_equals_from.simps bytes_of_string_def
        cstr_at_def eval_mem slide_mem_def demo_kernel_def)
  then show "cmds_clear slide_mem slide_image 0x200000 0x200000 (32 + cmds_size demo_commands)
      (0x200000 + 32) demo_commands"
    by (simp add: demo_commands_def pointers_clear_def)
  show "last_symtab (0x200000 + 32) demo_commands None = None"
    by (simp add: demo_commands_def symtab_seen_def)
qed

theorem slide_metadata_refines_witness:
  "\<exists>m'. panthera_slide_kernel_macho_metadata slide_mem (Some slide_image) 0x200000 = (PANTHERA_LOADER_OK, m') \<and>
    cmds_at m' 0x200020 (slide_cmds 0x100000 demo_commands)"
  using slide_metadata_refines [OF slide_demo_ready slide_demo_commands slide_demo_clear(1)]
    slide_demo_clear(2)
  by (auto simp: symtab_clear_def kernel_slide_def slide_image_def)

text \<open>One symbol at \<open>0x3000\<close> with value \<open>0x100010\<close>, counted by the command at \<open>0x1000\<close>.\<close>

definition symbol_mem :: mem where
  "symbol_mem = (\<lambda>_. 0)(0x100c := 1, 0x3004 := 0x0e, 0x3005 := 1, 0x3008 := 0x10, 0x300a := 0x10)"

theorem symbol_pass_maps_witness:
  "n_value (ld_nlist (slide_symbols slide_image 0x100000 0x1000 0x3000 0 symbol_mem) 0x3000) = 0x200010"
proof -
  have "disjoint_ranges 0x3000 16 0x1000 24" by (rule disjoint_rangesI) simp_all
  moreover have "st_nsyms (ld_symtab_command symbol_mem 0x1000) = 1"
    by (simp add: ld_symtab_command_def eval_mem symbol_mem_def)
  moreover have "ld_nlist symbol_mem 0x3000 = \<lparr>n_strx = 0, n_type = 0x0e, n_sect = 1, n_value = 0x100010\<rparr>"
    by (simp add: ld_nlist_def eval_mem symbol_mem_def)
  ultimately show ?thesis
    using symbol_pass_maps [of "0x3000" 1 "0x1000" symbol_mem slide_image "0x100000"]
    by (simp add: slide_symbol_def symbol_slides_def panthera_symbol_is_section_based_def slide_image_def)
qed

theorem pointer_pass_maps_witness:
  "rd64 (slide_pointers slide_image 0x100000 0x3008 1 0 symbol_mem) 0x3008 = 0x200010"
proof -
  have "rd64 symbol_mem 0x3008 = 0x100010" by (simp add: eval_mem symbol_mem_def)
  then show ?thesis
    using pointer_pass_maps [of 1 "0x3008" symbol_mem slide_image "0x100000"]
    by (simp add: slide_ptr_def slide_image_def)
qed

end
