(* ===== verification/Boot_Text.thy ===== *)
theory Boot_Text
  imports Panthera_Prelude
begin

text \<open>
  Text handling of the EFI boot loader, \<open>boot/efi/loader/src/bootx64.c\<close>: C string helpers, the search
  for a token in the boot command line, the normalisation of the \<open>boot-args.txt\<close> file, and the
  formatting of console messages into fixed stack buffers.
  A C string is the list of its bytes without the terminator. A fixed buffer is a list of its
  length, and a store outside it is the value \<open>None\<close>.
\<close>

section \<open>Strings and tokens\<close>

definition panthera_ascii_length :: "u8 list \<Rightarrow> nat" where
  "panthera_ascii_length text = length (takeWhile (\<lambda>c. c \<noteq> 0) text)"

definition panthera_ascii_is_space :: "u8 \<Rightarrow> bool" where
  "panthera_ascii_is_space c \<longleftrightarrow> c = 0x20 \<or> c = 0x09 \<or> c = 0x0d \<or> c = 0x0a"

function token_match :: "u8 list \<Rightarrow> u8 list \<Rightarrow> nat \<Rightarrow> nat" where
  "token_match token_start token index =
     (if index < panthera_ascii_length token \<and> cstr_at token_start index = cstr_at token index
      then token_match token_start token (Suc index) else index)"
  by pat_completeness auto
termination
  by (relation "measure (\<lambda>(token_start, token, index). panthera_ascii_length token - index)") auto

declare token_match.simps [simp del]

lemma drop_word_shorter:
  assumes "r = dropWhile p bs" and "r \<noteq> []" and "\<And>c. p c \<longleftrightarrow> \<not> q c"
  shows "length (dropWhile q r) < length bs"
proof -
  have "q (hd r)" using assms hd_dropWhile [of p bs] by auto
  then have "length (dropWhile q r) < length r"
    using assms(2) length_dropWhile_le [of q "tl r"] by (cases r) (auto simp: le_imp_less_Suc)
  also have "length r \<le> length bs" using assms(1) length_dropWhile_le by blast
  finally show ?thesis .
qed

text \<open>The cursor is the suffix of the command line it points to.\<close>

function has_token_from :: "u8 list \<Rightarrow> u8 list \<Rightarrow> bool" where
  "has_token_from cursor token =
     (if cursor = [] then False
      else
        let token_start = dropWhile panthera_ascii_is_space cursor in
        if token_start = [] then False
        else
          let cursor' = dropWhile (\<lambda>c. \<not> panthera_ascii_is_space c) token_start;
              index = token_match token_start token 0
          in if index = panthera_ascii_length token \<and> length token_start - length cursor' = index then True
             else has_token_from cursor' token)"
  by pat_completeness auto

termination
  by (relation "measure (\<lambda>(cursor, token). length cursor)") (auto intro!: drop_word_shorter)

declare has_token_from.simps [simp del]

definition panthera_command_line_has_token :: "u8 list \<Rightarrow> u8 list \<Rightarrow> bool" where
  "panthera_command_line_has_token command_line token =
     (if panthera_ascii_length token = 0 then False else has_token_from command_line token)"

section \<open>The boot command line\<close>

abbreviation BOOT_LINE_SIZE :: nat where "BOOT_LINE_SIZE \<equiv> 1024"

definition panthera_copy_ascii :: "nat \<Rightarrow> u8 list \<Rightarrow> u8 list" where
  "panthera_copy_ascii dst_size src =
     (if dst_size = 0 then [] else take (dst_size - 1) (takeWhile (\<lambda>c. c \<noteq> 0) src))"

fun normalize_loop :: "u8 list \<Rightarrow> u8 list \<Rightarrow> bool \<Rightarrow> u8 list" where
  "normalize_loop [] dst previous_was_space = dst"
| "normalize_loop (s # src) dst previous_was_space =
     (if length dst + 1 < BOOT_LINE_SIZE then
        let nxt = (if s < 0x20 then 0x20 else s) in
        if nxt = 0x20 then
          if previous_was_space then normalize_loop src dst previous_was_space
          else normalize_loop src (dst @ [nxt]) True
        else normalize_loop src (dst @ [nxt]) False
      else dst)"

function trim_trailing :: "u8 list \<Rightarrow> u8 list" where
  "trim_trailing dst = (if dst \<noteq> [] \<and> last dst = 0x20 then trim_trailing (butlast dst) else dst)"
  by pat_completeness auto
termination by (relation "measure length") auto

declare trim_trailing.simps [simp del]

definition PANTHERA_DEFAULT_BOOT_ARGS :: "u8 list" where
  "PANTHERA_DEFAULT_BOOT_ARGS = bytes_of_string ''serial=3 dataconstro=0 kernelmanagerd=0''"

text \<open>The text of \<open>gBootCommandLine\<close> for the bytes of a non-empty file.\<close>

definition normalize_boot_args :: "u8 list \<Rightarrow> u8 list" where
  "normalize_boot_args src =
     (let text = trim_trailing (normalize_loop src [] True) in
      if text = [] then panthera_copy_ascii BOOT_LINE_SIZE PANTHERA_DEFAULT_BOOT_ARGS else text)"

section \<open>Console buffers\<close>

definition store :: "'a list \<Rightarrow> nat \<Rightarrow> 'a \<Rightarrow> 'a list option" where
  "store buffer index v = (if index < length buffer then Some (buffer[index := v]) else None)"

fun store_all :: "'a list \<Rightarrow> nat \<Rightarrow> 'a list \<Rightarrow> 'a list option" where
  "store_all buffer index [] = Some buffer"
| "store_all buffer index (v # vs) = Option.bind (store buffer index v) (\<lambda>b. store_all b (Suc index) vs)"

abbreviation EFI_OUT_OF_RESOURCES :: u64 where "EFI_OUT_OF_RESOURCES \<equiv> 0x8000000000000009"

definition widen :: "u8 list \<Rightarrow> u16 list" where
  "widen text = map ucast text"

definition ascii_buffer :: "u16 list \<Rightarrow> u8 list \<Rightarrow> u16 list option" where
  "ascii_buffer buffer text = store_all buffer 0 (widen (take 191 (takeWhile (\<lambda>c. c \<noteq> 0) text)) @ [0])"

definition hex_digits :: "u16 list" where
  "hex_digits = map (\<lambda>c. of_nat (of_char c)) ''0123456789abcdef''"

definition hex_text :: "u64 \<Rightarrow> u16 list" where
  "hex_text value = map (\<lambda>nibble. hex_digits ! unat (drop_bit ((15 - nibble) * 4) value AND 0xf)) [0..<16]"

definition label_text :: "u8 list \<Rightarrow> u16 list" where
  "label_text label = widen (take 95 (takeWhile (\<lambda>c. c \<noteq> 0) label))"

definition hex64_buffer :: "u16 list \<Rightarrow> u8 list \<Rightarrow> u64 \<Rightarrow> u64 + u16 list option" where
  "hex64_buffer buffer label value =
     (let index = length (label_text label) in
      if index + 19 \<ge> 96 then Inl EFI_OUT_OF_RESOURCES
      else Inr (store_all buffer 0 (label_text label @ [0x30, 0x78] @ hex_text value @ [0x0d, 0x0a, 0])))"

text \<open>The digits array holds 24 digits, more than the 20 of the largest value.\<close>

function digit_loop :: "u64 \<Rightarrow> u16 list \<Rightarrow> u16 list" where
  "digit_loop value digits =
     (if value \<noteq> 0 \<and> length digits < 24
      then digit_loop (value div 10) (digits @ [0x30 + ucast (value mod 10)]) else digits)"
  by pat_completeness auto
termination by (relation "measure (\<lambda>(value, digits). 24 - length digits)") auto

declare digit_loop.simps [simp del]

definition decimal_digits :: "u64 \<Rightarrow> u16 list" where
  "decimal_digits value = (if value = 0 then [0x30] else digit_loop value [])"

definition uint64_buffer :: "u16 list \<Rightarrow> u8 list \<Rightarrow> u64 \<Rightarrow> u16 list option" where
  "uint64_buffer buffer label value =
     (let text = label_text label;
          room = 95 - length text
      in store_all buffer 0 (text @ take room (rev (decimal_digits value)) @ [0x0d, 0x0a, 0]))"

section \<open>Tokens\<close>

function words_of :: "u8 list \<Rightarrow> u8 list list" where
  "words_of line =
     (let r = dropWhile panthera_ascii_is_space line in
      if r = [] then []
      else takeWhile (\<lambda>c. \<not> panthera_ascii_is_space c) r #
           words_of (dropWhile (\<lambda>c. \<not> panthera_ascii_is_space c) r))"
  by pat_completeness auto
termination
  by (relation "measure length") (auto intro!: drop_word_shorter)

declare words_of.simps [simp del]

lemma ascii_length_cstr [simp]: "0 \<notin> set s \<Longrightarrow> panthera_ascii_length s = length s"
  unfolding panthera_ascii_length_def
  by (rule arg_cong [where f = length]) (auto simp: takeWhile_eq_all_conv)

lemma token_match_full:
  assumes "0 \<notin> set token" and "i \<le> length token" and "take i ts = take i token"
  shows "token_match ts token i = length token \<longleftrightarrow> take (length token) ts = token"
  using assms
proof (induction ts token i rule: token_match.induct)
  case (1 ts token i)
  show ?case
  proof (cases "i < length token \<and> cstr_at ts i = cstr_at token i")
    case True
    have "token ! i \<in> set token" using True "1.prems"(1) by (intro nth_mem) simp
    then have nz: "cstr_at token i \<noteq> 0" using True "1.prems"(1) by (auto simp: cstr_at_def simp del: nth_mem)
    then have "i < length ts" using True by (auto simp: cstr_at_def split: if_splits)
    then have "take (Suc i) ts = take (Suc i) token"
      using True "1.prems"(3) by (simp add: take_Suc_conv_app_nth cstr_at_def)
    then show ?thesis
      using "1.IH" True "1.prems" by (subst token_match.simps) simp
  next
    case False
    then have "token_match ts token i = i" using "1.prems"(1) by (subst token_match.simps) auto
    moreover have "take (length token) ts \<noteq> token" if "i < length token"
    proof
      assume eq: "take (length token) ts = token"
      have "length (take (length token) ts) = length token" using eq by simp
      then have len: "length token \<le> length ts" by simp
      then have "ts ! i = token ! i" using that nth_take [of i "length token" ts] eq by simp
      then show False using False that len by (auto simp: cstr_at_def)
    qed
    ultimately show ?thesis using "1.prems"(2,3) by (cases "i = length token") auto
  qed
qed

lemma length_takeWhile_diff: "length xs - length (dropWhile p xs) = length (takeWhile p xs)"
proof -
  have "length xs = length (takeWhile p xs) + length (dropWhile p xs)"
    by (subst length_append [symmetric]) simp
  then show ?thesis by linarith
qed

lemma token_word:
  assumes "0 \<notin> set token"
  shows "token_match ts token 0 = length token \<and>
      length ts - length (dropWhile (\<lambda>c. \<not> panthera_ascii_is_space c) ts) = length token \<longleftrightarrow>
    takeWhile (\<lambda>c. \<not> panthera_ascii_is_space c) ts = token"
proof -
  define w where "w = takeWhile (\<lambda>c. \<not> panthera_ascii_is_space c) ts"
  have "token_match ts token 0 = length token \<longleftrightarrow> take (length token) ts = token"
    using token_match_full [OF assms, of 0 ts] by simp
  moreover have "w = take (length w) ts" unfolding w_def by (rule takeWhile_eq_take)
  ultimately show ?thesis
    unfolding length_takeWhile_diff w_def [symmetric] by metis
qed

lemma has_token_words:
  assumes "0 \<notin> set token"
  shows "has_token_from line token \<longleftrightarrow> token \<in> set (words_of line)"
proof (induction line rule: words_of.induct)
  case (1 line)
  define r where "r = dropWhile panthera_ascii_is_space line"
  show ?case
  proof (cases "r = []")
    case True
    then show ?thesis
      by (subst has_token_from.simps, subst words_of.simps) (simp add: r_def)
  next
    case False
    then have "line \<noteq> []" by (auto simp: r_def)
    then show ?thesis
      using 1 [OF r_def False] False token_word [OF assms, of r] assms
      by (subst has_token_from.simps, subst words_of.simps) (auto simp: r_def [symmetric] Let_def)
  qed
qed

text \<open>A word occurs in a line when it is a run of non-space bytes with a space or an end on each side.\<close>

definition occurs_as_word :: "u8 list \<Rightarrow> u8 list \<Rightarrow> bool" where
  "occurs_as_word w line \<longleftrightarrow> w \<noteq> [] \<and> (\<forall>c \<in> set w. \<not> panthera_ascii_is_space c) \<and>
     (\<exists>pre suf. line = pre @ w @ suf \<and> (pre = [] \<or> panthera_ascii_is_space (last pre)) \<and>
        (suf = [] \<or> panthera_ascii_is_space (hd suf)))"

lemma occurs_append:
  assumes "line = a @ b @ c" and "a = [] \<or> panthera_ascii_is_space (last a)"
    and "c = [] \<or> panthera_ascii_is_space (hd c)" and "b \<noteq> []" and "\<forall>x \<in> set b. \<not> panthera_ascii_is_space x"
  shows "occurs_as_word b line" and "occurs_as_word w c \<Longrightarrow> occurs_as_word w line"
proof -
  show "occurs_as_word b line" using assms unfolding occurs_as_word_def by blast
  assume "occurs_as_word w c"
  then obtain p s where w: "w \<noteq> []" "\<forall>x \<in> set w. \<not> panthera_ascii_is_space x" "c = p @ w @ s"
    "p = [] \<or> panthera_ascii_is_space (last p)" "s = [] \<or> panthera_ascii_is_space (hd s)"
    unfolding occurs_as_word_def by blast
  have "p \<noteq> []"
  proof
    assume "p = []"
    then have "hd c = hd w" "c \<noteq> []" using w(1,3) by auto
    then show False using assms(3) w(1,2) by auto
  qed
  then have "line = (a @ b @ p) @ w @ s" "panthera_ascii_is_space (last (a @ b @ p))"
    using assms(1) w(3,4) by auto
  then show "occurs_as_word w line" using w(1,2,5) unfolding occurs_as_word_def by blast
qed

lemma words_sound: "w \<in> set (words_of line) \<Longrightarrow> occurs_as_word w line"
proof (induction line rule: words_of.induct)
  case (1 line)
  let ?sp = panthera_ascii_is_space
  define r where "r = dropWhile ?sp line"
  define a where "a = takeWhile ?sp line"
  define b where "b = takeWhile (\<lambda>c. \<not> ?sp c) r"
  define c where "c = dropWhile (\<lambda>c. \<not> ?sp c) r"
  have words: "words_of line = (if r = [] then [] else b # words_of c)"
    by (subst words_of.simps) (simp add: r_def b_def c_def Let_def)
  have ne: "r \<noteq> []" using "1.prems" words by auto
  have line: "line = a @ b @ c" by (simp add: a_def b_def c_def r_def)
  have pre: "a = [] \<or> ?sp (last a)"
    unfolding a_def by (metis last_in_set set_takeWhileD)
  have suf: "c = [] \<or> ?sp (hd c)" using hd_dropWhile [of "\<lambda>c. \<not> ?sp c" r] by (auto simp: c_def)
  have "\<not> ?sp (hd r)" using ne hd_dropWhile [of ?sp line] by (simp add: r_def)
  then have "b \<noteq> []" using ne by (cases r) (auto simp: b_def)
  moreover have "\<forall>x \<in> set b. \<not> ?sp x" using set_takeWhileD by (fastforce simp: b_def)
  ultimately show ?case
    using occurs_append [OF line pre suf] "1.prems" words ne "1.IH" [OF r_def ne]
    by (auto simp: c_def [symmetric])
qed

lemma words_space: "panthera_ascii_is_space c \<Longrightarrow> words_of (c # cs) = words_of cs"
  by (subst words_of.simps, subst (2) words_of.simps) simp

lemma words_complete:
  assumes "w \<noteq> []" and "\<forall>c \<in> set w. \<not> panthera_ascii_is_space c"
    and "pre = [] \<or> panthera_ascii_is_space (last pre)" and "suf = [] \<or> panthera_ascii_is_space (hd suf)"
  shows "w \<in> set (words_of (pre @ w @ suf))"
  using assms(3)
proof (induction pre rule: length_induct)
  case (1 pre)
  let ?sp = panthera_ascii_is_space
  show ?case
  proof (cases pre)
    case Nil
    have "\<not> ?sp (hd w)" using assms(1,2) by simp
    then have "dropWhile ?sp (w @ suf) = w @ suf" using assms(1) by (cases w) auto
    moreover have "takeWhile (\<lambda>c. \<not> ?sp c) (w @ suf) = w"
      using assms(2,4) by (cases suf) auto
    ultimately show ?thesis using Nil assms(1) by (subst words_of.simps) simp
  next
    case (Cons c cs)
    show ?thesis
    proof (cases "?sp c")
      case True
      then show ?thesis using 1 Cons by (auto simp: words_space split: if_splits)
    next
      case False
      let ?d = "dropWhile (\<lambda>c. \<not> ?sp c) cs"
      have last: "?sp (last pre)" "cs \<noteq> []" using "1.prems" Cons False by auto
      then have lcs: "last cs \<in> set cs" "?sp (last cs)" using Cons by auto
      then have d: "dropWhile (\<lambda>c. \<not> ?sp c) (cs @ w @ suf) = ?d @ w @ suf"
        by (intro dropWhile_append1 [of "last cs"]) auto
      have "?d \<noteq> []" using lcs by (auto simp: dropWhile_eq_Nil_conv)
      then have "?sp (last ?d)" using last lcs(2) by (metis last_appendR takeWhile_dropWhile_id)
      moreover have "length ?d < length pre" using length_dropWhile_le [of _ cs] Cons by (simp add: le_imp_less_Suc)
      ultimately have "w \<in> set (words_of (?d @ w @ suf))" using 1 by blast
      then show ?thesis using Cons False d by (subst words_of.simps) simp
    qed
  qed
qed

text \<open>
  C23. The token search of the boot command line is exact: it finds a (NUL-free) token if and only
  if the token occurs in the line as a whole word, delimited by white space or the ends.
\<close>

theorem has_token_iff:
  assumes "0 \<notin> set token"
  shows "panthera_command_line_has_token line token \<longleftrightarrow> occurs_as_word token line"
proof (cases "token = []")
  case True
  then show ?thesis by (simp add: panthera_command_line_has_token_def occurs_as_word_def)
next
  case False
  have "token \<in> set (words_of line)" if "occurs_as_word token line"
    using that words_complete unfolding occurs_as_word_def by blast
  then show ?thesis
    using False assms words_sound has_token_words [OF assms]
    by (auto simp: panthera_command_line_has_token_def)
qed

theorem has_token_iff_witness:
  "panthera_command_line_has_token (bytes_of_string ''-v panthera_zfs=1'') (bytes_of_string ''panthera_zfs=1'')"
proof -
  have "occurs_as_word (bytes_of_string ''panthera_zfs=1'') (bytes_of_string ''-v panthera_zfs=1'')"
    unfolding occurs_as_word_def
    by (intro conjI exI [of _ "bytes_of_string ''-v ''"] exI [of _ "[]"])
      (simp_all add: bytes_of_string_def panthera_ascii_is_space_def)
  moreover have "0 \<notin> set (bytes_of_string ''panthera_zfs=1'')" by (simp add: bytes_of_string_def)
  ultimately show ?thesis using has_token_iff by blast
qed

section \<open>Normalisation\<close>

definition boot_char :: "u8 \<Rightarrow> u8" where
  "boot_char c = (if c < 0x20 then 0x20 else c)"

fun squeeze :: "bool \<Rightarrow> u8 list \<Rightarrow> u8 list" where
  "squeeze p [] = []"
| "squeeze p (c # cs) = (if c = 0x20 then if p then squeeze True cs else c # squeeze True cs
     else c # squeeze False cs)"

text \<open>The loop is \<open>squeeze\<close> cut off where the buffer is full.\<close>

lemma normalize_loop_squeeze:
  "length dst \<le> 1023 \<Longrightarrow>
   normalize_loop src dst p = dst @ take (1023 - length dst) (squeeze p (map boot_char src))"
proof (induction src arbitrary: dst p)
  case Nil
  then show ?case by simp
next
  case (Cons s src)
  show ?case
  proof (cases "length dst < 1023")
    case True
    then have "1023 - length dst = Suc (1022 - length dst)" by simp
    then show ?thesis using True Cons.IH by (auto simp: boot_char_def Let_def)
  next
    case False
    then show ?thesis using Cons.prems by auto
  qed
qed

lemma trim_trailing_snoc: "trim_trailing (xs @ [x]) = (if x = 0x20 then trim_trailing xs else xs @ [x])"
  by (subst trim_trailing.simps) simp

lemma trim_trailing_Nil [simp]: "trim_trailing [] = []"
  by (subst trim_trailing.simps) simp

definition single_spaced :: "u8 list \<Rightarrow> bool" where
  "single_spaced text \<longleftrightarrow> (\<forall>c \<in> set text. 0x20 \<le> c) \<and> (text \<noteq> [] \<longrightarrow> hd text \<noteq> 0x20) \<and>
     (\<forall>i. Suc i < length text \<longrightarrow> \<not> (text ! i = 0x20 \<and> text ! Suc i = 0x20))"

definition clean_line :: "u8 list \<Rightarrow> bool" where
  "clean_line text \<longleftrightarrow> single_spaced text \<and> text \<noteq> [] \<and> last text \<noteq> 0x20"

lemma squeeze_sub: "set (squeeze p cs) \<subseteq> set cs"
  by (induction p cs rule: squeeze.induct) auto

lemma squeeze_head: "squeeze True cs \<noteq> [] \<Longrightarrow> hd (squeeze True cs) \<noteq> 0x20"
  by (induction cs) auto

lemma squeeze_no_pair:
  "Suc i < length (squeeze p cs) \<Longrightarrow> \<not> (squeeze p cs ! i = 0x20 \<and> squeeze p cs ! Suc i = 0x20)"
proof (induction p cs arbitrary: i rule: squeeze.induct)
  case (1 p)
  then show ?case by simp
next
  case (2 p c cs)
  have "squeeze True cs ! 0 \<noteq> 0x20" if "squeeze True cs \<noteq> []"
    using squeeze_head [OF that] that by (simp add: hd_conv_nth)
  then show ?case using 2 by (cases i) (auto split: if_splits)
qed

lemma single_spaced_squeeze: "single_spaced (squeeze True (map boot_char src))"
proof -
  have "0x20 \<le> c" if "c \<in> set (map boot_char src)" for c
    using that by (auto simp: boot_char_def)
  then show ?thesis
    using squeeze_sub [of True "map boot_char src"] squeeze_head squeeze_no_pair
    by (auto simp: single_spaced_def)
qed

lemma single_spaced_take: "single_spaced text \<Longrightarrow> single_spaced (take n text)"
  by (auto simp: single_spaced_def dest: in_set_takeD)

lemma clean_trim:
  "single_spaced line \<Longrightarrow> trim_trailing line = [] \<or> clean_line (trim_trailing line)"
proof (induction line rule: rev_induct)
  case Nil
  then show ?case by simp
next
  case (snoc x xs)
  have "single_spaced xs" using single_spaced_take [OF snoc.prems, of "length xs"] by simp
  then show ?case using snoc by (auto simp: trim_trailing_snoc clean_line_def)
qed

lemma length_trim: "length (trim_trailing xs) \<le> length xs"
  by (induction xs rule: rev_induct) (auto simp: trim_trailing_snoc)

lemma default_clean: "clean_line (panthera_copy_ascii 1024 PANTHERA_DEFAULT_BOOT_ARGS)"
  "length (panthera_copy_ascii 1024 PANTHERA_DEFAULT_BOOT_ARGS) \<le> 1023"
proof -
  let ?d = "panthera_copy_ascii 1024 PANTHERA_DEFAULT_BOOT_ARGS"
  have d: "?d = bytes_of_string ''serial=3 dataconstro=0 kernelmanagerd=0''"
    by (simp add: panthera_copy_ascii_def PANTHERA_DEFAULT_BOOT_ARGS_def bytes_of_string_def)
  have "squeeze True ?d = ?d" unfolding d by (simp add: bytes_of_string_def)
  moreover have "map boot_char ?d = ?d" unfolding d by (simp add: bytes_of_string_def boot_char_def)
  ultimately have "single_spaced ?d" using single_spaced_squeeze [of ?d] by simp
  then show "clean_line ?d" unfolding d by (simp add: clean_line_def bytes_of_string_def)
  show "length ?d \<le> 1023" unfolding d by (simp add: bytes_of_string_def)
qed

lemma normalize_trim:
  "normalize_boot_args src =
     (let text = trim_trailing (take 1023 (squeeze True (map boot_char src))) in
      if text = [] then panthera_copy_ascii 1024 PANTHERA_DEFAULT_BOOT_ARGS else text)"
  by (simp add: normalize_boot_args_def normalize_loop_squeeze)

lemma normalize_clean: "clean_line (normalize_boot_args src)" "length (normalize_boot_args src) \<le> 1023"
proof -
  let ?t = "take 1023 (squeeze True (map boot_char src))"
  have "trim_trailing ?t = [] \<or> clean_line (trim_trailing ?t)"
    by (intro clean_trim single_spaced_take single_spaced_squeeze)
  moreover have "length (trim_trailing ?t) \<le> 1023" using length_trim [of ?t] by simp
  ultimately show "clean_line (normalize_boot_args src)" "length (normalize_boot_args src) \<le> 1023"
    using default_clean by (auto simp: normalize_trim Let_def)
qed

text \<open>
  C24. Whatever bytes the boot-args file holds, the command line taken from it is a non-empty text
  of at most 1023 bytes, so it fits its buffer with the terminator; it has no control byte and
  no NUL, no leading, trailing or doubled space.
\<close>

theorem boot_args_clean:
  "clean_line (normalize_boot_args src) \<and> length (normalize_boot_args src) < BOOT_LINE_SIZE \<and>
   0 \<notin> set (normalize_boot_args src)"
proof -
  have "0 \<notin> set (normalize_boot_args src)"
    using normalize_clean(1) [of src] by (auto simp: clean_line_def single_spaced_def)
  then show ?thesis using normalize_clean [of src] by simp
qed


lemma words_Nil [simp]: "words_of [] = []"
  by (subst words_of.simps) simp

lemma words_spaces: "\<forall>c \<in> set xs. panthera_ascii_is_space c \<Longrightarrow> words_of (xs @ ys) = words_of ys"
  by (induction xs) (auto simp: words_space)

lemma dropWhile_append_keep: "dropWhile p xs \<noteq> [] \<Longrightarrow> dropWhile p (xs @ ys) = dropWhile p xs @ ys"
  by (induction xs) auto

lemma words_append_space:
  assumes "panthera_ascii_is_space c"
  shows "words_of (xs @ c # cs) = words_of xs @ words_of cs"
proof (induction xs rule: words_of.induct)
  case (1 xs)
  let ?sp = panthera_ascii_is_space
  define r where "r = dropWhile ?sp xs"
  show ?case
  proof (cases "r = []")
    case True
    then have "\<forall>x \<in> set xs. ?sp x" by (simp add: r_def dropWhile_eq_Nil_conv)
    then show ?thesis using words_spaces [of xs "[]"] by (simp add: words_spaces words_space assms)
  next
    case False
    have d: "dropWhile ?sp (xs @ c # cs) = r @ c # cs"
      using False dropWhile_append_keep [of ?sp xs] by (simp add: r_def)
    have t: "takeWhile (\<lambda>c. \<not> ?sp c) (r @ c # cs) = takeWhile (\<lambda>c. \<not> ?sp c) r"
      "dropWhile (\<lambda>c. \<not> ?sp c) (r @ c # cs) = dropWhile (\<lambda>c. \<not> ?sp c) r @ c # cs"
      using assms by (induction r) auto
    have "words_of xs = takeWhile (\<lambda>c. \<not> ?sp c) r # words_of (dropWhile (\<lambda>c. \<not> ?sp c) r)"
      using False by (subst words_of.simps) (simp add: r_def [symmetric])
    then show ?thesis
      using "1.IH" [OF r_def False] False
      by (subst words_of.simps) (simp add: d t)
  qed
qed

lemma space_20 [simp]: "panthera_ascii_is_space 0x20"
  by (simp add: panthera_ascii_is_space_def)

lemma words_squeeze:
  "p = (xs = [] \<or> last xs = 0x20) \<Longrightarrow> words_of (xs @ squeeze p cs) = words_of (xs @ cs)"
proof (induction cs arbitrary: xs p)
  case Nil
  then show ?case by simp
next
  case (Cons c cs)
  show ?case
  proof (cases "c = 0x20 \<and> p")
    case True
    have "words_of (xs @ c # cs) = words_of (xs @ cs)"
    proof (cases xs rule: rev_cases)
      case Nil
      then show ?thesis using True by (simp add: words_space)
    next
      case (snoc ys y)
      then show ?thesis using True Cons.prems by (simp add: words_append_space words_space)
    qed
    then show ?thesis using True Cons.IH [of p xs] Cons.prems by simp
  next
    case False
    then have "squeeze p (c # cs) = c # squeeze (c = 0x20) cs" by auto
    then show ?thesis using Cons.IH [of "c = 0x20" "xs @ [c]"] by simp
  qed
qed

lemma words_trim: "words_of (trim_trailing xs) = words_of xs"
proof (induction xs rule: rev_induct)
  case Nil
  then show ?case by simp
next
  case (snoc x xs)
  then show ?case using words_append_space [of "0x20" xs "[]"] by (simp add: trim_trailing_snoc)
qed

lemma length_squeeze: "length (squeeze p cs) \<le> length cs"
  by (induction p cs rule: squeeze.induct) auto

text \<open>
  No boot argument is lost or changed: for a file of at most 1023 bytes with at least one word,
  the words of the resulting command line are the words of the file, where every control byte
  counts as a separator.
\<close>

theorem boot_args_words:
  assumes "length src < BOOT_LINE_SIZE" and "words_of (map boot_char src) \<noteq> []"
  shows "words_of (normalize_boot_args src) = words_of (map boot_char src)"
proof -
  let ?s = "squeeze True (map boot_char src)"
  have w: "words_of (trim_trailing ?s) = words_of (map boot_char src)"
    using words_squeeze [of True "[]" "map boot_char src"] by (simp add: words_trim)
  then have "trim_trailing ?s \<noteq> []" using assms(2) by auto
  moreover have "take 1023 ?s = ?s" using length_squeeze [of True "map boot_char src"] assms(1) by simp
  ultimately show ?thesis using w by (simp add: normalize_trim Let_def)
qed

lemma squeeze_clean:
  assumes "\<forall>i. Suc i < length cs \<longrightarrow> \<not> (cs ! i = 0x20 \<and> cs ! Suc i = 0x20)"
    and "p \<longrightarrow> cs = [] \<or> hd cs \<noteq> 0x20"
  shows "squeeze p cs = cs"
  using assms
proof (induction p cs rule: squeeze.induct)
  case (1 p)
  then show ?case by simp
next
  case (2 p c cs)
  have "\<forall>i. Suc i < length cs \<longrightarrow> \<not> (cs ! i = 0x20 \<and> cs ! Suc i = 0x20)"
    using "2.prems"(1) by (metis Suc_less_eq length_Cons nth_Cons_Suc)
  moreover have "c = 0x20 \<Longrightarrow> cs = [] \<or> hd cs \<noteq> 0x20"
    using "2.prems"(1) [rule_format, of 0] by (cases cs) auto
  ultimately show ?case using 2 by auto
qed

text \<open>Normalising a command line that was already normalised changes nothing.\<close>

theorem boot_args_idempotent:
  "normalize_boot_args (normalize_boot_args src) = normalize_boot_args src"
proof -
  define t where "t = normalize_boot_args src"
  have c: "clean_line t" "length t \<le> 1023" using normalize_clean by (simp_all add: t_def)
  have "map boot_char t = t"
    using c(1) by (intro map_idI) (auto simp: boot_char_def clean_line_def single_spaced_def)
  moreover have "squeeze True t = t"
    using c(1) by (intro squeeze_clean) (auto simp: clean_line_def single_spaced_def)
  moreover have "trim_trailing t = t"
    using c(1) by (subst trim_trailing.simps) (simp add: clean_line_def)
  ultimately have "normalize_boot_args t = t" using c by (simp add: normalize_trim clean_line_def)
  then show ?thesis by (simp add: t_def)
qed

theorem boot_args_words_witness:
  "words_of (normalize_boot_args [0x09, 0x2d, 0x76, 0x0a, 0x0a, 0x61]) = [[0x2d, 0x76], [0x61]]"
proof -
  have "words_of (map boot_char [0x09, 0x2d, 0x76, 0x0a, 0x0a, 0x61]) = [[0x2d, 0x76], [0x61]]"
    by (simp add: boot_char_def words_of.simps panthera_ascii_is_space_def)
  then show ?thesis
    using boot_args_words [of "[0x09, 0x2d, 0x76, 0x0a, 0x0a, 0x61]"] by simp
qed

section \<open>Console messages\<close>

lemma store_all_fits:
  "i + length vs \<le> length buffer \<Longrightarrow>
   store_all buffer i vs = Some (take i buffer @ vs @ drop (i + length vs) buffer)"
proof (induction vs arbitrary: i buffer)
  case Nil
  then show ?case by simp
next
  case (Cons v vs)
  then show ?case
    by (simp add: store_def take_Suc_conv_app_nth)
qed

lemma store_all_overflow:
  "length buffer < i + length vs \<Longrightarrow> i \<le> length buffer \<Longrightarrow> store_all buffer i vs = None"
proof (induction vs arbitrary: i buffer)
  case Nil
  then show ?case by simp
next
  case (Cons v vs)
  then show ?case by (auto simp: store_def)
qed

definition string_of :: "u16 list \<Rightarrow> u16 list" where
  "string_of buffer = takeWhile (\<lambda>c. c \<noteq> 0) buffer"

lemma string_of_stored:
  assumes "0 \<notin> set xs" and "length xs + 1 \<le> length buffer"
  shows "\<exists>b. store_all buffer 0 (xs @ [0]) = Some b \<and> string_of b = xs"
  using assms by (auto simp: store_all_fits string_of_def takeWhile_append2 takeWhile_tail)

lemma label_text_nonzero: "0 \<notin> set (label_text label)"
proof
  assume "0 \<in> set (label_text label)"
  then obtain c :: u8 where "c \<in> set (takeWhile (\<lambda>c. c \<noteq> 0) label)" "ucast c = (0 :: u16)"
    by (auto simp: label_text_def widen_def dest: in_set_takeD)
  moreover have "c = 0" if "ucast c = (0 :: u16)" for c :: u8
    using arg_cong [OF that, of unat] by (simp only: unat_ucast8 unsigned_0 unat_eq_zero)
  ultimately show False using set_takeWhileD by fastforce
qed


definition hex_digit_value :: "u16 \<Rightarrow> u64" where
  "hex_digit_value c = (if c < 0x3a then ucast (c - 0x30) else ucast (c - 0x57))"

definition hex_value :: "u16 list \<Rightarrow> u64" where
  "hex_value cs = foldl (\<lambda>a c. push_bit 4 a OR hex_digit_value c) 0 cs"

lemma hex_digit:
  assumes "n < 16"
  shows "hex_digit_value (hex_digits ! n) = of_nat n" and "hex_digits ! n \<noteq> 0"
proof -
  have "\<forall>k \<in> set [0..<16]. hex_digit_value (hex_digits ! k) = of_nat k \<and> hex_digits ! k \<noteq> 0"
    by (simp add: upt_conv_Cons hex_digits_def hex_digit_value_def)
  then show "hex_digit_value (hex_digits ! n) = of_nat n" and "hex_digits ! n \<noteq> 0"
    using assms by simp_all
qed

lemma nibble_less: "unat (v AND 0xf :: u64) < 16"
  using word_and_le1 [of v "0xf"] by (simp add: word_le_nat_alt)

lemma nibbles_join:
  "foldl (\<lambda>a k. push_bit 4 a OR (drop_bit ((n - 1 - k) * 4) v AND 0xf)) 0 [0..<n] = take_bit (4 * n) (v :: u64)"
proof (induction n arbitrary: v)
  case 0
  then show ?case by simp
next
  case (Suc n)
  have "foldl (\<lambda>a k. push_bit 4 a OR (drop_bit ((n - k) * 4) v AND 0xf)) 0 [0..<n] =
      foldl (\<lambda>a k. push_bit 4 a OR (drop_bit ((n - 1 - k) * 4) (drop_bit 4 v) AND 0xf)) 0 [0..<n]"
    by (intro foldl_cong) (auto simp: algebra_simps)
  also have "\<dots> = take_bit (4 * n) (drop_bit 4 v)" by (rule Suc.IH)
  finally have "foldl (\<lambda>a k. push_bit 4 a OR (drop_bit ((n - k) * 4) v AND 0xf)) 0 [0..<Suc n] =
      push_bit 4 (take_bit (4 * n) (drop_bit 4 v)) OR (v AND 0xf)" by simp
  also have "v AND 0xf = take_bit 4 v" by (simp add: take_bit_eq_mask mask_eq_exp_minus_1)
  also have "push_bit 4 (take_bit (4 * n) (drop_bit 4 v)) OR take_bit 4 v = take_bit (4 * Suc n) v"
    by (rule bit_eqI) (auto simp: bit_simps)
  finally show ?case by simp
qed

lemma hex_text_value: "hex_value (hex_text v) = v"
proof -
  have "hex_value (hex_text v) =
      foldl (\<lambda>a k. push_bit 4 a OR (drop_bit ((16 - 1 - k) * 4) v AND 0xf)) 0 [0..<16]"
    unfolding hex_value_def hex_text_def foldl_map
    by (intro foldl_cong) (simp_all add: hex_digit nibble_less)
  also have "\<dots> = take_bit 64 v" using nibbles_join [of 16 v] by simp
  finally show ?thesis by (simp add: take_bit_word_eq_self)
qed

lemma hex_text_nonzero: "0 \<notin> set (hex_text v)"
  using hex_digit(2) nibble_less by (auto simp: hex_text_def)


lemma length_hex_text [simp]: "length (hex_text v) = 16"
  by (simp add: hex_text_def)

text \<open>
  A hexadecimal console line with a label of at most 75 bytes stays inside its 96-entry buffer,
  and the text is the label, \<open>0x\<close>, sixteen digits whose value is the number, and the line end.
\<close>

theorem hex64_line:
  assumes "length buffer = 96" and "length (label_text label) \<le> 75"
  shows "\<exists>b. hex64_buffer buffer label value = Inr (Some b) \<and>
    string_of b = label_text label @ [0x30, 0x78] @ hex_text value @ [0x0d, 0x0a] \<and>
    hex_value (hex_text value) = value"
proof -
  have "0 \<notin> set (label_text label @ [0x30, 0x78] @ hex_text value @ [0x0d, 0x0a])"
    using label_text_nonzero hex_text_nonzero by simp
  then obtain b where "store_all buffer 0 ((label_text label @ [0x30, 0x78] @ hex_text value @ [0x0d, 0x0a]) @ [0]) = Some b"
    "string_of b = label_text label @ [0x30, 0x78] @ hex_text value @ [0x0d, 0x0a]"
    using string_of_stored [of "label_text label @ [0x30, 0x78] @ hex_text value @ [0x0d, 0x0a]" buffer] assms
    by auto
  then show ?thesis using assms(2) by (simp add: hex64_buffer_def hex_text_value)
qed

text \<open>
  The guard of the hexadecimal line is off by one: it rejects labels of 77 bytes and more, and a
  label of 76 bytes passes it although the terminator is then stored one entry behind the buffer.
\<close>

theorem hex64_overflow:
  assumes "length buffer = 96"
  shows "(length (label_text label) = 76 \<longrightarrow> hex64_buffer buffer label value = Inr None) \<and>
    (77 \<le> length (label_text label) \<longrightarrow> hex64_buffer buffer label value = Inl EFI_OUT_OF_RESOURCES)"
  using assms by (auto simp: hex64_buffer_def Let_def store_all_overflow)

definition dec_value :: "u16 list \<Rightarrow> nat" where
  "dec_value ds = foldr (\<lambda>d a. unat (d - 0x30) + 10 * a) ds 0"

lemma dec_value_append: "dec_value (xs @ ys) = dec_value xs + 10 ^ length xs * dec_value ys"
  by (induction xs) (simp_all add: dec_value_def algebra_simps)

lemma digit_loop_value:
  assumes "length ds \<le> 24" and "unat v < 10 ^ (24 - length ds)"
  shows "dec_value (digit_loop v ds) = dec_value ds + 10 ^ length ds * unat v"
  using assms
proof (induction v ds rule: digit_loop.induct)
  case (1 v ds)
  show ?case
  proof (cases "v \<noteq> 0 \<and> length ds < 24")
    case True
    have mod: "unat (v mod 10) < 10" "unat (v mod 10) = unat v mod 10" "unat (v div 10) = unat v div 10"
      by (simp_all add: unat_mod unat_div)
    have "unat (ucast (v mod 10) :: u16) = unat v mod 10"
      using mod by (simp add: unsigned_ucast_eq take_bit_nat_eq_self)
    then have d: "dec_value (ds @ [0x30 + ucast (v mod 10)]) = dec_value ds + 10 ^ length ds * (unat v mod 10)"
      by (simp add: dec_value_append) (simp add: dec_value_def)
    have alg: "a + p * i + 10 * p * d = a + p * (i + 10 * d)" for a p i d :: nat
      by (simp add: algebra_simps)
    have e: "24 - length ds = Suc (23 - length ds)" using True by arith
    have "unat v < 10 * 10 ^ (23 - length ds)"
      using "1.prems"(2) by (simp only: e power_Suc)
    then have "unat (v div 10) < 10 ^ (24 - length (ds @ [0x30 + ucast (v mod 10)]))"
      using mod by (simp add: less_mult_imp_div_less mult.commute)
    then have "dec_value (digit_loop (v div 10) (ds @ [0x30 + ucast (v mod 10)])) =
        dec_value ds + 10 ^ length ds * (unat v mod 10) + 10 * 10 ^ length ds * (unat v div 10)"
      using "1.IH" True d mod by simp
    also have "\<dots> = dec_value ds + 10 ^ length ds * (unat v mod 10 + 10 * (unat v div 10))"
      by (rule alg)
    finally show ?thesis using True by (subst digit_loop.simps) simp
  next
    case False
    then have "unat v = 0" using "1.prems" by (auto split: if_splits)
    then have "v = 0" by (simp only: unat_eq_zero)
    then show ?thesis by (subst digit_loop.simps) simp
  qed
qed


lemma digit_loop_length:
  assumes "unat v < 10 ^ n" and "length ds + n \<le> 24"
  shows "length (digit_loop v ds) \<le> length ds + n"
  using assms
proof (induction n arbitrary: v ds)
  case 0
  then have "v = 0" by (simp add: unat_eq_zero [symmetric])
  then show ?case by (subst digit_loop.simps) simp
next
  case (Suc n)
  have "unat (v div 10) < 10 ^ n"
    using Suc.prems(1) by (simp add: unat_div less_mult_imp_div_less mult.commute)
  then have "length (digit_loop (v div 10) (ds @ [0x30 + ucast (v mod 10)])) \<le> length ds + Suc n"
    using Suc.IH [of "v div 10" "ds @ [0x30 + ucast (v mod 10)]"] Suc.prems(2) by simp
  then show ?case by (subst digit_loop.simps) auto
qed

lemma decimal_digits_value:
  "dec_value (decimal_digits v) = unat v" "length (decimal_digits v) \<le> 20"
proof -
  have "unat v < 10 ^ 20" using unat_lt2p [of v] by simp
  then have "unat v < 10 ^ 24" "length (digit_loop v []) \<le> 20"
    using digit_loop_length [of v 20 "[]"] by simp_all
  then show "dec_value (decimal_digits v) = unat v" "length (decimal_digits v) \<le> 20"
    using digit_loop_value [of "[]" v] by (auto simp: decimal_digits_def dec_value_def)
qed

lemma digit_loop_nonzero: "0 \<notin> set ds \<Longrightarrow> 0 \<notin> set (digit_loop v ds)"
proof (induction v ds rule: digit_loop.induct)
  case (1 v ds)
  have "unat (v mod 10) < 10" by (simp add: unat_mod)
  then have "unat (ucast (v mod 10) :: u16) < 10" by (simp add: unsigned_ucast_eq take_bit_nat_eq_self)
  then have "unat (0x30 + ucast (v mod 10) :: u16) \<noteq> 0" by (simp add: unat_word_ariths)
  then have "0x30 + ucast (v mod 10) \<noteq> (0 :: u16)" by (metis unsigned_0)
  then show ?case using 1 by (subst digit_loop.simps) auto
qed

text \<open>
  A decimal console line whose label and digits take at most 93 entries stays inside its
  96-entry buffer, and the text is the label, the digits of the number, most significant first,
  and the line end. With more than 93 the line end or the terminator is stored behind the buffer.
\<close>

theorem uint64_line:
  assumes "length buffer = 96"
  shows "if length (label_text label) + length (decimal_digits value) \<le> 93
    then \<exists>b. uint64_buffer buffer label value = Some b \<and>
           string_of b = label_text label @ rev (decimal_digits value) @ [0x0d, 0x0a] \<and>
           dec_value (decimal_digits value) = unat value
    else uint64_buffer buffer label value = None"
proof -
  have nz: "0 \<notin> set (label_text label @ rev (decimal_digits value) @ [0x0d, 0x0a])"
    using label_text_nonzero digit_loop_nonzero [of "[]" "value"] by (simp add: decimal_digits_def)
  show ?thesis
  proof (cases "length (label_text label) + length (decimal_digits value) \<le> 93")
    case True
    then have "uint64_buffer buffer label value =
        store_all buffer 0 ((label_text label @ rev (decimal_digits value) @ [0x0d, 0x0a]) @ [0])"
      by (simp add: uint64_buffer_def Let_def)
    then show ?thesis
      using string_of_stored [OF nz, of buffer] True assms by (simp add: decimal_digits_value)
  next
    case False
    have "length (label_text label) \<le> 95" by (simp add: label_text_def widen_def)
    then show ?thesis
      using False assms by (auto simp: uint64_buffer_def Let_def intro!: store_all_overflow)
  qed
qed

definition demo_buffer :: "u16 list" where
  "demo_buffer = replicate 96 0"

theorem hex64_line_witness:
  "\<exists>b. hex64_buffer demo_buffer (bytes_of_string ''Kernel entry PC: '') 0x100040 = Inr (Some b) \<and>
    string_of b = label_text (bytes_of_string ''Kernel entry PC: '') @ [0x30, 0x78] @ hex_text 0x100040 @ [0x0d, 0x0a]"
  using hex64_line [of demo_buffer "bytes_of_string ''Kernel entry PC: ''" "0x100040"]
  by (auto simp: demo_buffer_def label_text_def widen_def bytes_of_string_def)

theorem hex64_overflow_witness:
  "hex64_buffer demo_buffer (replicate 76 0x41) 1 = Inr None"
  using hex64_overflow [of demo_buffer "replicate 76 0x41" 1]
  by (simp add: demo_buffer_def label_text_def widen_def takeWhile_replicate)

theorem uint64_line_witness:
  "\<exists>b. uint64_buffer demo_buffer (bytes_of_string ''Boot kext count: '') 34 = Some b \<and>
    string_of b = label_text (bytes_of_string ''Boot kext count: '') @ [0x33, 0x34] @ [0x0d, 0x0a]"
proof -
  have "decimal_digits 34 = [0x34, 0x33]" by (simp add: decimal_digits_def digit_loop.simps)
  then show ?thesis
    using uint64_line [of demo_buffer "bytes_of_string ''Boot kext count: ''" 34]
    by (auto simp: demo_buffer_def label_text_def widen_def bytes_of_string_def)
qed

end
