(* ===== verification/Boot_State.thy ===== *)
theory Boot_State
  imports Boot_Text Macho_Types "HOL-Library.State_Monad"
begin

text \<open>
  The state of the EFI boot loader (\<open>boot/efi/loader/src/bootx64.c\<close>) and its small services.
  The loader runs in the state monad over \<open>boot\<close>: the byte memory, the firmware's own state and one
  field per global variable of the file. The firmware is a parameter, the record \<open>firmware\<close> of the
  functions of \<open>panthera_uefi.h\<close> the loader calls; a function pointer the code tests for null is an
  option. The entry point dereferences the system table and the boot services without a test, so
  both are non-null throughout. A firmware call may change the memory and the firmware state, and
  nothing else.
\<close>

section \<open>Monad helpers\<close>

abbreviation ret :: "'a \<Rightarrow> ('s, 'a) state" where "ret \<equiv> State_Monad.return"

definition gets :: "('s \<Rightarrow> 'a) \<Rightarrow> ('s, 'a) state" where
  "gets f = State (\<lambda>s. (f s, s))"

definition modify :: "('s \<Rightarrow> 's) \<Rightarrow> ('s, unit) state" where
  "modify f = State (\<lambda>s. ((), f s))"

lemma run_gets [simp]: "run_state (gets f) s = (f s, s)"
  by (simp add: gets_def)

lemma run_modify [simp]: "run_state (modify f) s = ((), f s)"
  by (simp add: modify_def)

section \<open>Status codes and constants (panthera_uefi.h)\<close>

abbreviation EFI_SUCCESS :: u64 where "EFI_SUCCESS \<equiv> 0"
abbreviation EFI_BUFFER_TOO_SMALL :: u64 where "EFI_BUFFER_TOO_SMALL \<equiv> 0x8000000000000005"
abbreviation EFI_NOT_FOUND :: u64 where "EFI_NOT_FOUND \<equiv> 0x800000000000000e"

definition EFI_ERROR :: "u64 \<Rightarrow> bool" where
  "EFI_ERROR status \<longleftrightarrow> status AND 0x8000000000000000 \<noteq> 0"

abbreviation EFI_LOADER_DATA :: u32 where "EFI_LOADER_DATA \<equiv> 2"
abbreviation EFI_ALLOCATE_ANY_PAGES :: u32 where "EFI_ALLOCATE_ANY_PAGES \<equiv> 0"
abbreviation EFI_ALLOCATE_MAX_ADDRESS :: u32 where "EFI_ALLOCATE_MAX_ADDRESS \<equiv> 1"
abbreviation EFI_ALLOCATE_ADDRESS :: u32 where "EFI_ALLOCATE_ADDRESS \<equiv> 2"
abbreviation EFI_FILE_MODE_READ :: u64 where "EFI_FILE_MODE_READ \<equiv> 1"
abbreviation EFI_MEMORY_RUNTIME :: u64 where "EFI_MEMORY_RUNTIME \<equiv> 0x8000000000000000"

record EFI_GUID =
  Data1 :: u32
  Data2 :: u16
  Data3 :: u16
  Data4 :: "u8 list"

definition gEfiLoadedImageProtocolGuid :: EFI_GUID where
  "gEfiLoadedImageProtocolGuid = \<lparr>Data1 = 0x5b1b31a1, Data2 = 0x9562, Data3 = 0x11d2,
     Data4 = [0x8e, 0x3f, 0x00, 0xa0, 0xc9, 0x69, 0x72, 0x3b]\<rparr>"

definition gEfiSimpleFileSystemProtocolGuid :: EFI_GUID where
  "gEfiSimpleFileSystemProtocolGuid = \<lparr>Data1 = 0x964e5b22, Data2 = 0x6459, Data3 = 0x11d2,
     Data4 = [0x8e, 0x39, 0x00, 0xa0, 0xc9, 0x69, 0x72, 0x3b]\<rparr>"

definition gEfiFileInfoGuid :: EFI_GUID where
  "gEfiFileInfoGuid = \<lparr>Data1 = 0x09576e92, Data2 = 0x6d3f, Data3 = 0x11d2,
     Data4 = [0x8e, 0x39, 0x00, 0xa0, 0xc9, 0x69, 0x72, 0x3b]\<rparr>"

definition gEfiGraphicsOutputProtocolGuid :: EFI_GUID where
  "gEfiGraphicsOutputProtocolGuid = \<lparr>Data1 = 0x9042a9de, Data2 = 0x23dc, Data3 = 0x4a38,
     Data4 = [0x96, 0xfb, 0x7a, 0xde, 0xd0, 0x80, 0x51, 0x6a]\<rparr>"

section \<open>The firmware\<close>

text \<open>Each function takes its value arguments and the pair of memory and firmware state, and gives its
  status and output parameters with the new pair. Handles and protocol pointers are addresses.
  \<open>read_tsc\<close>, \<open>outb\<close> and \<open>outw\<close> are the processor's \<open>rdtsc\<close> and \<open>out\<close> instructions.\<close>

type_synonym ('w, 'a) service = "mem \<times> 'w \<Rightarrow> 'a \<times> (mem \<times> 'w)"

record 'w firmware =
  OutputString :: "(u16 list \<Rightarrow> ('w, u64) service) option"
  AllocatePages :: "(u32 \<Rightarrow> u32 \<Rightarrow> u64 \<Rightarrow> u64 \<Rightarrow> ('w, u64 \<times> u64) service) option"
  AllocatePool :: "(u32 \<Rightarrow> u64 \<Rightarrow> ('w, u64 \<times> u64) service) option"
  FreePool :: "(u64 \<Rightarrow> ('w, u64) service) option"
  GetMemoryMap :: "u64 \<Rightarrow> u64 \<Rightarrow> ('w, u64 \<times> u64 \<times> u64 \<times> u64 \<times> u32) service"
  HandleProtocol :: "(u64 \<Rightarrow> EFI_GUID \<Rightarrow> ('w, u64 \<times> u64) service) option"
  LocateProtocol :: "EFI_GUID \<Rightarrow> ('w, u64 \<times> u64) service"
  Stall :: "(u64 \<Rightarrow> ('w, u64) service) option"
  ExitBootServices :: "u64 \<Rightarrow> u64 \<Rightarrow> ('w, u64) service"
  OpenVolume :: "u64 \<Rightarrow> ('w, u64 \<times> u64) service"
  Open :: "u64 \<Rightarrow> u16 list \<Rightarrow> u64 \<Rightarrow> u64 \<Rightarrow> ('w, u64 \<times> u64) service"
  Close :: "u64 \<Rightarrow> ('w, u64) service"
  Read :: "u64 \<Rightarrow> u64 \<Rightarrow> u64 \<Rightarrow> ('w, u64 \<times> u64) service"
  GetInfo :: "u64 \<Rightarrow> EFI_GUID \<Rightarrow> u64 \<Rightarrow> u64 \<Rightarrow> ('w, u64 \<times> u64) service"
  read_tsc :: "('w, u64) service"
  outb :: "u16 \<Rightarrow> u8 \<Rightarrow> ('w, unit) service"
  outw :: "u16 \<Rightarrow> u16 \<Rightarrow> ('w, unit) service"

section \<open>Loader state (bootx64.c)\<close>

record PantheraDeviceTreeBuffer =
  dtb_paddr :: u32
  dtb_length :: u32

record PantheraBooterKextFileInfo =
  infoDictPhysAddr :: u32
  infoDictLength :: u32
  executablePhysAddr :: u32
  executableLength :: u32
  bundlePathPhysAddr :: u32
  bundlePathLength :: u32

record PantheraBootKextRecord =
  device_tree_buffer :: PantheraDeviceTreeBuffer
  driver_entry_name :: "u8 list"
  file_info_base :: u64
  info_dict_base :: u64
  executable_base :: u64
  bundle_path_base :: u64
  info_dict_size :: u64
  executable_size :: u64
  bundle_path_size :: u64

record 'w boot =
  bmem :: mem
  fw_state :: 'w
  gKernelImage :: PantheraKernelImage
  gKernelImageBase :: u64
  gKernelImageSize :: u64
  gKernelReservedSize :: u64
  gKernelTextBase :: u64
  gKernelEntryBase :: u64
  gKernelBootDataCursor :: u64
  gBootArgsBase :: u64
  gDeviceTreeBase :: u64
  gDeviceTreeSize :: u32
  gMemoryMapBase :: u64
  gMemoryMapCapacity :: u64
  gSystemTableBase :: u64
  gHandoffCodeBase :: u64
  gHandoffCodeSize :: u64
  gHandoffStackBase :: u64
  gBootKextCount :: u32
  gBootKextRecords :: "PantheraBootKextRecord list"
  gBootCommandLine :: "u8 list"
  gFSBFrequencyHz :: u64
  gGopFrameBufferBase :: u64
  gGopWidth :: u32
  gGopHeight :: u32
  gGopPixelsPerScanLine :: u32

abbreviation PANTHERA_HANDOFF_STACK_SIZE :: u64 where "PANTHERA_HANDOFF_STACK_SIZE \<equiv> 16384"
abbreviation PANTHERA_MEMORY_MAP_BUFFER_SIZE :: u64 where "PANTHERA_MEMORY_MAP_BUFFER_SIZE \<equiv> 1048576"
abbreviation PANTHERA_DEVICE_TREE_MAX_SIZE :: u64 where "PANTHERA_DEVICE_TREE_MAX_SIZE \<equiv> 65536"
abbreviation PANTHERA_MAX_BOOT_KEXTS :: nat where "PANTHERA_MAX_BOOT_KEXTS \<equiv> 34"
abbreviation PANTHERA_FSB_FREQUENCY_HZ :: u64 where "PANTHERA_FSB_FREQUENCY_HZ \<equiv> 100000000"
abbreviation PANTHERA_TSC_CALIBRATION_USEC :: u64 where "PANTHERA_TSC_CALIBRATION_USEC \<equiv> 100000"
abbreviation PANTHERA_MIN_CALIBRATED_FREQUENCY_HZ :: u64 where
  "PANTHERA_MIN_CALIBRATED_FREQUENCY_HZ \<equiv> 10000000"
abbreviation PANTHERA_MAX_CALIBRATED_FREQUENCY_HZ :: u64 where
  "PANTHERA_MAX_CALIBRATED_FREQUENCY_HZ \<equiv> 10000000000"
abbreviation PANTHERA_BOOTSTRAP_MAP_LIMIT :: u64 where "PANTHERA_BOOTSTRAP_MAP_LIMIT \<equiv> 0x3e800000"
abbreviation PANTHERA_BOOTSTRAP_ALLOC_MAX_ADDRESS :: u64 where
  "PANTHERA_BOOTSTRAP_ALLOC_MAX_ADDRESS \<equiv> PANTHERA_BOOTSTRAP_MAP_LIMIT - 1"

definition call :: "('w, 'a) service \<Rightarrow> ('w boot, 'a) state" where
  "call f = State (\<lambda>s. case f (bmem s, fw_state s) of (a, m, w) \<Rightarrow> (a, s\<lparr>bmem := m, fw_state := w\<rparr>))"

lemma run_call [simp]:
  "run_state (call f) s = (case f (bmem s, fw_state s) of (a, m, w) \<Rightarrow> (a, s\<lparr>bmem := m, fw_state := w\<rparr>))"
  by (simp add: call_def)

definition modify_mem :: "(mem \<Rightarrow> mem) \<Rightarrow> ('w boot, unit) state" where
  "modify_mem f = modify (\<lambda>s. s\<lparr>bmem := f (bmem s)\<rparr>)"

lemma run_modify_mem [simp]: "run_state (modify_mem f) s = ((), s\<lparr>bmem := f (bmem s)\<rparr>)"
  by (simp add: modify_mem_def)

section \<open>Console\<close>

definition console_write :: "'w firmware \<Rightarrow> u16 list \<Rightarrow> ('w boot, u64) state" where
  "console_write fw msg = (case OutputString fw of None \<Rightarrow> ret EFI_SUCCESS | Some f \<Rightarrow> call (f msg))"

text \<open>A store outside the message buffer is not reached with the labels of this program;
  the branch for it reports a failure.\<close>

definition console_write_ascii :: "'w firmware \<Rightarrow> u8 list \<Rightarrow> ('w boot, u64) state" where
  "console_write_ascii fw msg =
     (case ascii_buffer (replicate 192 0) msg of
        Some buffer \<Rightarrow> console_write fw (string_of buffer)
      | None \<Rightarrow> ret EFI_OUT_OF_RESOURCES)"

text \<open>A wide string constant, and one ending in a line break.\<close>

definition wide :: "string \<Rightarrow> u16 list" where
  "wide msg = map (\<lambda>c. of_nat (of_char c)) msg"

abbreviation wide_line :: "string \<Rightarrow> u16 list" where
  "wide_line msg \<equiv> wide msg @ [0x0d, 0x0a]"

definition console_write_hex64 :: "'w firmware \<Rightarrow> string \<Rightarrow> u64 \<Rightarrow> ('w boot, u64) state" where
  "console_write_hex64 fw label v =
     (case hex64_buffer (replicate 96 0) (bytes_of_string label) v of
        Inl status \<Rightarrow> ret status
      | Inr (Some buffer) \<Rightarrow> console_write fw (string_of buffer)
      | Inr None \<Rightarrow> ret EFI_OUT_OF_RESOURCES)"

definition console_write_uint64 :: "'w firmware \<Rightarrow> string \<Rightarrow> u64 \<Rightarrow> ('w boot, u64) state" where
  "console_write_uint64 fw label v =
     (case uint64_buffer (replicate 96 0) (bytes_of_string label) v of
        Some buffer \<Rightarrow> console_write fw (string_of buffer)
      | None \<Rightarrow> ret EFI_OUT_OF_RESOURCES)"

definition panthera_calibrate_tsc_frequency :: "'w firmware \<Rightarrow> ('w boot, u64) state" where
  "panthera_calibrate_tsc_frequency fw =
     (case Stall fw of
        None \<Rightarrow> ret PANTHERA_FSB_FREQUENCY_HZ
      | Some stall \<Rightarrow> do {
          start \<leftarrow> call (read_tsc fw);
          status \<leftarrow> call (stall PANTHERA_TSC_CALIBRATION_USEC);
          if EFI_ERROR status then ret PANTHERA_FSB_FREQUENCY_HZ
          else do {
            stop \<leftarrow> call (read_tsc fw);
            if stop \<le> start then ret PANTHERA_FSB_FREQUENCY_HZ
            else
              let delta = stop - start;
                  frequency = (delta * 1000000) div PANTHERA_TSC_CALIBRATION_USEC
              in if frequency < PANTHERA_MIN_CALIBRATED_FREQUENCY_HZ \<or>
                    frequency > PANTHERA_MAX_CALIBRATED_FREQUENCY_HZ
                 then ret PANTHERA_FSB_FREQUENCY_HZ
                 else ret frequency
          }
        })"

section \<open>Memory services\<close>

definition panthera_handle_protocol :: "'w firmware \<Rightarrow> u64 \<Rightarrow> EFI_GUID \<Rightarrow> ('w boot, u64 \<times> u64) state" where
  "panthera_handle_protocol fw handle protocol =
     (case HandleProtocol fw of None \<Rightarrow> ret (EFI_NOT_FOUND, 0) | Some f \<Rightarrow> call (f handle protocol))"

definition panthera_allocate_pool :: "'w firmware \<Rightarrow> u64 \<Rightarrow> ('w boot, u64 \<times> u64) state" where
  "panthera_allocate_pool fw sz =
     (case AllocatePool fw of None \<Rightarrow> ret (EFI_OUT_OF_RESOURCES, 0) | Some f \<Rightarrow> call (f EFI_LOADER_DATA sz))"

definition page_count :: "u64 \<Rightarrow> u64" where
  "page_count sz = (sz + 4095) div 4096"

definition panthera_allocate_pages :: "'w firmware \<Rightarrow> u64 \<Rightarrow> u64 \<Rightarrow> ('w boot, u64 \<times> u64) state" where
  "panthera_allocate_pages fw sz address =
     (case AllocatePages fw of
        None \<Rightarrow> ret (EFI_OUT_OF_RESOURCES, address)
      | Some f \<Rightarrow> do {
          (status, address1) \<leftarrow> call (f EFI_ALLOCATE_MAX_ADDRESS EFI_LOADER_DATA (page_count sz)
             PANTHERA_BOOTSTRAP_ALLOC_MAX_ADDRESS);
          if \<not> EFI_ERROR status then ret (EFI_SUCCESS, address1)
          else call (f EFI_ALLOCATE_ANY_PAGES EFI_LOADER_DATA (page_count sz) 0)
        })"

definition panthera_allocate_pages_at :: "'w firmware \<Rightarrow> u64 \<Rightarrow> u64 \<Rightarrow> ('w boot, u64 \<times> u64) state" where
  "panthera_allocate_pages_at fw sz address =
     (case AllocatePages fw of
        None \<Rightarrow> ret (EFI_OUT_OF_RESOURCES, address)
      | Some f \<Rightarrow> call (f EFI_ALLOCATE_ADDRESS EFI_LOADER_DATA (page_count sz) address))"

definition panthera_free_pool :: "'w firmware \<Rightarrow> u64 \<Rightarrow> ('w boot, unit) state" where
  "panthera_free_pool fw buffer =
     (case FreePool fw of
        None \<Rightarrow> ret ()
      | Some f \<Rightarrow> if buffer \<noteq> 0 then do { _ \<leftarrow> call (f buffer); ret () } else ret ())"

text \<open>The copy loop goes forward byte by byte, also over overlapping ranges.\<close>

fun copy_bytes :: "mem \<Rightarrow> u64 \<Rightarrow> u64 \<Rightarrow> nat \<Rightarrow> mem" where
  "copy_bytes m dst src 0 = m"
| "copy_bytes m dst src (Suc left) = copy_bytes (m(dst := m src)) (dst + 1) (src + 1) left"

definition panthera_copy_memory :: "u64 \<Rightarrow> u64 \<Rightarrow> u64 \<Rightarrow> mem \<Rightarrow> mem" where
  "panthera_copy_memory dst src sz m = copy_bytes m dst src (unat sz)"

definition panthera_zero_memory :: "u64 \<Rightarrow> u64 \<Rightarrow> mem \<Rightarrow> mem" where
  "panthera_zero_memory dst sz m = wr_bytes m dst (replicate (unat sz) 0)"

definition panthera_align_4 :: "u64 \<Rightarrow> u64" where
  "panthera_align_4 v = (v + 3) AND (NOT 3)"

definition panthera_align_page :: "u64 \<Rightarrow> u64" where
  "panthera_align_page v = (v + 4095) AND (NOT 4095)"

definition panthera_allocate_buffer_pages :: "'w firmware \<Rightarrow> u64 \<Rightarrow> ('w boot, u64 \<times> u64) state" where
  "panthera_allocate_buffer_pages fw sz = do {
     (status, physical_base) \<leftarrow> panthera_allocate_pages fw sz 0;
     if EFI_ERROR status then ret (status, 0) else ret (EFI_SUCCESS, physical_base)
   }"

definition panthera_ensure_low32 :: "u64 \<Rightarrow> u64" where
  "panthera_ensure_low32 address = (if address > 0xffffffff then EFI_OUT_OF_RESOURCES else EFI_SUCCESS)"

section \<open>The kernel boot data area\<close>

definition panthera_allocate_kernel_boot_data_pages :: "'w firmware \<Rightarrow> u64 \<Rightarrow> ('w boot, u64 \<times> u64) state" where
  "panthera_allocate_kernel_boot_data_pages fw sz = do {
     cursor \<leftarrow> gets gKernelBootDataCursor;
     let aligned_size = panthera_align_page (if sz = 0 then 1 else sz);
     if cursor = 0 then ret (EFI_NOT_FOUND, 0)
     else do {
       (status, physical_base) \<leftarrow> panthera_allocate_pages_at fw aligned_size cursor;
       if EFI_ERROR status then ret (status, 0)
       else do {
         modify (\<lambda>s. s\<lparr>gKernelBootDataCursor := physical_base + aligned_size\<rparr>);
         modify (\<lambda>s. s\<lparr>gKernelReservedSize := gKernelBootDataCursor s - gKernelTextBase s\<rparr>);
         ret (EFI_SUCCESS, physical_base)
       }
     }
   }"

text \<open>The source is an object of the program outside the modelled memory (a string constant or a
  local struct), given by its bytes, so the copy stores those bytes.\<close>

definition panthera_copy_buffer_to_kernel_boot_data ::
  "'w firmware \<Rightarrow> u8 list \<Rightarrow> ('w boot, u64 \<times> u64) state" where
  "panthera_copy_buffer_to_kernel_boot_data fw src = do {
     let sz = of_nat (length src);
     (status, physical_base) \<leftarrow> panthera_allocate_kernel_boot_data_pages fw (if sz = 0 then 1 else sz);
     if EFI_ERROR status then ret (status, physical_base)
     else do {
       modify_mem (panthera_zero_memory physical_base (if sz = 0 then 1 else sz));
       modify_mem (\<lambda>m. wr_bytes m physical_base src);
       ret (EFI_SUCCESS, physical_base)
     }
   }"

definition panthera_copy_ascii_to_kernel_boot_data ::
  "'w firmware \<Rightarrow> u8 list \<Rightarrow> ('w boot, u64 \<times> u64 \<times> u64) state" where
  "panthera_copy_ascii_to_kernel_boot_data fw txt = do {
     let sz = of_nat (panthera_ascii_length txt) + 1;
     (status, physical_base) \<leftarrow> panthera_copy_buffer_to_kernel_boot_data fw (txt @ [0]);
     if EFI_ERROR status then ret (status, physical_base, 0) else ret (EFI_SUCCESS, physical_base, sz)
   }"

section \<open>What the services leave alone\<close>

text \<open>A program step is \<open>machine_only\<close> when it changes no global variable of the loader: only the
  memory and the firmware's state.\<close>

definition machine_only :: "('w boot, 'a) state \<Rightarrow> bool" where
  "machine_only p \<longleftrightarrow> (\<forall>s. \<exists>m w. snd (run_state p s) = s\<lparr>bmem := m, fw_state := w\<rparr>)"

named_theorems machine \<open>steps that change no global variable\<close>

lemma machine_only_run:
  assumes "machine_only p"
  obtains m w where "run_state p s = (fst (run_state p s), s\<lparr>bmem := m, fw_state := w\<rparr>)"
  using assms unfolding machine_only_def by (metis prod.collapse)

lemma machine_ret [machine]: "machine_only (ret a)"
proof -
  have "s = s\<lparr>bmem := bmem s, fw_state := fw_state s\<rparr>" for s :: "'w boot" by simp
  then show ?thesis unfolding machine_only_def by (metis run_state_return snd_conv)
qed

lemma machine_gets [machine]: "machine_only (gets f)"
proof -
  have "s = s\<lparr>bmem := bmem s, fw_state := fw_state s\<rparr>" for s :: "'w boot" by simp
  then show ?thesis unfolding machine_only_def by (metis run_gets snd_conv)
qed

lemma machine_call [machine]: "machine_only (call f)"
  unfolding machine_only_def by (auto split: prod.splits)

lemma machine_modify_mem [machine]: "machine_only (modify_mem f)"
proof -
  have "s\<lparr>bmem := m\<rparr> = s\<lparr>bmem := m, fw_state := fw_state s\<rparr>" for s :: "'w boot" and m by simp
  then show ?thesis unfolding machine_only_def by (metis run_modify_mem snd_conv)
qed

lemma machine_bind [machine]:
  assumes "machine_only p" and "\<And>a. machine_only (f a)"
  shows "machine_only (State_Monad.bind p f)"
  unfolding machine_only_def
proof
  fix s
  obtain m w where p: "run_state p s = (fst (run_state p s), s\<lparr>bmem := m, fw_state := w\<rparr>)"
    using assms(1) by (rule machine_only_run)
  obtain m' w' where "snd (run_state (f (fst (run_state p s))) (s\<lparr>bmem := m, fw_state := w\<rparr>)) =
      s\<lparr>bmem := m, fw_state := w\<rparr>\<lparr>bmem := m', fw_state := w'\<rparr>"
    using assms(2) unfolding machine_only_def by blast
  then have "snd (run_state (State_Monad.bind p f) s) = s\<lparr>bmem := m', fw_state := w'\<rparr>"
    by (subst run_state_bind, subst p) simp
  then show "\<exists>m w. snd (run_state (State_Monad.bind p f) s) = s\<lparr>bmem := m, fw_state := w\<rparr>" by blast
qed

lemma machine_if [machine]: "machine_only p \<Longrightarrow> machine_only q \<Longrightarrow> machine_only (if b then p else q)"
  by simp

lemma machine_prod [machine]: "(\<And>a b. machine_only (f a b)) \<Longrightarrow> machine_only (case x of (a, b) \<Rightarrow> f a b)"
  by (cases x) simp

lemma machine_option [machine]:
  "machine_only p \<Longrightarrow> (\<And>a. machine_only (f a)) \<Longrightarrow> machine_only (case x of None \<Rightarrow> p | Some a \<Rightarrow> f a)"
  by (cases x) simp_all

lemma machine_sum [machine]:
  "(\<And>a. machine_only (f a)) \<Longrightarrow> (\<And>a. machine_only (g a)) \<Longrightarrow> machine_only (case x of Inl a \<Rightarrow> f a | Inr a \<Rightarrow> g a)"
  by (cases x) simp_all

lemma machine_let [machine]: "(\<And>a. machine_only (f a)) \<Longrightarrow> machine_only (let a = x in f a)"
  by simp

lemma machine_console [machine]:
  "machine_only (console_write fw msg)" "machine_only (console_write_ascii fw txt)"
  "machine_only (console_write_hex64 fw label v)" "machine_only (console_write_uint64 fw label v)"
  by (simp_all add: console_write_def console_write_ascii_def console_write_hex64_def console_write_uint64_def
      machine)

lemma machine_services [machine]:
  "machine_only (panthera_calibrate_tsc_frequency fw)" "machine_only (panthera_handle_protocol fw h g)"
  "machine_only (panthera_allocate_pool fw sz)" "machine_only (panthera_allocate_pages fw sz a)"
  "machine_only (panthera_allocate_pages_at fw sz a)" "machine_only (panthera_free_pool fw a)"
  by (simp_all add: panthera_calibrate_tsc_frequency_def panthera_handle_protocol_def panthera_allocate_pool_def
      panthera_allocate_pages_def panthera_allocate_pages_at_def panthera_free_pool_def Let_def machine)

lemma machine_buffers [machine]:
  "machine_only (panthera_allocate_buffer_pages fw sz)"
  by (simp add: panthera_allocate_buffer_pages_def machine)

section \<open>Copying\<close>

lemma copy_bytes_disjoint:
  assumes "disjoint_ranges dst n src n" and "n \<le> 2 ^ 64"
  shows "copy_bytes m dst src n = wr_bytes m dst (rd_bytes m src n)"
  using assms
proof (induction n arbitrary: m dst src)
  case (Suc n)
  have dst: "\<not> in_range (src + 1) n dst"
    using Suc.prems in_range_sub [of 1 n "Suc n" src dst]
    by (auto simp: disjoint_ranges_def in_range_def)
  have "disjoint_ranges (dst + 1) n (src + 1) n"
    using Suc.prems(1) in_range_sub [of 1 n "Suc n"] unfolding disjoint_ranges_def by fastforce
  then have "copy_bytes (m(dst := m src)) (dst + 1) (src + 1) n =
      wr_bytes (m(dst := m src)) (dst + 1) (rd_bytes (m(dst := m src)) (src + 1) n)"
    using Suc.prems by (intro Suc.IH) auto
  moreover have "rd_bytes (m(dst := m src)) (src + 1) n = rd_bytes m (src + 1) n"
    using dst Suc.prems(2) by (intro rd_bytes_cong) (auto simp: mem_eq_on_def)
  ultimately show ?case by simp
qed simp

lemma copy_memory_disjoint:
  "disjoint_ranges dst (unat sz) src (unat sz) \<Longrightarrow>
   panthera_copy_memory dst src sz m = wr_bytes m dst (rd_bytes m src (unat sz))"
  unfolding panthera_copy_memory_def using unat_lt2p [of sz] by (intro copy_bytes_disjoint) auto

lemma zero_memory_apply:
  "panthera_zero_memory dst sz m x = (if in_range dst (unat sz) x then 0 else m x)"
  unfolding panthera_zero_memory_def using unat_lt2p [of sz]
  by (subst wr_bytes_apply) (auto simp: in_range_def)

section \<open>A concrete firmware\<close>

text \<open>A firmware that gives fixed addresses and no console, and the loader's initial state, for
  concrete runs.\<close>

definition demo_firmware :: "unit firmware" where
  "demo_firmware = \<lparr>OutputString = None,
     AllocatePages = Some (\<lambda>kind ty pages address st.
       ((EFI_SUCCESS, if kind = EFI_ALLOCATE_ADDRESS then address else 0x300000), st)),
     AllocatePool = Some (\<lambda>ty sz st. ((EFI_SUCCESS, 0x800000), st)),
     FreePool = None,
     GetMemoryMap = (\<lambda>sz buf st. ((EFI_SUCCESS, 0, 7, 48, 1), st)),
     HandleProtocol = None,
     LocateProtocol = (\<lambda>g st. ((EFI_NOT_FOUND, 0), st)),
     Stall = None,
     ExitBootServices = (\<lambda>h key st. (EFI_SUCCESS, st)),
     OpenVolume = (\<lambda>fs st. ((EFI_NOT_FOUND, 0), st)),
     Open = (\<lambda>root path mode attr st. ((EFI_NOT_FOUND, 0), st)),
     Close = (\<lambda>f st. (EFI_SUCCESS, st)),
     Read = (\<lambda>f sz buf st. ((EFI_NOT_FOUND, 0), st)),
     GetInfo = (\<lambda>f g sz buf st. ((EFI_NOT_FOUND, 0), st)),
     read_tsc = (\<lambda>st. (0, st)),
     outb = (\<lambda>port v st. ((), st)), outw = (\<lambda>port v st. ((), st))\<rparr>"

definition zero_kext_record :: PantheraBootKextRecord where
  "zero_kext_record = \<lparr>device_tree_buffer = \<lparr>dtb_paddr = 0, dtb_length = 0\<rparr>, driver_entry_name = [],
     file_info_base = 0, info_dict_base = 0, executable_base = 0, bundle_path_base = 0,
     info_dict_size = 0, executable_size = 0, bundle_path_size = 0\<rparr>"

definition initial_boot :: "'w \<Rightarrow> 'w boot" where
  "initial_boot w = \<lparr>bmem = (\<lambda>_. 0), fw_state = w, gKernelImage = zero_image, gKernelImageBase = 0,
     gKernelImageSize = 0, gKernelReservedSize = 0, gKernelTextBase = 0, gKernelEntryBase = 0,
     gKernelBootDataCursor = 0, gBootArgsBase = 0, gDeviceTreeBase = 0, gDeviceTreeSize = 0,
     gMemoryMapBase = 0, gMemoryMapCapacity = 0, gSystemTableBase = 0, gHandoffCodeBase = 0,
     gHandoffCodeSize = 0, gHandoffStackBase = 0, gBootKextCount = 0,
     gBootKextRecords = replicate 34 zero_kext_record,
     gBootCommandLine = PANTHERA_DEFAULT_BOOT_ARGS, gFSBFrequencyHz = PANTHERA_FSB_FREQUENCY_HZ,
     gGopFrameBufferBase = 0, gGopWidth = 0, gGopHeight = 0, gGopPixelsPerScanLine = 0\<rparr>"

end
