(* ===== verification/Boot_Files.thy ===== *)
theory Boot_Files
  imports Boot_State "HOL-Library.Multiset"
begin

text \<open>
  Reading files from the boot volume, \<open>boot/efi/loader/src/bootx64.c\<close>: \<open>panthera_load_kernel_file\<close>
  with all of its error exits, the kernel and boot-args lookups, and the copy of a file into the
  kernel boot data area. Struct fields of firmware objects are read from memory at their offsets in
  \<open>panthera_uefi.h\<close>. The main theorem is that no path leaks a file handle or a pool buffer.
\<close>

section \<open>The loader's file operations\<close>

definition wide_path :: "string list \<Rightarrow> u16 list" where
  "wide_path parts = concat (map (\<lambda>p. 0x5c # wide p) parts)"

definition ascii_path :: "string list \<Rightarrow> u8 list" where
  "ascii_path parts = concat (map (\<lambda>p. 0x5c # bytes_of_string p) parts)"

abbreviation offsetof_DeviceHandle :: u64 where "offsetof_DeviceHandle \<equiv> 24"
abbreviation offsetof_FileSize :: u64 where "offsetof_FileSize \<equiv> 8"

definition close_both :: "'w firmware \<Rightarrow> u64 \<Rightarrow> u64 \<Rightarrow> ('w boot, unit) state" where
  "close_both fw file root = do { _ \<leftarrow> call (Close fw file); _ \<leftarrow> call (Close fw root); ret () }"

text \<open>The part after the file is open: its information, its buffer and its bytes.\<close>

definition read_open_file :: "'w firmware \<Rightarrow> u64 \<Rightarrow> u64 \<Rightarrow> ('w boot, u64 \<times> u64 \<times> u64) state" where
  "read_open_file fw root file = do {
     (status, file_info_size) \<leftarrow> call (GetInfo fw file gEfiFileInfoGuid 0 0);
     if status \<noteq> EFI_BUFFER_TOO_SMALL \<or> file_info_size = 0 then do {
       close_both fw file root; ret (status, 0, 0) }
     else do {
       (status, file_info) \<leftarrow> panthera_allocate_pool fw file_info_size;
       if EFI_ERROR status then do { close_both fw file root; ret (status, 0, 0) }
       else do {
         (status, _) \<leftarrow> call (GetInfo fw file gEfiFileInfoGuid file_info_size file_info);
         if EFI_ERROR status then do {
           panthera_free_pool fw file_info; close_both fw file root; ret (status, 0, 0) }
         else do {
           file_size \<leftarrow> gets (\<lambda>s. rd64 (bmem s) (file_info + offsetof_FileSize));
           (status, file_buffer) \<leftarrow> panthera_allocate_pool fw file_size;
           if EFI_ERROR status then do {
             panthera_free_pool fw file_info; close_both fw file root; ret (status, 0, 0) }
           else do {
             (status, read_size) \<leftarrow> call (Read fw file file_size file_buffer);
             expected_size \<leftarrow> gets (\<lambda>s. rd64 (bmem s) (file_info + offsetof_FileSize));
             if EFI_ERROR status \<or> read_size \<noteq> expected_size then do {
               panthera_free_pool fw file_buffer; panthera_free_pool fw file_info;
               close_both fw file root; ret (EFI_NOT_FOUND, 0, 0) }
             else do {
               panthera_free_pool fw file_info; close_both fw file root;
               ret (EFI_SUCCESS, file_buffer, read_size) }
           }
         }
       }
     }
   }"

definition panthera_load_kernel_file ::
  "'w firmware \<Rightarrow> u64 \<Rightarrow> u16 list \<Rightarrow> ('w boot, u64 \<times> u64 \<times> u64) state" where
  "panthera_load_kernel_file fw image_handle path = do {
     (status, loaded_image) \<leftarrow> panthera_handle_protocol fw image_handle gEfiLoadedImageProtocolGuid;
     if EFI_ERROR status then ret (status, 0, 0)
     else do {
       device_handle \<leftarrow> gets (\<lambda>s. rd64 (bmem s) (loaded_image + offsetof_DeviceHandle));
       (status, file_system) \<leftarrow> panthera_handle_protocol fw device_handle gEfiSimpleFileSystemProtocolGuid;
       if EFI_ERROR status then ret (status, 0, 0)
       else do {
         (status, root) \<leftarrow> call (OpenVolume fw file_system);
         if EFI_ERROR status then ret (status, 0, 0)
         else do {
           (status, file) \<leftarrow> call (Open fw root path EFI_FILE_MODE_READ 0);
           if EFI_ERROR status then do { _ \<leftarrow> call (Close fw root); ret (status, 0, 0) }
           else read_open_file fw root file
         }
       }
     }
   }"

definition panthera_try_load_kernel :: "'w firmware \<Rightarrow> u64 \<Rightarrow> ('w boot, u64 \<times> u64 \<times> u64) state" where
  "panthera_try_load_kernel fw image_handle = do {
     (status, buffer, sz) \<leftarrow> panthera_load_kernel_file fw image_handle (wide_path [''mach_kernel'']);
     if \<not> EFI_ERROR status then do {
       _ \<leftarrow> console_write_ascii fw (bytes_of_string ''Loaded kernel path: '' @ ascii_path [''mach_kernel''] @ [0x0d, 0x0a]);
       ret (EFI_SUCCESS, buffer, sz) }
     else do {
       (status, buffer, sz) \<leftarrow> panthera_load_kernel_file fw image_handle (wide_path [''EFI'', ''PANTHERA'', ''kernel'']);
       if \<not> EFI_ERROR status then do {
         _ \<leftarrow> console_write_ascii fw
           (bytes_of_string ''Loaded kernel path: '' @ ascii_path [''EFI'', ''PANTHERA'', ''kernel''] @ [0x0d, 0x0a]);
         ret (EFI_SUCCESS, buffer, sz) }
       else ret (status, buffer, sz)
     }
   }"

definition panthera_load_boot_command_line :: "'w firmware \<Rightarrow> u64 \<Rightarrow> ('w boot, u64) state" where
  "panthera_load_boot_command_line fw image_handle = do {
     modify (\<lambda>s. s\<lparr>gBootCommandLine := panthera_copy_ascii BOOT_LINE_SIZE PANTHERA_DEFAULT_BOOT_ARGS\<rparr>);
     (status, file_buffer, file_size) \<leftarrow>
       panthera_load_kernel_file fw image_handle (wide_path [''EFI'', ''PANTHERA'', ''boot-args.txt'']);
     source_label \<leftarrow>
       (if \<not> EFI_ERROR status \<and> file_buffer \<noteq> 0 \<and> file_size \<noteq> 0 then do {
          src \<leftarrow> gets (\<lambda>s. rd_bytes (bmem s) file_buffer (unat file_size));
          modify (\<lambda>s. s\<lparr>gBootCommandLine := normalize_boot_args src\<rparr>);
          if trim_trailing (normalize_loop src [] True) = [] then ret (bytes_of_string ''built-in'')
          else ret (ascii_path [''EFI'', ''PANTHERA'', ''boot-args.txt''])
        } else ret (bytes_of_string ''built-in''));
     (if file_buffer \<noteq> 0 then panthera_free_pool fw file_buffer else ret ());
     _ \<leftarrow> console_write_ascii fw (bytes_of_string ''Boot args source: '');
     _ \<leftarrow> console_write_ascii fw source_label;
     _ \<leftarrow> console_write fw [0x0d, 0x0a];
     _ \<leftarrow> console_write_ascii fw (bytes_of_string ''Boot args: '');
     line \<leftarrow> gets gBootCommandLine;
     _ \<leftarrow> console_write_ascii fw line;
     _ \<leftarrow> console_write fw [0x0d, 0x0a];
     ret EFI_SUCCESS
   }"

definition panthera_load_file_to_pages ::
  "'w firmware \<Rightarrow> u64 \<Rightarrow> u16 list \<Rightarrow> u64 \<Rightarrow> ('w boot, u64 \<times> u64 \<times> u64) state" where
  "panthera_load_file_to_pages fw image_handle path trailing_zero_bytes = do {
     (status, pool_buffer, pool_size) \<leftarrow> panthera_load_kernel_file fw image_handle path;
     if EFI_ERROR status then ret (status, 0, 0)
     else do {
       let final_size = pool_size + trailing_zero_bytes;
       (status, page_buffer) \<leftarrow> panthera_allocate_kernel_boot_data_pages fw (if final_size = 0 then 1 else final_size);
       (if \<not> EFI_ERROR status then do {
          modify_mem (panthera_zero_memory page_buffer (if final_size = 0 then 1 else final_size));
          if pool_size \<noteq> 0 then modify_mem (panthera_copy_memory page_buffer pool_buffer pool_size) else ret ()
        } else ret ());
       panthera_free_pool fw pool_buffer;
       if EFI_ERROR status then ret (status, page_buffer, 0)
       else
         let status = panthera_ensure_low32 page_buffer in
         if EFI_ERROR status then ret (status, page_buffer, 0)
         else ret (EFI_SUCCESS, page_buffer, final_size)
     }
   }"

section \<open>Triples\<close>

definition triple :: "('s \<Rightarrow> bool) \<Rightarrow> ('s, 'a) state \<Rightarrow> ('a \<Rightarrow> 's \<Rightarrow> bool) \<Rightarrow> bool" where
  "triple P p Q \<longleftrightarrow> (\<forall>s. P s \<longrightarrow> Q (fst (run_state p s)) (snd (run_state p s)))"

lemma triple_ret: "(\<And>s. P s \<Longrightarrow> Q a s) \<Longrightarrow> triple P (ret a) Q"
  by (simp add: triple_def)

lemma triple_gets: "triple P (gets f) (\<lambda>_. P)"
  by (simp add: triple_def)

lemma triple_bind: "triple P p R \<Longrightarrow> (\<And>a. triple (R a) (f a) Q) \<Longrightarrow> triple P (State_Monad.bind p f) Q"
  by (auto simp: triple_def split: prod.splits)

lemma triple_if: "(b \<Longrightarrow> triple P p Q) \<Longrightarrow> (\<not> b \<Longrightarrow> triple P q Q) \<Longrightarrow> triple P (if b then p else q) Q"
  by simp

lemma triple_weaken: "triple P p R \<Longrightarrow> (\<And>a s. R a s \<Longrightarrow> Q a s) \<Longrightarrow> triple P p Q"
  by (simp add: triple_def)

lemma triple_bind_pair:
  "triple P p R \<Longrightarrow> (\<And>a b. triple (R (a, b)) (f a b) Q) \<Longrightarrow> triple P (State_Monad.bind p (\<lambda>(a, b). f a b)) Q"
  by (rule triple_bind) auto

lemma triple_false: "triple (\<lambda>s. False) p Q"
  by (simp add: triple_def)

lemma triple_assume: "(b \<Longrightarrow> triple P p Q) \<Longrightarrow> triple (\<lambda>s. b \<and> P s) p Q"
  by (auto simp: triple_def)

section \<open>Handles and buffers\<close>

text \<open>What the firmware documents of its handles and pool buffers, for two observers of its state:
  the open handles and the allocated buffers.\<close>

definition keeps :: "('w \<Rightarrow> u64 multiset) \<Rightarrow> ('w \<Rightarrow> u64 multiset) \<Rightarrow> ('w, 'a) service \<Rightarrow> bool" where
  "keeps handles pool f \<longleftrightarrow> (\<forall>m w a m' w'. f (m, w) = (a, m', w') \<longrightarrow> handles w' = handles w \<and> pool w' = pool w)"

definition opens :: "('w \<Rightarrow> u64 multiset) \<Rightarrow> ('w \<Rightarrow> u64 multiset) \<Rightarrow> ('w, u64 \<times> u64) service \<Rightarrow> bool" where
  "opens handles pool f \<longleftrightarrow> (\<forall>m w st h m' w'. f (m, w) = ((st, h), m', w') \<longrightarrow>
     handles w' = (if EFI_ERROR st then handles w else add_mset h (handles w)) \<and> pool w' = pool w)"

definition allocates :: "('w \<Rightarrow> u64 multiset) \<Rightarrow> ('w \<Rightarrow> u64 multiset) \<Rightarrow> ('w, u64 \<times> u64) service \<Rightarrow> bool" where
  "allocates handles pool f \<longleftrightarrow> (\<forall>m w st b m' w'. f (m, w) = ((st, b), m', w') \<longrightarrow>
     handles w' = handles w \<and>
     (if EFI_ERROR st then pool w' = pool w else b \<noteq> 0 \<and> pool w' = add_mset b (pool w)))"

definition tracks :: "'w firmware \<Rightarrow> ('w \<Rightarrow> u64 multiset) \<Rightarrow> ('w \<Rightarrow> u64 multiset) \<Rightarrow> bool" where
  "tracks fw handles pool \<longleftrightarrow>
     (\<forall>fs. opens handles pool (OpenVolume fw fs)) \<and>
     (\<forall>r p k a. opens handles pool (Open fw r p k a)) \<and>
     (\<forall>h m w a m' w'. Close fw h (m, w) = (a, m', w') \<longrightarrow> handles w' = handles w - {#h#} \<and> pool w' = pool w) \<and>
     (\<forall>f t z. AllocatePool fw = Some f \<longrightarrow> allocates handles pool (f t z)) \<and>
     (\<exists>f. FreePool fw = Some f \<and> (\<forall>b m w a m' w'. f b (m, w) = (a, m', w') \<longrightarrow>
        handles w' = handles w \<and> pool w' = pool w - {#b#})) \<and>
     (\<forall>f g z b. keeps handles pool (GetInfo fw f g z b)) \<and>
     (\<forall>f z b. keeps handles pool (Read fw f z b)) \<and>
     (\<forall>f h g. HandleProtocol fw = Some f \<longrightarrow> keeps handles pool (f h g))"

definition holds :: "('w \<Rightarrow> u64 multiset) \<Rightarrow> ('w \<Rightarrow> u64 multiset) \<Rightarrow> u64 multiset \<Rightarrow> u64 multiset \<Rightarrow> 'w boot \<Rightarrow> bool" where
  "holds handles pool H P s \<longleftrightarrow> handles (fw_state s) = H \<and> pool (fw_state s) = P"

lemma triple_keeps:
  "keeps handles pool f \<Longrightarrow> triple (holds handles pool H P) (call f) (\<lambda>_. holds handles pool H P)"
  by (auto simp: triple_def keeps_def holds_def split: prod.splits)

lemma triple_opens:
  "opens handles pool f \<Longrightarrow> triple (holds handles pool H P) (call f)
     (\<lambda>(st, h). holds handles pool (if EFI_ERROR st then H else add_mset h H) P)"
  by (fastforce simp: triple_def opens_def holds_def split: prod.splits)

lemma triple_pool:
  assumes "tracks fw handles pool"
  shows "triple (holds handles pool H P) (panthera_allocate_pool fw z)
    (\<lambda>(st, b) s. if EFI_ERROR st then holds handles pool H P s else b \<noteq> 0 \<and> holds handles pool H (add_mset b P) s)"
proof (cases "AllocatePool fw")
  case None
  then show ?thesis by (simp add: panthera_allocate_pool_def triple_def EFI_ERROR_def)
next
  case (Some f)
  then have "allocates handles pool (f EFI_LOADER_DATA z)" using assms by (simp add: tracks_def)
  then show ?thesis
    using Some
    by (fastforce simp: panthera_allocate_pool_def triple_def allocates_def holds_def split: prod.splits)
qed

lemma triple_free:
  assumes "tracks fw handles pool" and "b \<noteq> 0"
  shows "triple (holds handles pool H (add_mset b P)) (panthera_free_pool fw b) (\<lambda>_. holds handles pool H P)"
proof -
  obtain f where "FreePool fw = Some f" "\<And>b m w a m' w'. f b (m, w) = (a, m', w') \<Longrightarrow>
      handles w' = handles w \<and> pool w' = pool w - {#b#}"
    using assms(1) by (auto simp: tracks_def)
  then show ?thesis
    using assms(2)
    by (fastforce simp: panthera_free_pool_def triple_def holds_def split: prod.splits)
qed

lemma triple_close:
  assumes "tracks fw handles pool"
  shows "triple (holds handles pool (add_mset h H) P) (call (Close fw h)) (\<lambda>_. holds handles pool H P)"
proof -
  have "Close fw h (m, w) = (a, m', w') \<Longrightarrow> handles w' = handles w - {#h#} \<and> pool w' = pool w" for m w a m' w'
    using assms by (simp add: tracks_def)
  then show ?thesis by (fastforce simp: triple_def holds_def split: prod.splits)
qed

lemma triple_close_both:
  assumes "tracks fw handles pool"
  shows "triple (holds handles pool (add_mset f (add_mset r H)) P) (close_both fw f r) (\<lambda>_. holds handles pool H P)"
  unfolding close_both_def
  by (intro triple_bind [OF triple_close [OF assms]] triple_ret)

text \<open>The result of the file operations: the handles are as before, and the pool has one more buffer
  exactly when one is returned.\<close>

definition file_result ::
  "('w \<Rightarrow> u64 multiset) \<Rightarrow> ('w \<Rightarrow> u64 multiset) \<Rightarrow> u64 multiset \<Rightarrow> u64 multiset \<Rightarrow> u64 \<times> u64 \<times> u64 \<Rightarrow> 'w boot \<Rightarrow> bool" where
  "file_result handles pool H P r s \<longleftrightarrow> (case r of (st, b, sz) \<Rightarrow>
     (EFI_ERROR st \<longrightarrow> b = 0) \<and> holds handles pool H (if b = 0 then P else add_mset b P) s)"

lemma triple_exit:
  assumes "tracks fw handles pool"
  shows "triple (holds handles pool (add_mset f (add_mset r H)) P)
      (State_Monad.bind (close_both fw f r) (\<lambda>_. ret (st, 0, 0))) (file_result handles pool H P)"
  by (rule triple_bind [OF triple_close_both [OF assms]], rule triple_ret) (simp add: file_result_def)

lemma triple_free_exit:
  assumes "tracks fw handles pool" and "i \<noteq> 0"
  shows "triple (holds handles pool (add_mset f (add_mset r H)) (add_mset i P))
      (State_Monad.bind (panthera_free_pool fw i) (\<lambda>_. State_Monad.bind (close_both fw f r) (\<lambda>_. ret (st, 0, 0))))
      (file_result handles pool H P)"
  by (rule triple_bind [OF triple_free [OF assms]], rule triple_exit [OF assms(1)])

lemma read_bytes_result:
  assumes t: "tracks fw handles pool" and "i \<noteq> 0" and "b \<noteq> 0"
  shows "triple (holds handles pool (add_mset f (add_mset r H)) (add_mset b (add_mset i P)))
    (do { (status, read_size) \<leftarrow> call (Read fw f z b);
          expected_size \<leftarrow> gets e;
          if EFI_ERROR status \<or> read_size \<noteq> expected_size then do {
            panthera_free_pool fw b; panthera_free_pool fw i; close_both fw f r; ret (EFI_NOT_FOUND, 0, 0) }
          else do { panthera_free_pool fw i; close_both fw f r; ret (EFI_SUCCESS, b, read_size) } })
    (file_result handles pool H P)"
proof -
  have swap: "add_mset b (add_mset i P) = add_mset i (add_mset b P)" by simp
  have keep: "keeps handles pool (Read fw f z b)" using t by (simp add: tracks_def)
  have success: "triple (holds handles pool (add_mset f (add_mset r H)) (add_mset b (add_mset i P)))
     (do { panthera_free_pool fw i; close_both fw f r; ret (EFI_SUCCESS, b, n) }) (file_result handles pool H P)" for n
    unfolding swap
    by (rule triple_bind [OF triple_free [OF t assms(2)]], rule triple_bind [OF triple_close_both [OF t]],
        rule triple_ret) (simp add: file_result_def EFI_ERROR_def assms(3))
  show ?thesis
    by (rule triple_bind_pair [OF triple_keeps [OF keep]], rule triple_bind [OF triple_gets],
        rule triple_if, rule triple_bind [OF triple_free [OF t assms(3)]], rule triple_free_exit [OF t assms(2)],
        rule success)
qed

lemma read_open_file_result:
  assumes t: "tracks fw handles pool"
  shows "triple (holds handles pool (add_mset file (add_mset root H)) P) (read_open_file fw root file)
    (file_result handles pool H P)"
proof -
  have info: "keeps handles pool (GetInfo fw file g z b)" for g z b using t by (simp add: tracks_def)
  show ?thesis
    unfolding read_open_file_def
    apply (rule triple_bind_pair [OF triple_keeps [OF info]], rule triple_if, rule triple_exit [OF t])
    apply (rule triple_bind_pair [OF triple_pool [OF t]], rule triple_if, simp, rule triple_exit [OF t])
    apply (simp, rule triple_assume, rule triple_bind_pair [OF triple_keeps [OF info]], rule triple_if,
        rule triple_free_exit [OF t], assumption)
    apply (rule triple_bind [OF triple_gets])
    apply (rule triple_bind_pair [OF triple_pool [OF t]], rule triple_if, simp, rule triple_free_exit [OF t], assumption)
    apply (simp, rule triple_assume, rule read_bytes_result [OF t], assumption, assumption)
    done
qed

text \<open>
  C26. Loading a file leaks nothing: on every path, success or error, all handles opened on the way
  are closed again, the information buffer is freed, and the pool holds one buffer more exactly
  when a buffer is returned; an error returns none.
\<close>

theorem load_file_no_leak:
  assumes t: "tracks fw handles pool"
    and run: "run_state (panthera_load_kernel_file fw image_handle path) s = ((status, buffer, sz), s')"
  shows "handles (fw_state s') = handles (fw_state s) \<and>
    pool (fw_state s') = (if buffer = 0 then pool (fw_state s) else add_mset buffer (pool (fw_state s))) \<and>
    (EFI_ERROR status \<longrightarrow> buffer = 0)"
proof -
  let ?H = "handles (fw_state s)" and ?P = "pool (fw_state s)"
  have proto: "triple (holds handles pool H P) (panthera_handle_protocol fw h g) (\<lambda>_. holds handles pool H P)" for H P h g
  proof (cases "HandleProtocol fw")
    case None
    then show ?thesis by (simp add: panthera_handle_protocol_def triple_def)
  next
    case (Some f)
    then have "keeps handles pool (f h g)" using t by (simp add: tracks_def)
    then show ?thesis using Some triple_keeps by (simp add: panthera_handle_protocol_def)
  qed
  have vol: "opens handles pool (OpenVolume fw fs)" and op: "opens handles pool (Open fw r p k a)" for fs r p k a
    using t by (auto simp: tracks_def)
  have "triple (holds handles pool ?H ?P) (panthera_load_kernel_file fw image_handle path) (file_result handles pool ?H ?P)"
    unfolding panthera_load_kernel_file_def
    apply (rule triple_bind_pair [OF proto], rule triple_if, rule triple_ret, simp add: file_result_def)
    apply (rule triple_bind [OF triple_gets])
    apply (rule triple_bind_pair [OF proto], rule triple_if, rule triple_ret, simp add: file_result_def)
    apply (rule triple_bind_pair [OF triple_opens [OF vol]], rule triple_if, rule triple_ret, simp add: file_result_def)
    apply (simp, rule triple_bind_pair [OF triple_opens [OF op]], rule triple_if, simp,
        rule triple_bind [OF triple_close [OF t]], rule triple_ret, simp add: file_result_def)
    apply (simp, rule read_open_file_result [OF t])
    done
  then show ?thesis using run by (auto simp: triple_def holds_def file_result_def)
qed


section \<open>A concrete file system\<close>

text \<open>A firmware whose state is the pair of open handles and allocated buffers.\<close>

definition tracking_firmware :: "(u64 multiset \<times> u64 multiset) firmware" where
  "tracking_firmware = \<lparr>OutputString = None,
     AllocatePages = Some (\<lambda>kind ty pages address st. ((EFI_SUCCESS, address), st)),
     AllocatePool = Some (\<lambda>ty sz (m, h, p). ((EFI_SUCCESS, 0x800000), (m, h, add_mset 0x800000 p))),
     FreePool = Some (\<lambda>b (m, h, p). (EFI_SUCCESS, (m, h, p - {#b#}))),
     GetMemoryMap = (\<lambda>sz buf st. ((EFI_SUCCESS, 0, 7, 48, 1), st)),
     HandleProtocol = Some (\<lambda>h g st. ((EFI_SUCCESS, 0x9000), st)),
     LocateProtocol = (\<lambda>g st. ((EFI_NOT_FOUND, 0), st)),
     Stall = None,
     ExitBootServices = (\<lambda>h key st. (EFI_SUCCESS, st)),
     OpenVolume = (\<lambda>fs (m, h, p). ((EFI_SUCCESS, 0x11), (m, add_mset 0x11 h, p))),
     Open = (\<lambda>root path mode attr (m, h, p). ((EFI_SUCCESS, 0x12), (m, add_mset 0x12 h, p))),
     Close = (\<lambda>f (m, h, p). (EFI_SUCCESS, (m, h - {#f#}, p))),
     Read = (\<lambda>f sz buf st. ((EFI_SUCCESS, sz), st)),
     GetInfo = (\<lambda>f g sz buf st. ((if sz = 0 then EFI_BUFFER_TOO_SMALL else EFI_SUCCESS, 80), st)),
     read_tsc = (\<lambda>st. (0, st)),
     outb = (\<lambda>port v st. ((), st)), outw = (\<lambda>port v st. ((), st))\<rparr>"

lemma tracking_firmware_tracks: "tracks tracking_firmware fst snd"
  by (simp add: tracks_def tracking_firmware_def opens_def allocates_def keeps_def EFI_ERROR_def)

theorem load_file_no_leak_witness:
  "\<exists>s'. run_state (panthera_load_kernel_file tracking_firmware 1 (wide_path [''mach_kernel''])) (initial_boot ({#}, {#})) =
     ((EFI_SUCCESS, 0x800000, 0), s') \<and> fw_state s' = ({#}, {#0x800000#})"
proof -
  obtain s' where run: "run_state (panthera_load_kernel_file tracking_firmware 1 (wide_path [''mach_kernel'']))
      (initial_boot ({#}, {#})) = ((EFI_SUCCESS, 0x800000, 0), s')"
    by (simp add: panthera_load_kernel_file_def read_open_file_def close_both_def panthera_handle_protocol_def
        panthera_allocate_pool_def panthera_free_pool_def tracking_firmware_def EFI_ERROR_def initial_boot_def eval_mem)
  have "fst (fw_state s') = {#}" "snd (fw_state s') = {#0x800000#}"
    using load_file_no_leak [OF tracking_firmware_tracks run] by (simp_all add: initial_boot_def)
  then show ?thesis using run by (metis prod.collapse)
qed

end
