(* ===== verification/Boot_Kernel.thy ===== *)
theory Boot_Kernel
  imports Boot_Files Macho_Slide
begin

text \<open>
  Staging of the kernel image, \<open>panthera_stage_kernel_image\<close> of \<open>boot/efi/loader/src/bootx64.c\<close> and its
  helpers: the segment search, the physical address of a segment, the patching of the start-up code's
  immediates, and the entry address. The rebase and slide passes are those of \<open>Macho_Rebase\<close> and
  \<open>Macho_Slide\<close>, run on the loader's memory. The theorems show what the copied image holds, which
  bytes the patches change, and where the entry lies.
\<close>

section \<open>Segments\<close>

text \<open>The comparison stops at a difference, at the terminator or after sixteen characters.\<close>

fun segment_name_matches :: "u8 list \<Rightarrow> u8 list \<Rightarrow> nat \<Rightarrow> nat \<Rightarrow> bool" where
  "segment_name_matches seg name name_index 0 = True"
| "segment_name_matches seg name name_index (Suc left) =
     (let a = cstr_at seg name_index; b = cstr_at name name_index in
      if a \<noteq> b then False
      else if a = 0 then True
      else segment_name_matches seg name (Suc name_index) left)"

definition panthera_find_segment :: "PantheraKernelImage \<Rightarrow> u8 list \<Rightarrow> PantheraKernelSegment option" where
  "panthera_find_segment k name = find (\<lambda>s. segment_name_matches (segname s) name 0 16) (active_segments k)"

definition panthera_segment_physical_base :: "PantheraKernelImage \<Rightarrow> u64 \<Rightarrow> PantheraKernelSegment \<Rightarrow> u64" where
  "panthera_segment_physical_base k image_base s = image_base + (vmaddr s - lowest_vmaddr k)"

section \<open>Start-up code patches\<close>

definition panthera_patch_u32_imm ::
  "u64 \<Rightarrow> u64 \<Rightarrow> u8 \<Rightarrow> u32 \<Rightarrow> u32 \<Rightarrow> mem \<Rightarrow> u64 \<times> mem" where
  "panthera_patch_u32_imm image_base opcode_offset expected_opcode expected_value patched_value m =
     (let opcode = image_base + opcode_offset; imm = opcode + 1 in
      if m opcode \<noteq> expected_opcode \<or> rd32 m imm \<noteq> expected_value then (EFI_NOT_FOUND, m)
      else (EFI_SUCCESS, wr32 m imm patched_value))"

definition panthera_patch_u32_value :: "u64 \<Rightarrow> u64 \<Rightarrow> u32 \<Rightarrow> u32 \<Rightarrow> mem \<Rightarrow> u64 \<times> mem" where
  "panthera_patch_u32_value image_base value_offset expected_value patched_value m =
     (let val = image_base + value_offset in
      if rd32 m val \<noteq> expected_value then (EFI_NOT_FOUND, m)
      else (EFI_SUCCESS, wr32 m val patched_value))"

text \<open>The calls in order: an immediate after an opcode byte, or a plain value; each adds \<open>delta\<close>.\<close>

datatype hib_patch = Imm u64 u8 u32 | Val u64 u32

definition hib_patches :: "u32 \<Rightarrow> hib_patch list" where
  "hib_patches linked_base = [
     Imm 2 0xbc 0x00199000, Imm 7 0xb8 0x00101040, Imm 15 0xb8 0x00105000, Imm 28 0xba 0x00106000,
     Imm 66 0xb8 0x00105000, Imm 85 0xea (linked_base + 0x5c),
     Val 0x1042 0x00139000, Val 0x99002 0x00139000]"

fun apply_patch :: "u64 \<Rightarrow> u32 \<Rightarrow> hib_patch \<Rightarrow> mem \<Rightarrow> u64 \<times> mem" where
  "apply_patch image_base delta (Imm off opcode v) m = panthera_patch_u32_imm image_base off opcode v (v + delta) m"
| "apply_patch image_base delta (Val off v) m = panthera_patch_u32_value image_base off v (v + delta) m"

fun apply_patches :: "u64 \<Rightarrow> u32 \<Rightarrow> hib_patch list \<Rightarrow> mem \<Rightarrow> u64 \<times> mem" where
  "apply_patches image_base delta [] m = (EFI_SUCCESS, m)"
| "apply_patches image_base delta (p # ps) m =
     (case apply_patch image_base delta p m of
        (status, m') \<Rightarrow> if EFI_ERROR status then (status, m') else apply_patches image_base delta ps m')"

definition panthera_patch_hib_startup_immediates :: "PantheraKernelImage \<Rightarrow> u64 \<Rightarrow> mem \<Rightarrow> u64 \<times> mem" where
  "panthera_patch_hib_startup_immediates k image_base m =
     (let linked_base = ucast (lowest_vmaddr k) :: u32; delta = ucast image_base - linked_base in
      if delta = 0 then (EFI_SUCCESS, m)
      else apply_patches image_base delta (hib_patches linked_base) m)"

section \<open>The image\<close>

fun copy_segments ::
  "PantheraKernelImage \<Rightarrow> u64 \<Rightarrow> u64 \<Rightarrow> u64 \<Rightarrow> PantheraKernelSegment list \<Rightarrow> mem \<Rightarrow> u64 \<times> mem" where
  "copy_segments k image_base kernel_file kernel_file_size [] m = (EFI_SUCCESS, m)"
| "copy_segments k image_base kernel_file kernel_file_size (s # rest) m =
     (if filesize s = 0 then copy_segments k image_base kernel_file kernel_file_size rest m
      else if fileoff s + filesize s > kernel_file_size then (EFI_NOT_FOUND, m)
      else copy_segments k image_base kernel_file kernel_file_size rest
             (panthera_copy_memory (panthera_segment_physical_base k image_base s)
                (kernel_file + fileoff s) (filesize s) m))"

definition allocate_image :: "'w firmware \<Rightarrow> u64 \<Rightarrow> u64 \<Rightarrow> ('w boot, u64 \<times> u64) state" where
  "allocate_image fw image_span linked_base = do {
     (status, image_base) \<leftarrow> panthera_allocate_pages_at fw image_span linked_base;
     if EFI_ERROR status then panthera_allocate_pages fw image_span image_base
     else ret (status, image_base) }"

text \<open>The passes over the loaded image, from the copied segments to the patched start-up code.\<close>

definition relocate_image :: "'w firmware \<Rightarrow> u64 \<Rightarrow> u64 \<Rightarrow> ('w boot, u64) state" where
  "relocate_image fw kernel_file kernel_file_size = do {
     k \<leftarrow> gets gKernelImage;
     image_base \<leftarrow> gets gKernelImageBase;
     (loader_status, applied) \<leftarrow> do {
       m \<leftarrow> gets bmem;
       case panthera_rebase_kernel_locals m kernel_file kernel_file_size (Some k) image_base (Some 0) of
         (loader_status, applied, m') \<Rightarrow> do { modify_mem (\<lambda>_. m'); ret (loader_status, applied) } };
     if loader_status \<noteq> PANTHERA_LOADER_OK then do {
       _ \<leftarrow> console_write_uint64 fw ''Kernel local rebase loader status: '' (loader_status_code loader_status);
       ret EFI_NOT_FOUND }
     else do {
       loader_status \<leftarrow> do {
         m \<leftarrow> gets bmem;
         case panthera_slide_kernel_macho_metadata m (Some k) image_base of
           (loader_status, m') \<Rightarrow> do { modify_mem (\<lambda>_. m'); ret loader_status } };
       if loader_status \<noteq> PANTHERA_LOADER_OK then do {
         _ \<leftarrow> console_write_uint64 fw ''Kernel Mach-O slide loader status: '' (loader_status_code loader_status);
         ret EFI_NOT_FOUND }
       else do {
         _ \<leftarrow> console_write_uint64 fw ''Kernel local relocations applied: ''
            (case applied of None \<Rightarrow> 0 | Some n \<Rightarrow> ucast n);
         modify (\<lambda>s. s\<lparr>gKernelBootDataCursor := panthera_align_page (gKernelImageBase s + gKernelImageSize s)\<rparr>);
         m \<leftarrow> gets bmem;
         case panthera_patch_hib_startup_immediates k image_base m of
           (status, m') \<Rightarrow> do { modify_mem (\<lambda>_. m'); ret status }
       }
     }
   }"

definition panthera_stage_kernel_image :: "'w firmware \<Rightarrow> u64 \<Rightarrow> u64 \<Rightarrow> ('w boot, u64) state" where
  "panthera_stage_kernel_image fw kernel_file kernel_file_size = do {
     k \<leftarrow> gets gKernelImage;
     let image_span = highest_vmaddr k - lowest_vmaddr k;
     (status, image_base) \<leftarrow> allocate_image fw image_span (ucast (ucast (lowest_vmaddr k) :: u32));
     if EFI_ERROR status then ret status
     else do {
       modify (\<lambda>s. s\<lparr>gKernelImageBase := image_base, gKernelImageSize := image_span, gKernelReservedSize := image_span\<rparr>);
       modify_mem (panthera_zero_memory image_base image_span);
       m \<leftarrow> gets bmem;
       case copy_segments k image_base kernel_file kernel_file_size (active_segments k) m of
         (status, m') \<Rightarrow> do {
           modify_mem (\<lambda>_. m');
           if EFI_ERROR status then ret status
           else relocate_image fw kernel_file kernel_file_size
         }
     }
   }"

definition panthera_compute_entry_physical_base :: "PantheraKernelImage \<Rightarrow> u64 \<Rightarrow> u64" where
  "panthera_compute_entry_physical_base k image_base =
     (if entry_pc k < lowest_vmaddr k \<or> entry_pc k \<ge> highest_vmaddr k then 0
      else image_base + (entry_pc k - lowest_vmaddr k))"

section \<open>What the staged image holds\<close>

abbreviation image_span :: "PantheraKernelImage \<Rightarrow> nat" where
  "image_span k \<equiv> unat (highest_vmaddr k - lowest_vmaddr k)"

abbreviation segment_at :: "PantheraKernelImage \<Rightarrow> u64 \<Rightarrow> PantheraKernelSegment \<Rightarrow> u64" where
  "segment_at k base s \<equiv> panthera_segment_physical_base k base s"

text \<open>A segment whose file bytes lie in the file, and whose place lies in the image span.\<close>

definition segment_ok :: "PantheraKernelImage \<Rightarrow> u64 \<Rightarrow> PantheraKernelSegment \<Rightarrow> bool" where
  "segment_ok k fsize s \<longleftrightarrow> unat (fileoff s) + unat (filesize s) \<le> unat fsize \<and>
     unat (vmaddr s - lowest_vmaddr k) + unat (filesize s) \<le> image_span k"

definition segments_ok :: "PantheraKernelImage \<Rightarrow> u64 \<Rightarrow> u64 \<Rightarrow> PantheraKernelSegment list \<Rightarrow> bool" where
  "segments_ok k base fsize ss \<longleftrightarrow> (\<forall>s \<in> set ss. segment_ok k fsize s) \<and>
     sorted_wrt (\<lambda>s t. disjoint_ranges (segment_at k base s) (unat (filesize s))
       (segment_at k base t) (unat (filesize t))) ss"

lemma segment_in_image:
  "segment_ok k fsize s \<Longrightarrow> in_range (segment_at k base s) (unat (filesize s)) x \<Longrightarrow> in_range base (image_span k) x"
  unfolding segment_ok_def panthera_segment_physical_base_def by (rule in_range_sub) simp_all

lemma segment_in_file:
  "segment_ok k fsize s \<Longrightarrow> in_range (kfile + fileoff s) (unat (filesize s)) x \<Longrightarrow> in_range kfile (unat fsize) x"
  unfolding segment_ok_def by (rule in_range_sub) simp_all

lemma segment_apart_file:
  assumes "segment_ok k fsize s" and "segment_ok k fsize t" and "disjoint_ranges base (image_span k) kfile (unat fsize)"
  shows "disjoint_ranges (segment_at k base s) (unat (filesize s)) (kfile + fileoff t) (unat (filesize t))"
  using assms(3) segment_in_image [OF assms(1), of base] segment_in_file [OF assms(2), of kfile]
  unfolding disjoint_ranges_def by blast

definition copied :: "mem \<Rightarrow> mem \<Rightarrow> PantheraKernelImage \<Rightarrow> u64 \<Rightarrow> u64 \<Rightarrow> PantheraKernelSegment \<Rightarrow> bool" where
  "copied m m' k base kfile s \<longleftrightarrow>
     rd_bytes m' (segment_at k base s) (unat (filesize s)) = rd_bytes m (kfile + fileoff s) (unat (filesize s))"

lemma copy_segment_step:
  assumes "segment_ok k fsize s" and "disjoint_ranges base (image_span k) kfile (unat fsize)"
  shows "panthera_copy_memory (segment_at k base s) (kfile + fileoff s) (filesize s) m =
      wr_bytes m (segment_at k base s) (rd_bytes m (kfile + fileoff s) (unat (filesize s)))"
  by (rule copy_memory_disjoint [OF segment_apart_file [OF assms(1,1,2)]])

lemma copy_segments_spec:
  assumes "segments_ok k base fsize ss" and "disjoint_ranges base (image_span k) kfile (unat fsize)"
  shows "\<exists>m'. copy_segments k base kfile fsize ss m = (EFI_SUCCESS, m') \<and>
      (\<forall>s \<in> set ss. copied m m' k base kfile s) \<and>
      (\<forall>x. (\<forall>s \<in> set ss. \<not> in_range (segment_at k base s) (unat (filesize s)) x) \<longrightarrow> m' x = m x)"
  using assms(1)
proof (induction ss arbitrary: m)
  case (Cons s ss)
  let ?d = "segment_at k base s" and ?n = "unat (filesize s)"
  have s: "segment_ok k fsize s" "\<forall>t \<in> set ss. segment_ok k fsize t" "segments_ok k base fsize ss"
    and apart: "\<forall>t \<in> set ss. disjoint_ranges ?d ?n (segment_at k base t) (unat (filesize t))"
    using Cons.prems by (auto simp: segments_ok_def)
  have fits: "\<not> fileoff s + filesize s > fsize"
    using s(1) unat_lt2p [of fsize] by (simp add: segment_ok_def word_less_nat_alt unat_word_ariths)
  define m1 where "m1 = (if filesize s = 0 then m else panthera_copy_memory ?d (kfile + fileoff s) (filesize s) m)"
  have run: "copy_segments k base kfile fsize (s # ss) m = copy_segments k base kfile fsize ss m1"
    using fits by (simp add: m1_def)
  have m1: "m1 = wr_bytes m ?d (rd_bytes m (kfile + fileoff s) ?n)"
    using copy_segment_step [OF s(1) assms(2)] by (simp add: m1_def)
  obtain m' where m': "copy_segments k base kfile fsize ss m1 = (EFI_SUCCESS, m')"
      "\<forall>t \<in> set ss. copied m1 m' k base kfile t"
      "\<forall>x. (\<forall>t \<in> set ss. \<not> in_range (segment_at k base t) (unat (filesize t)) x) \<longrightarrow> m' x = m1 x"
    using Cons.IH [OF s(3), of m1] by blast
  have len: "?n \<le> 2 ^ 64" using unat_lt2p [of "filesize s"] by simp
  have m1x: "m1 x = m x" if "\<not> in_range ?d ?n x" for x
    using that len by (simp add: m1 wr_bytes_apply)
  have "copied m m' k base kfile s"
  proof -
    have "rd_bytes m' ?d ?n = rd_bytes m1 ?d ?n"
      using m'(3) apart len by (intro rd_bytes_cong) (auto simp: mem_eq_on_def disjoint_ranges_def)
    also have "\<dots> = rd_bytes m (kfile + fileoff s) ?n"
      using rd_wr_bytes_same [of "rd_bytes m (kfile + fileoff s) ?n" m ?d] len by (simp add: m1)
    finally show ?thesis by (simp add: copied_def)
  qed
  moreover have "copied m m' k base kfile t" if "t \<in> set ss" for t
  proof -
    have "rd_bytes m1 (kfile + fileoff t) (unat (filesize t)) = rd_bytes m (kfile + fileoff t) (unat (filesize t))"
      using segment_apart_file [OF s(1) _ assms(2), of t] that s(2) unat_lt2p [of "filesize t"]
      by (intro rd_bytes_cong) (auto simp: mem_eq_on_def disjoint_ranges_def intro!: m1x)
    then show ?thesis using m'(2) that by (simp add: copied_def)
  qed
  ultimately show ?case using run m' m1x by auto
qed simp

text \<open>
  C30. The staged image is the file's image: when every segment's file bytes lie in the file, its place
  lies in the image span, the places do not overlap and the file buffer is not in the new image,
  copying succeeds; every segment then holds its file bytes, every other byte of the image is zero,
  and nothing outside the image changes.
\<close>

theorem staged_image_contents:
  assumes "segments_ok k base fsize (active_segments k)"
    and "disjoint_ranges base (image_span k) kfile (unat fsize)"
  shows "\<exists>m'. copy_segments k base kfile fsize (active_segments k)
        (panthera_zero_memory base (highest_vmaddr k - lowest_vmaddr k) m) = (EFI_SUCCESS, m') \<and>
      (\<forall>s \<in> set (active_segments k). copied m m' k base kfile s) \<and>
      (\<forall>x. in_range base (image_span k) x \<longrightarrow>
        (\<forall>s \<in> set (active_segments k). \<not> in_range (segment_at k base s) (unat (filesize s)) x) \<longrightarrow> m' x = 0) \<and>
      mem_eq_off base (image_span k) m m'"
proof -
  define m0 where "m0 = panthera_zero_memory base (highest_vmaddr k - lowest_vmaddr k) m"
  obtain m' where m': "copy_segments k base kfile fsize (active_segments k) m0 = (EFI_SUCCESS, m')"
      "\<forall>s \<in> set (active_segments k). copied m0 m' k base kfile s"
      "\<forall>x. (\<forall>s \<in> set (active_segments k). \<not> in_range (segment_at k base s) (unat (filesize s)) x) \<longrightarrow> m' x = m0 x"
    using copy_segments_spec [OF assms, of m0] by blast
  have ok: "\<forall>s \<in> set (active_segments k). segment_ok k fsize s"
    using assms(1) by (simp add: segments_ok_def)
  have "copied m m' k base kfile s" if s: "s \<in> set (active_segments k)" for s
  proof -
    have "rd_bytes m0 (kfile + fileoff s) (unat (filesize s)) = rd_bytes m (kfile + fileoff s) (unat (filesize s))"
      using ok s assms(2) segment_in_file [of k fsize s kfile] unat_lt2p [of "filesize s"]
      by (intro rd_bytes_cong) (auto simp: mem_eq_on_def m0_def zero_memory_apply disjoint_ranges_def)
    then show ?thesis using m'(2) s by (simp add: copied_def)
  qed
  moreover have "mem_eq_off base (image_span k) m m'"
    using m'(3) ok segment_in_image unfolding mem_eq_off_def
    by (metis m0_def zero_memory_apply)
  moreover have "m' x = 0" if "in_range base (image_span k) x"
      "\<forall>s \<in> set (active_segments k). \<not> in_range (segment_at k base s) (unat (filesize s)) x" for x
    using m'(3) that by (simp add: m0_def zero_memory_apply)
  ultimately show ?thesis using m'(1) unfolding m0_def by blast
qed

section \<open>What the patches change\<close>

fun patch_slot :: "hib_patch \<Rightarrow> u64" where
  "patch_slot (Imm off opcode v) = off + 1"
| "patch_slot (Val off v) = off"

fun patch_value :: "hib_patch \<Rightarrow> u32" where
  "patch_value (Imm off opcode v) = v"
| "patch_value (Val off v) = v"

fun patch_start :: "hib_patch \<Rightarrow> u64" where
  "patch_start (Imm off opcode v) = off"
| "patch_start (Val off v) = off"

fun patch_matches :: "u64 \<Rightarrow> mem \<Rightarrow> hib_patch \<Rightarrow> bool" where
  "patch_matches base m (Imm off opcode v) \<longleftrightarrow> m (base + off) = opcode \<and> rd32 m (base + (off + 1)) = v"
| "patch_matches base m (Val off v) \<longleftrightarrow> rd32 m (base + off) = v"

text \<open>Patches in ascending order, with no patch inside the bytes another one looks at.\<close>

definition patches_apart :: "hib_patch list \<Rightarrow> bool" where
  "patches_apart ps \<longleftrightarrow> (\<forall>p \<in> set ps. unat (patch_start p) + 5 \<le> 2 ^ 64) \<and>
     sorted_wrt (\<lambda>p q. unat (patch_slot p) + 4 \<le> unat (patch_start q)) ps"

lemma apply_patch_cases:
  "apply_patch base d p m =
     (if patch_matches base m p then (EFI_SUCCESS, wr32 m (base + patch_slot p) (patch_value p + d)) else (EFI_NOT_FOUND, m))"
  by (cases p) (auto simp: panthera_patch_u32_imm_def panthera_patch_u32_value_def Let_def ac_simps)

lemma patch_matches_cong:
  assumes "mem_eq_on (base + patch_start p) 5 m m'"
  shows "patch_matches base m p = patch_matches base m' p"
proof (cases p)
  case (Imm off opcode v)
  have "rd32 m (base + off + 1) = rd32 m' (base + off + 1)" "m (base + off) = m' (base + off)"
    using assms Imm rd32_at [of "base + off" 5 m m' 1] mem_at [of "base + off" 5 m m' 0] by simp_all
  then show ?thesis using Imm by (simp add: add.assoc)
next
  case (Val off v)
  then show ?thesis using assms rd32_at [of "base + off" 5 m m' 0] by simp
qed

lemma patch_later:
  assumes "patches_apart (p # ps)" and "q \<in> set ps"
  shows "patch_matches base (wr32 m (base + patch_slot p) v) q = patch_matches base m q"
proof (rule patch_matches_cong)
  have q: "unat (patch_slot p) + 4 \<le> unat (patch_start q)" "unat (patch_start q) + 5 \<le> 2 ^ 64"
    using assms by (auto simp: patches_apart_def)
  show "mem_eq_on (base + patch_start q) 5 (wr32 m (base + patch_slot p) v) m"
    using q by (intro cell32.wr_apart) (auto simp: apart_def)
qed

lemma apply_patches_spec:
  assumes "patches_apart ps"
  shows "\<exists>m'. apply_patches base d ps m = (if \<forall>p \<in> set ps. patch_matches base m p then EFI_SUCCESS else EFI_NOT_FOUND, m') \<and>
    (\<forall>x. (\<forall>p \<in> set ps. \<not> in_range (base + patch_slot p) 4 x) \<longrightarrow> m' x = m x) \<and>
    ((\<forall>p \<in> set ps. patch_matches base m p) \<longrightarrow>
       m' = fold (\<lambda>p m. wr32 m (base + patch_slot p) (patch_value p + d)) ps m)"
  using assms
proof (induction ps arbitrary: m)
  case (Cons p ps)
  let ?m1 = "wr32 m (base + patch_slot p) (patch_value p + d)"
  have ps: "patches_apart ps" using Cons.prems by (simp add: patches_apart_def)
  have same: "(\<forall>q \<in> set ps. patch_matches base ?m1 q) = (\<forall>q \<in> set ps. patch_matches base m q)"
    using patch_later [OF Cons.prems] by simp
  show ?case
  proof (cases "patch_matches base m p")
    case True
    then have "apply_patches base d (p # ps) m = apply_patches base d ps ?m1"
      by (simp add: apply_patch_cases EFI_ERROR_def)
    then show ?thesis using Cons.IH [OF ps, of ?m1] True same by (auto simp: cell32.wr_outside)
  next
    case False
    then show ?thesis by (auto simp: apply_patch_cases EFI_ERROR_def)
  qed
qed simp

lemma hib_patches_apart: "patches_apart (hib_patches lb)"
  by (simp add: hib_patches_def patches_apart_def)

lemma hib_slots_disjoint:
  "sorted_wrt (\<lambda>p q. disjoint_ranges (base + patch_slot p) 4 (base + patch_slot q) 4) (hib_patches lb)"
  by (simp add: hib_patches_def disjoint_offsets)

text \<open>
  C31. The start-up patches are all or nothing in what they report and exact in what they change: with a
  moved image they succeed exactly when every patch point holds the value expected there; then every
  patched word is its old value plus the displacement, and no run changes a byte outside the patched
  words.
\<close>

theorem hib_patches_exact:
  assumes "panthera_patch_hib_startup_immediates k base m = (status, m')"
    and "ucast base \<noteq> (ucast (lowest_vmaddr k) :: u32)"
  shows "(EFI_ERROR status \<longleftrightarrow> (\<exists>p \<in> set (hib_patches (ucast (lowest_vmaddr k))). \<not> patch_matches base m p)) \<and>
    (EFI_ERROR status \<or> (\<forall>p \<in> set (hib_patches (ucast (lowest_vmaddr k))).
       rd32 m' (base + patch_slot p) = rd32 m (base + patch_slot p) + (ucast base - ucast (lowest_vmaddr k)))) \<and>
    (\<forall>x. (\<forall>p \<in> set (hib_patches (ucast (lowest_vmaddr k))). \<not> in_range (base + patch_slot p) 4 x) \<longrightarrow> m' x = m x)"
proof -
  let ?lb = "ucast (lowest_vmaddr k) :: u32"
  let ?d = "ucast base - ?lb"
  let ?all = "\<forall>p \<in> set (hib_patches ?lb). patch_matches base m p"
  have run: "apply_patches base ?d (hib_patches ?lb) m = (status, m')"
    using assms by (simp add: panthera_patch_hib_startup_immediates_def Let_def)
  have st: "status = (if ?all then EFI_SUCCESS else EFI_NOT_FOUND)"
    and frame: "\<forall>x. (\<forall>p \<in> set (hib_patches ?lb). \<not> in_range (base + patch_slot p) 4 x) \<longrightarrow> m' x = m x"
    and fold: "?all \<longrightarrow> m' = fold (\<lambda>p m. wr32 m (base + patch_slot p) (patch_value p + ?d)) (hib_patches ?lb) m"
    using apply_patches_spec [OF hib_patches_apart, of base ?d ?lb m] run by auto
  have err: "EFI_ERROR status \<longleftrightarrow> \<not> ?all" unfolding st by (simp add: EFI_ERROR_def)
  have "rd32 m' (base + patch_slot p) = rd32 m (base + patch_slot p) + ?d" if "?all" "p \<in> set (hib_patches ?lb)" for p
  proof -
    have "rd32 m' (base + patch_slot p) = patch_value p + ?d"
      using fold that cell32.fold_cells [OF hib_slots_disjoint that(2), where g = "\<lambda>p v. patch_value p + ?d" and m = m]
      by simp
    moreover have "rd32 m (base + patch_slot p) = patch_value p" using that by (cases p) auto
    ultimately show ?thesis by simp
  qed
  then show ?thesis using err frame by blast
qed

section \<open>Concrete images\<close>

definition staged_demo_segment :: "u64 \<Rightarrow> u64 \<Rightarrow> u64 \<Rightarrow> PantheraKernelSegment" where
  "staged_demo_segment va off sz = \<lparr>segname = replicate 16 0, vmaddr = va, vmsize = 0x1000, fileoff = off,
     filesize = sz, maxprot = 7, initprot = 7\<rparr>"

definition staged_demo_image :: PantheraKernelImage where
  "staged_demo_image = zero_image\<lparr>lowest_vmaddr := 0x100000, highest_vmaddr := 0x102000, segment_count := 3,
     segments := [staged_demo_segment 0x100000 0 0x20, staged_demo_segment 0x100800 0x20 0, staged_demo_segment 0x101000 0x30 0x10]\<rparr>"

lemma staged_demo_ok:
  "segments_ok staged_demo_image 0x200000 0x1000 (active_segments staged_demo_image)"
  "disjoint_ranges 0x200000 (image_span staged_demo_image) 0x10000 (unat (0x1000 :: u64))"
  by (simp_all add: staged_demo_image_def staged_demo_segment_def active_segments_def segments_ok_def
      segment_ok_def panthera_segment_physical_base_def disjoint_rangesI)

theorem staged_image_contents_witness:
  "\<exists>m'. copy_segments staged_demo_image 0x200000 0x10000 0x1000 (active_segments staged_demo_image)
      (panthera_zero_memory 0x200000 0x2000 (mem_of 0x10000 [1, 2, 3])) = (EFI_SUCCESS, m') \<and>
    rd_bytes m' 0x200000 0x20 = rd_bytes (mem_of 0x10000 [1, 2, 3]) 0x10000 0x20 \<and> m' 0x200900 = 0"
proof -
  obtain m' where m': "copy_segments staged_demo_image 0x200000 0x10000 0x1000 (active_segments staged_demo_image)
      (panthera_zero_memory 0x200000 0x2000 (mem_of 0x10000 [1, 2, 3])) = (EFI_SUCCESS, m')"
    "\<forall>s \<in> set (active_segments staged_demo_image). copied (mem_of 0x10000 [1, 2, 3]) m' staged_demo_image 0x200000 0x10000 s"
    "\<forall>x. in_range 0x200000 (image_span staged_demo_image) x \<longrightarrow>
        (\<forall>s \<in> set (active_segments staged_demo_image).
           \<not> in_range (segment_at staged_demo_image 0x200000 s) (unat (filesize s)) x) \<longrightarrow> m' x = 0"
    using staged_image_contents [OF staged_demo_ok, of "mem_of 0x10000 [1, 2, 3]"]
    by (auto simp: staged_demo_image_def)
  have "rd_bytes m' 0x200000 0x20 = rd_bytes (mem_of 0x10000 [1, 2, 3]) 0x10000 0x20"
    using m'(2) by (simp add: staged_demo_image_def staged_demo_segment_def active_segments_def copied_def
        panthera_segment_physical_base_def del: rd_bytes.simps)
  moreover have "m' 0x200900 = 0"
    using m'(3) by (simp add: staged_demo_image_def staged_demo_segment_def active_segments_def
        panthera_segment_physical_base_def in_range_def)
  ultimately show ?thesis using m'(1) by blast
qed

definition hib_demo_mem :: mem where
  "hib_demo_mem = fold (\<lambda>(a, bs) m. wr_bytes m a bs)
     [(0x200002, [0xbc, 0x00, 0x90, 0x19, 0x00, 0xb8, 0x40, 0x10, 0x10, 0x00]),
      (0x20000f, [0xb8, 0x00, 0x50, 0x10, 0x00]), (0x20001c, [0xba, 0x00, 0x60, 0x10, 0x00]),
      (0x200042, [0xb8, 0x00, 0x50, 0x10, 0x00]), (0x200055, [0xea, 0x5c, 0x00, 0x10, 0x00]),
      (0x201042, [0x00, 0x90, 0x13, 0x00]), (0x299002, [0x00, 0x90, 0x13, 0x00])] (\<lambda>_. 0)"

lemma hib_demo_matches: "\<forall>p \<in> set (hib_patches 0x100000). patch_matches 0x200000 hib_demo_mem p"
  by (simp add: hib_patches_def hib_demo_mem_def eval_mem)

theorem hib_patches_exact_witness:
  "\<exists>status m'. panthera_patch_hib_startup_immediates staged_demo_image 0x200000 hib_demo_mem = (status, m') \<and>
     \<not> EFI_ERROR status \<and> rd32 m' 0x201042 = 0x00239000"
proof -
  obtain status m' where run: "panthera_patch_hib_startup_immediates staged_demo_image 0x200000 hib_demo_mem = (status, m')"
    by fastforce
  have lb: "ucast (lowest_vmaddr staged_demo_image) = (0x100000 :: u32)" by (simp add: staged_demo_image_def)
  have moved: "ucast (0x200000 :: u64) \<noteq> (ucast (lowest_vmaddr staged_demo_image) :: u32)" by (simp add: lb)
  have p: "Val 0x1042 0x00139000 \<in> set (hib_patches 0x100000)" by (simp add: hib_patches_def)
  have old: "rd32 hib_demo_mem 0x201042 = 0x00139000" using hib_demo_matches p by fastforce
  have ok: "\<not> EFI_ERROR status"
    using hib_patches_exact [OF run moved] hib_demo_matches by (simp add: lb)
  then have "rd32 m' 0x201042 = rd32 hib_demo_mem 0x201042 + (0x200000 - 0x100000)"
    using hib_patches_exact [OF run moved] p by (fastforce simp: lb)
  then show ?thesis using run ok old by simp
qed

end
