(* ===== verification/Boot_DeviceTree.thy ===== *)
theory Boot_DeviceTree
  imports Boot_State
begin

text \<open>
  The synthetic device tree of the boot loader, \<open>panthera_build_synthetic_device_tree\<close> of
  \<open>boot/efi/loader/src/bootx64.c\<close>, in the flat layout the kernel reads: a node is its property and
  child counts, then its properties, then its children; a property is a 32-byte name, a length and
  the value padded to four bytes. The tree is written straight into the page buffer. The theorems
  give a decoder for the layout and show that it recovers the intended tree.
\<close>

section \<open>Writing the tree\<close>

abbreviation sizeof_dt_node :: u64 where "sizeof_dt_node \<equiv> 8"
abbreviation sizeof_dt_property :: u64 where "sizeof_dt_property \<equiv> 36"

definition dt_store_property :: "u64 \<Rightarrow> u8 list \<Rightarrow> u8 list \<Rightarrow> mem \<Rightarrow> mem" where
  "dt_store_property property name val m =
     (let value_size = of_nat (length val) :: u64;
          m1 = panthera_zero_memory property (sizeof_dt_property + panthera_align_4 value_size) m;
          m2 = wr_bytes m1 property (panthera_copy_ascii 32 name @ [0]);
          m3 = wr32 m2 (property + 32) (ucast value_size)
      in if value_size \<noteq> 0 then wr_bytes m3 (property + sizeof_dt_property) val else m3)"

text \<open>The buffer, its capacity and the current offset; the offset and memory are the result.\<close>

definition panthera_dt_append_property ::
  "u64 \<Rightarrow> u64 \<Rightarrow> u64 \<Rightarrow> u8 list \<Rightarrow> u8 list \<Rightarrow> mem \<Rightarrow> u64 \<times> u64 \<times> mem" where
  "panthera_dt_append_property buffer capacity offset name val m =
     (let property_size = sizeof_dt_property + panthera_align_4 (of_nat (length val)) in
      if offset + property_size > capacity then (EFI_OUT_OF_RESOURCES, offset, m)
      else (EFI_SUCCESS, offset + property_size, dt_store_property (buffer + offset) name val m))"

definition panthera_dt_append_name ::
  "u64 \<Rightarrow> u64 \<Rightarrow> u64 \<Rightarrow> u8 list \<Rightarrow> mem \<Rightarrow> u64 \<times> u64 \<times> mem" where
  "panthera_dt_append_name buffer capacity offset name m =
     panthera_dt_append_property buffer capacity offset (bytes_of_string ''name'') (name @ [0]) m"

text \<open>The two counts of a node, stored without a capacity test.\<close>

definition dt_begin_node :: "u64 \<Rightarrow> u64 \<Rightarrow> u32 \<Rightarrow> u32 \<Rightarrow> mem \<Rightarrow> u64 \<times> mem" where
  "dt_begin_node buffer offset nProperties nChildren m =
     (offset + sizeof_dt_node, wr32 (wr32 m (buffer + offset) nProperties) (buffer + offset + 4) nChildren)"

definition random_seed :: "u8 list" where
  "random_seed = [
     0x50, 0x41, 0x4e, 0x54, 0x48, 0x45, 0x52, 0x41, 0x10, 0x23, 0x45, 0x67, 0x89, 0xab, 0xcd, 0xef,
     0x31, 0x42, 0x53, 0x64, 0x75, 0x86, 0x97, 0xa8, 0xb9, 0xca, 0xdb, 0xec, 0xfd, 0x0e, 0x1f, 0x2a,
     0x5a, 0x4b, 0x3c, 0x2d, 0x1e, 0x0f, 0xf0, 0xe1, 0xd2, 0xc3, 0xb4, 0xa5, 0x96, 0x87, 0x78, 0x69,
     0x55, 0x66, 0x77, 0x88, 0x99, 0xaa, 0xbb, 0xcc, 0, 0, 0, 0, 0, 0, 0, 0]"

definition pci_bus_info :: "u8 list" where
  "pci_bus_info = [0xff, 2, 0, 0, 0x01, 0, 0, 0]"

definition device_tree_buffer_bytes :: "PantheraDeviceTreeBuffer \<Rightarrow> u8 list" where
  "device_tree_buffer_bytes b = le_split 4 (dtb_paddr b) @ le_split 4 (dtb_length b)"

fun dt_append_kexts ::
  "u64 \<Rightarrow> u64 \<Rightarrow> PantheraBootKextRecord list \<Rightarrow> u64 \<Rightarrow> mem \<Rightarrow> u64 \<times> u64 \<times> mem" where
  "dt_append_kexts buffer capacity [] offset m = (EFI_SUCCESS, offset, m)"
| "dt_append_kexts buffer capacity (r # rs) offset m =
     (case panthera_dt_append_property buffer capacity offset (driver_entry_name r)
             (device_tree_buffer_bytes (device_tree_buffer r)) m of
        (status, offset', m') \<Rightarrow>
          if EFI_ERROR status then (status, offset', m')
          else dt_append_kexts buffer capacity rs offset' m')"

text \<open>The body after the buffer is allocated: a sequence of nodes and properties, stopped by the
  first error.\<close>

type_synonym dt_step = "u64 \<times> mem \<Rightarrow> u64 \<times> u64 \<times> mem"

fun dt_steps :: "dt_step list \<Rightarrow> u64 \<times> mem \<Rightarrow> u64 \<times> u64 \<times> mem" where
  "dt_steps [] (offset, m) = (EFI_SUCCESS, offset, m)"
| "dt_steps (f # fs) (offset, m) =
     (case f (offset, m) of
        (status, offset', m') \<Rightarrow> if EFI_ERROR status then (status, offset', m') else dt_steps fs (offset', m'))"

definition dt_node_step :: "u64 \<Rightarrow> u32 \<Rightarrow> u32 \<Rightarrow> dt_step" where
  "dt_node_step buffer np nc = (\<lambda>(offset, m). (EFI_SUCCESS, dt_begin_node buffer offset np nc m))"

definition dt_name_step :: "u64 \<Rightarrow> string \<Rightarrow> dt_step" where
  "dt_name_step buffer name = (\<lambda>(offset, m).
     panthera_dt_append_name buffer PANTHERA_DEVICE_TREE_MAX_SIZE offset (bytes_of_string name) m)"

definition dt_prop_step :: "u64 \<Rightarrow> string \<Rightarrow> u8 list \<Rightarrow> dt_step" where
  "dt_prop_step buffer name val = (\<lambda>(offset, m).
     panthera_dt_append_property buffer PANTHERA_DEVICE_TREE_MAX_SIZE offset (bytes_of_string name) val m)"

definition dt_kexts_step :: "u64 \<Rightarrow> PantheraBootKextRecord list \<Rightarrow> dt_step" where
  "dt_kexts_step buffer rs = (\<lambda>(offset, m). dt_append_kexts buffer PANTHERA_DEVICE_TREE_MAX_SIZE rs offset m)"

definition write_device_tree ::
  "u64 \<Rightarrow> u32 \<Rightarrow> PantheraBootKextRecord list \<Rightarrow> u64 \<Rightarrow> mem \<Rightarrow> u64 \<times> u64 \<times> mem" where
  "write_device_tree buffer kext_count records fsb m = dt_steps [
     dt_node_step buffer 1 3, dt_name_step buffer ''/'',
     dt_node_step buffer 2 1, dt_name_step buffer ''chosen'', dt_prop_step buffer ''random-seed'' random_seed,
     dt_node_step buffer (1 + kext_count) 0, dt_name_step buffer ''memory-map'',
     dt_kexts_step buffer (take (unat kext_count) records),
     dt_node_step buffer 1 1, dt_name_step buffer ''efi'',
     dt_node_step buffer 2 0, dt_name_step buffer ''platform'',
     dt_prop_step buffer ''FSBFrequency'' (le_split 8 fsb),
     dt_node_step buffer 2 0, dt_name_step buffer ''pci'', dt_prop_step buffer ''pci-bus-info'' pci_bus_info]
     (0, m)"

definition panthera_build_synthetic_device_tree :: "'w firmware \<Rightarrow> ('w boot, u64) state" where
  "panthera_build_synthetic_device_tree fw = do {
     (status, buffer) \<leftarrow> panthera_allocate_buffer_pages fw PANTHERA_DEVICE_TREE_MAX_SIZE;
     if EFI_ERROR status then ret status
     else do {
       modify (\<lambda>s. s\<lparr>gDeviceTreeBase := buffer\<rparr>);
       modify_mem (panthera_zero_memory buffer PANTHERA_DEVICE_TREE_MAX_SIZE);
       s \<leftarrow> State_Monad.get;
       case write_device_tree buffer (gBootKextCount s) (gBootKextRecords s) (gFSBFrequencyHz s) (bmem s) of
         (status, offset, m) \<Rightarrow> do {
           modify_mem (\<lambda>_. m);
           if EFI_ERROR status then ret status
           else do {
             modify (\<lambda>s. s\<lparr>gDeviceTreeSize := ucast offset\<rparr>);
             ret EFI_SUCCESS
           }
         }
     }
   }"

lemma align_4_nat:
  assumes "n < 2 ^ 32"
  shows "unat (panthera_align_4 (of_nat n)) = (n + 3) div 4 * 4"
proof -
  have "unat (of_nat (n + 3) :: u64) = n + 3" using assms by (intro unat_of_nat_small) simp
  moreover have "(of_nat n + 3 :: u64) = of_nat (n + 3)" by simp
  ultimately show ?thesis
    unfolding panthera_align_4_def by (simp only: mask_2 unat_and_not_mask) simp
qed


lemma word_nat_cong: "unat (w :: u64) = n \<Longrightarrow> w = of_nat n"
  by auto

section \<open>What the steps append\<close>

definition pad_to :: "nat \<Rightarrow> u8 list \<Rightarrow> u8 list" where
  "pad_to n bs = bs @ replicate (n - length bs) 0"

definition prop_bytes :: "u8 list \<Rightarrow> u8 list \<Rightarrow> u8 list" where
  "prop_bytes name val = pad_to 32 (panthera_copy_ascii 32 name) @ le_split 4 (of_nat (length val) :: u32) @
     pad_to ((length val + 3) div 4 * 4) val"

definition node_bytes :: "u32 \<Rightarrow> u32 \<Rightarrow> u8 list" where
  "node_bytes np nc = le_split 4 np @ le_split 4 nc"

lemma length_copy_ascii: "length (panthera_copy_ascii 32 name) \<le> 31"
  by (simp add: panthera_copy_ascii_def)

lemma length_prop_bytes: "length (prop_bytes name val) = 36 + (length val + 3) div 4 * 4"
  using length_copy_ascii [of name] by (simp add: prop_bytes_def pad_to_def)

definition appends :: "u64 \<Rightarrow> dt_step \<Rightarrow> u8 list \<Rightarrow> bool" where
  "appends buffer f e \<longleftrightarrow> (\<forall>m bs. length bs + length e \<le> 65536 \<longrightarrow>
     f (of_nat (length bs), wr_bytes m buffer bs) =
       (EFI_SUCCESS, of_nat (length bs + length e), wr_bytes m buffer (bs @ e)))"

lemma property_store:
  assumes "length val < 2 ^ 32"
  shows "dt_store_property a name val m = wr_bytes m a (prop_bytes name val)"
proof -
  let ?n = "panthera_copy_ascii 32 name" and ?l = "le_split 4 (of_nat (length val) :: u32)"
  define k where "k = (length val + 3) div 4 * 4"
  have k: "length val \<le> k" "k < 2 ^ 33" using assms by (auto simp: k_def)
  define z1 where "z1 = overwrite (replicate (36 + k) 0) 0 (?n @ [0])"
  define z2 where "z2 = overwrite z1 32 ?l"
  have len: "length z1 = 36 + k" "length z2 = 36 + k"
    using length_copy_ascii [of name] by (simp_all add: z1_def z2_def)
  have "unat (36 + panthera_align_4 (of_nat (length val))) = 36 + k"
    using align_4_nat [OF assms] k by (simp add: k_def unat_word_ariths)
  moreover have "(of_nat (length val) :: u64) \<noteq> 0 \<longleftrightarrow> val \<noteq> []"
    using unat_of_nat_small [of "length val", where 'a = 64] assms by (cases "val = []") auto
  moreover have "ucast (of_nat (length val) :: u64) = (of_nat (length val) :: u32)"
    by (rule ucast_of_nat_32)
  moreover have "wr_bytes (wr_bytes m a (replicate (36 + k) 0)) a (?n @ [0]) = wr_bytes m a z1"
    using wr_bytes_overwrite [of 0 "?n @ [0]" "replicate (36 + k) 0" m a] length_copy_ascii [of name] k
    by (simp add: z1_def)
  moreover have "wr32 (wr_bytes m a z1) (a + 32) (of_nat (length val)) = wr_bytes m a z2"
    using wr_bytes_overwrite [of 32 ?l z1 m a] len k by (simp add: z2_def wr32_def)
  moreover have "wr_bytes (wr_bytes m a z2) (a + 36) val = wr_bytes m a (overwrite z2 36 val)"
    using wr_bytes_overwrite [of 36 val z2 m a] len k by simp
  moreover have "overwrite z2 36 val = prop_bytes name val"
    using length_copy_ascii [of name] k unfolding z1_def z2_def
    by (intro nth_equalityI)
      (auto simp: nth_overwrite length_prop_bytes k_def [symmetric] prop_bytes_def pad_to_def nth_append)
  moreover have "overwrite z2 36 [] = z2" by (simp add: overwrite_def)
  ultimately show ?thesis
    by (cases "val = []") (simp_all add: dt_store_property_def panthera_zero_memory_def Let_def)
qed

lemma appends_property:
  assumes "length val < 2 ^ 32"
  shows "appends buffer (\<lambda>(offset, m). panthera_dt_append_property buffer 65536 offset name val m) (prop_bytes name val)"
  unfolding appends_def
proof (intro allI impI)
  fix m and bs :: "u8 list"
  assume fits: "length bs + length (prop_bytes name val) \<le> 65536"
  define k where "k = (length val + 3) div 4 * 4"
  have sz: "36 + panthera_align_4 (of_nat (length val)) = of_nat (36 + k)"
    using word_nat_cong [OF align_4_nat [OF assms]] by (simp add: k_def)
  have "unat (of_nat (length bs) + of_nat (36 + k) :: u64) \<le> 65536"
    using fits unat_of_nat_small [of "length bs + (36 + k)", where 'a = 64]
    by (simp add: length_prop_bytes k_def [symmetric] flip: of_nat_add)
  then have "\<not> (of_nat (length bs) + of_nat (36 + k) :: u64) > 65536" by (simp add: word_less_nat_alt)
  then show "(case (of_nat (length bs), wr_bytes m buffer bs) of
        (offset, m) \<Rightarrow> panthera_dt_append_property buffer 65536 offset name val m) =
      (EFI_SUCCESS, of_nat (length bs + length (prop_bytes name val)), wr_bytes m buffer (bs @ prop_bytes name val))"
    by (simp add: panthera_dt_append_property_def property_store [OF assms] sz Let_def wr_bytes_append
        length_prop_bytes k_def [symmetric])
qed

lemma appends_node: "appends buffer (dt_node_step buffer np nc) (node_bytes np nc)"
  by (simp add: appends_def dt_node_step_def dt_begin_node_def node_bytes_def wr_bytes_append wr32_def add.assoc)

fun appends_all :: "u64 \<Rightarrow> dt_step list \<Rightarrow> u8 list list \<Rightarrow> bool" where
  "appends_all buffer [] [] \<longleftrightarrow> True"
| "appends_all buffer (f # fs) (e # es) \<longleftrightarrow> appends buffer f e \<and> appends_all buffer fs es"
| "appends_all buffer _ _ \<longleftrightarrow> False"

lemma no_error [simp]: "\<not> EFI_ERROR EFI_SUCCESS"
  by (simp add: EFI_ERROR_def)

lemma dt_steps_appends:
  assumes "appends_all buffer fs es" and "length bs + length (concat es) \<le> 65536"
  shows "dt_steps fs (of_nat (length bs), wr_bytes m buffer bs) =
    (EFI_SUCCESS, of_nat (length (bs @ concat es)), wr_bytes m buffer (bs @ concat es))"
  using assms
proof (induction buffer fs es arbitrary: bs rule: appends_all.induct)
  case (2 buffer f fs e es)
  have "f (of_nat (length bs), wr_bytes m buffer bs) =
      (EFI_SUCCESS, of_nat (length (bs @ e)), wr_bytes m buffer (bs @ e))"
    using 2 by (simp add: appends_def)
  then show ?case using "2.IH" [of "bs @ e"] "2.prems" by simp
qed simp_all

lemma appends_kexts:
  "appends buffer (dt_kexts_step buffer rs)
     (concat (map (\<lambda>r. prop_bytes (driver_entry_name r) (device_tree_buffer_bytes (device_tree_buffer r))) rs))"
  unfolding appends_def dt_kexts_step_def
proof (induction rs)
  case Nil
  then show ?case by simp
next
  case (Cons r rs)
  define e where "e = prop_bytes (driver_entry_name r) (device_tree_buffer_bytes (device_tree_buffer r))"
  have "length (device_tree_buffer_bytes (device_tree_buffer r)) < 2 ^ 32"
    by (simp add: device_tree_buffer_bytes_def)
  from appends_property [OF this, of buffer "driver_entry_name r"]
  have "panthera_dt_append_property buffer 65536 (of_nat (length bs)) (driver_entry_name r)
       (device_tree_buffer_bytes (device_tree_buffer r)) (wr_bytes m buffer bs) =
      (EFI_SUCCESS, of_nat (length (bs @ e)), wr_bytes m buffer (bs @ e))"
    if "length bs + length e \<le> 65536" for m bs
    using that by (simp add: appends_def e_def)
  then show ?case
    using Cons [rule_format, of "bs @ e" for bs] by (simp add: e_def [symmetric])
qed

section \<open>The tree and its layout\<close>

datatype dt_tree = DTNode (dt_props: "(u8 list \<times> u8 list) list") (dt_children: "dt_tree list")

fun dt_encode :: "dt_tree \<Rightarrow> u8 list" where
  "dt_encode (DTNode ps cs) = node_bytes (of_nat (length ps)) (of_nat (length cs)) @
     concat (map (\<lambda>(n, v). prop_bytes n v) ps) @ concat (map dt_encode cs)"

text \<open>The decoder: one property, \<open>n\<close> properties, and nodes with a bound on the depth.\<close>

definition decode_u32 :: "u8 list \<Rightarrow> nat" where
  "decode_u32 bs = unat (le_join (take 4 bs) :: u32)"

definition decode_prop :: "u8 list \<Rightarrow> ((u8 list \<times> u8 list) \<times> u8 list) option" where
  "decode_prop bs =
     (let n = decode_u32 (drop 32 bs); padded = (n + 3) div 4 * 4 in
      if length bs < 36 + padded then None
      else Some ((takeWhile (\<lambda>c. c \<noteq> 0) (take 32 bs), take n (drop 36 bs)), drop (36 + padded) bs))"

fun decode_props :: "nat \<Rightarrow> u8 list \<Rightarrow> ((u8 list \<times> u8 list) list \<times> u8 list) option" where
  "decode_props 0 bs = Some ([], bs)"
| "decode_props (Suc n) bs = Option.bind (decode_prop bs) (\<lambda>(p, r).
     Option.bind (decode_props n r) (\<lambda>(ps, r'). Some (p # ps, r')))"

fun decode_node :: "nat \<Rightarrow> u8 list \<Rightarrow> (dt_tree \<times> u8 list) option"
  and decode_nodes :: "nat \<Rightarrow> nat \<Rightarrow> u8 list \<Rightarrow> (dt_tree list \<times> u8 list) option" where
  "decode_node 0 bs = None"
| "decode_node (Suc depth) bs =
     (if length bs < 8 then None
      else Option.bind (decode_props (decode_u32 bs) (drop 8 bs)) (\<lambda>(ps, r).
        Option.bind (decode_nodes depth (decode_u32 (drop 4 bs)) r) (\<lambda>(cs, r'). Some (DTNode ps cs, r'))))"
| "decode_nodes depth 0 bs = Some ([], bs)"
| "decode_nodes depth (Suc n) bs = Option.bind (decode_node depth bs) (\<lambda>(c, r).
     Option.bind (decode_nodes depth n r) (\<lambda>(cs, r'). Some (c # cs, r')))"

definition prop_ok :: "u8 list \<times> u8 list \<Rightarrow> bool" where
  "prop_ok p \<longleftrightarrow> 0 \<notin> set (fst p) \<and> length (fst p) \<le> 31 \<and> length (snd p) < 2 ^ 32"

fun tree_ok :: "dt_tree \<Rightarrow> bool" where
  "tree_ok (DTNode ps cs) \<longleftrightarrow> length ps < 2 ^ 32 \<and> length cs < 2 ^ 32 \<and>
     (\<forall>p \<in> set ps. prop_ok p) \<and> (\<forall>c \<in> set cs. tree_ok c)"

fun tree_depth :: "dt_tree \<Rightarrow> nat" where
  "tree_depth (DTNode ps cs) = Suc (foldr max (map tree_depth cs) 0)"

lemma decode_u32_append: "length a = 4 \<Longrightarrow> decode_u32 (a @ r) = unat (le_join a :: u32)"
  by (simp add: decode_u32_def)

lemma decode_u32_split: "n < 2 ^ 32 \<Longrightarrow> decode_u32 (le_split 4 (of_nat n :: u32) @ r) = n"
  by (simp add: decode_u32_append codec_simps unat_of_nat)

lemma decode_prop_bytes:
  assumes "prop_ok (n, v)"
  shows "decode_prop (prop_bytes n v @ r) = Some ((n, v), r)"
proof -
  have n: "panthera_copy_ascii 32 n = n"
    using assms by (simp add: prop_ok_def panthera_copy_ascii_def takeWhile_nonzero)
  define name where "name = pad_to 32 n"
  define body where "body = pad_to ((length v + 3) div 4 * 4) v"
  have len: "length name = 32" "length body = (length v + 3) div 4 * 4"
    using assms by (simp_all add: name_def body_def pad_to_def prop_ok_def)
  have bytes: "prop_bytes n v @ r = name @ le_split 4 (of_nat (length v) :: u32) @ body @ r"
    by (simp add: prop_bytes_def n name_def body_def)
  have "decode_u32 (drop 32 (prop_bytes n v @ r)) = length v"
    using assms len(1) by (simp add: bytes decode_u32_split prop_ok_def)
  moreover have "takeWhile (\<lambda>c. c \<noteq> 0) name = n"
    using assms unfolding name_def pad_to_def
    by (subst takeWhile_append2) (auto simp: prop_ok_def)
  moreover have "take (length v) body = v" by (simp add: body_def pad_to_def)
  ultimately show ?thesis
    using len by (simp add: decode_prop_def Let_def bytes)
qed

lemma decode_props_bytes:
  "\<forall>p \<in> set ps. prop_ok p \<Longrightarrow>
   decode_props (length ps) (concat (map (\<lambda>(n, v). prop_bytes n v) ps) @ r) = Some (ps, r)"
  by (induction ps) (auto simp: decode_prop_bytes)

lemma foldr_max_le: "x \<in> set xs \<Longrightarrow> x \<le> foldr max xs (a :: nat)"
  by (induction xs) (auto simp: le_max_iff_disj)

lemma decode_nodes_bytes:
  assumes "\<And>c r. c \<in> set cs \<Longrightarrow> decode_node depth (dt_encode c @ r) = Some (c, r)"
  shows "decode_nodes depth (length cs) (concat (map dt_encode cs) @ r) = Some (cs, r)"
  using assms by (induction cs) auto

lemma decode_encode:
  "tree_ok t \<Longrightarrow> tree_depth t \<le> depth \<Longrightarrow> decode_node depth (dt_encode t @ r) = Some (t, r)"
proof (induction t arbitrary: depth r)
  case (DTNode ps cs)
  obtain d where d: "depth = Suc d" using DTNode.prems(2) by (cases depth) auto
  have "decode_nodes d (length cs) (concat (map dt_encode cs) @ r) = Some (cs, r)"
  proof (rule decode_nodes_bytes)
    fix c r' assume c: "c \<in> set cs"
    have "tree_depth c \<le> foldr max (map tree_depth cs) 0" using c by (intro foldr_max_le) simp
    then have "tree_depth c \<le> d" using DTNode.prems(2) d by simp
    then show "decode_node d (dt_encode c @ r') = Some (c, r')"
      using DTNode.IH [OF c] DTNode.prems(1) c by simp
  qed
  then show ?case
    using DTNode.prems(1) d decode_props_bytes [of ps]
    by (simp add: node_bytes_def decode_u32_split)
qed

section \<open>The synthetic tree\<close>

definition kext_props :: "PantheraBootKextRecord list \<Rightarrow> (u8 list \<times> u8 list) list" where
  "kext_props rs = map (\<lambda>r. (driver_entry_name r, device_tree_buffer_bytes (device_tree_buffer r))) rs"

definition name_prop :: "string \<Rightarrow> u8 list \<times> u8 list" where
  "name_prop n = (bytes_of_string ''name'', bytes_of_string n @ [0])"

definition synthetic_tree :: "PantheraBootKextRecord list \<Rightarrow> u64 \<Rightarrow> dt_tree" where
  "synthetic_tree rs fsb =
     DTNode [name_prop ''/''] [
       DTNode [name_prop ''chosen'', (bytes_of_string ''random-seed'', random_seed)]
         [DTNode (name_prop ''memory-map'' # kext_props rs) []],
       DTNode [name_prop ''efi'']
         [DTNode [name_prop ''platform'', (bytes_of_string ''FSBFrequency'', le_split 8 fsb)] []],
       DTNode [name_prop ''pci'', (bytes_of_string ''pci-bus-info'', pci_bus_info)] []]"

lemma length_kext_bytes:
  "length (concat (map (\<lambda>(n, v). prop_bytes n v) (kext_props rs))) = 44 * length rs"
  by (induction rs) (simp_all add: kext_props_def length_prop_bytes device_tree_buffer_bytes_def)

definition tree_chunks :: "PantheraBootKextRecord list \<Rightarrow> u64 \<Rightarrow> u8 list list" where
  "tree_chunks rs fsb = (let np = (\<lambda>n. prop_bytes (bytes_of_string ''name'') (bytes_of_string n @ [0])) in [
     node_bytes 1 3, np ''/'',
     node_bytes 2 1, np ''chosen'', prop_bytes (bytes_of_string ''random-seed'') random_seed,
     node_bytes (1 + of_nat (length rs)) 0, np ''memory-map'',
     concat (map (\<lambda>(n, v). prop_bytes n v) (kext_props rs)),
     node_bytes 1 1, np ''efi'',
     node_bytes 2 0, np ''platform'', prop_bytes (bytes_of_string ''FSBFrequency'') (le_split 8 fsb),
     node_bytes 2 0, np ''pci'', prop_bytes (bytes_of_string ''pci-bus-info'') pci_bus_info])"

lemma tree_chunks_encode: "concat (tree_chunks rs fsb) = dt_encode (synthetic_tree rs fsb)"
  by (simp add: tree_chunks_def synthetic_tree_def name_prop_def Let_def kext_props_def)

lemma appends_name: "appends buffer (dt_name_step buffer n) (prop_bytes (bytes_of_string ''name'') (bytes_of_string n @ [0]))"
  if "length n < 100"
  using appends_property [of "bytes_of_string n @ [0]" buffer "bytes_of_string ''name''"] that
  by (simp add: dt_name_step_def panthera_dt_append_name_def bytes_of_string_def)

lemma appends_prop: "length val < 100 \<Longrightarrow> appends buffer (dt_prop_step buffer n val) (prop_bytes (bytes_of_string n) val)"
  using appends_property [of val buffer "bytes_of_string n"] by (simp add: dt_prop_step_def)

lemma appends_kext_props:
  "appends buffer (dt_kexts_step buffer rs) (concat (map (\<lambda>(n, v). prop_bytes n v) (kext_props rs)))"
  using appends_kexts [of buffer rs] by (simp add: kext_props_def comp_def)

lemma length_tree: "length (dt_encode (synthetic_tree rs fsb)) = 496 + 44 * length rs"
  using length_kext_bytes [of rs]
  by (simp add: synthetic_tree_def name_prop_def node_bytes_def length_prop_bytes bytes_of_string_def
      random_seed_def pci_bus_info_def)

lemma write_device_tree_encodes:
  assumes "length rs = unat kext_count" and "unat kext_count \<le> 34" and "rs = take (unat kext_count) records"
  shows "write_device_tree buffer kext_count records fsb m =
    (EFI_SUCCESS, of_nat (496 + 44 * length rs), wr_bytes m buffer (dt_encode (synthetic_tree rs fsb)))"
proof -
  have fits: "length (dt_encode (synthetic_tree rs fsb)) \<le> 65536" using assms by (simp add: length_tree)
  have cnt: "of_nat (length rs) = kext_count" using assms(1) by simp
  note steps = appends_node appends_name appends_prop appends_kext_props
  have "\<exists>fs. write_device_tree buffer kext_count records fsb m = dt_steps fs (0, m) \<and>
      appends_all buffer fs (tree_chunks rs fsb)"
    unfolding write_device_tree_def assms(3) [symmetric]
    by (intro exI conjI, rule refl)
      (simp add: tree_chunks_def Let_def steps cnt random_seed_def pci_bus_info_def)
  then obtain fs where "write_device_tree buffer kext_count records fsb m = dt_steps fs (0, m)"
    "appends_all buffer fs (tree_chunks rs fsb)" by blast
  then show ?thesis
    using dt_steps_appends [of buffer fs "tree_chunks rs fsb" "[]" m] fits
    by (simp add: tree_chunks_encode length_tree)
qed

lemma synthetic_tree_ok:
  assumes "length rs \<le> 34" and "\<forall>r \<in> set rs. 0 \<notin> set (driver_entry_name r) \<and> length (driver_entry_name r) \<le> 31"
  shows "tree_ok (synthetic_tree rs fsb)" and "tree_depth (synthetic_tree rs fsb) = 3"
  using assms
  by (auto simp: synthetic_tree_def name_prop_def prop_ok_def bytes_of_string_def random_seed_def
      pci_bus_info_def kext_props_def device_tree_buffer_bytes_def)

lemma device_tree_content:
  assumes "run_state (panthera_build_synthetic_device_tree fw) s = (status, s')" and "\<not> EFI_ERROR status"
    and "unat (gBootKextCount s) = length rs" and "length rs \<le> 34"
    and "take (length rs) (gBootKextRecords s) = rs"
    and "\<forall>r \<in> set rs. 0 \<notin> set (driver_entry_name r) \<and> length (driver_entry_name r) \<le> 31"
  shows "decode_node 3 (rd_bytes (bmem s') (gDeviceTreeBase s') (unat (gDeviceTreeSize s'))) =
    Some (synthetic_tree rs (gFSBFrequencyHz s), [])"
proof -
  obtain m w where alloc: "run_state (panthera_allocate_buffer_pages fw 65536) s =
      (fst (run_state (panthera_allocate_buffer_pages fw 65536) s), s\<lparr>bmem := m, fw_state := w\<rparr>)"
    by (rule machine_only_run [OF machine_buffers(1)])
  obtain st buffer where r: "fst (run_state (panthera_allocate_buffer_pages fw 65536) s) = (st, buffer)"
    by fastforce
  define t where "t = synthetic_tree rs (gFSBFrequencyHz s)"
  have ok: "\<not> EFI_ERROR st"
    using assms(1,2) alloc r by (auto simp: panthera_build_synthetic_device_tree_def split: if_splits)
  define m0 where "m0 = panthera_zero_memory buffer 65536 m"
  have w: "write_device_tree buffer (gBootKextCount s) (gBootKextRecords s) (gFSBFrequencyHz s) m0 =
      (EFI_SUCCESS, of_nat (496 + 44 * length rs), wr_bytes m0 buffer (dt_encode t))"
    unfolding t_def by (rule write_device_tree_encodes) (use assms in simp_all)
  have "bmem s' = wr_bytes m0 buffer (dt_encode t)" "gDeviceTreeBase s' = buffer"
    "gDeviceTreeSize s' = ucast (of_nat (496 + 44 * length rs) :: u64)"
    using assms(1) alloc r ok w
    by (auto simp: panthera_build_synthetic_device_tree_def modify_mem_def m0_def)
  moreover have "unat (ucast (of_nat (496 + 44 * length rs) :: u64) :: u32) = length (dt_encode t)"
    unfolding ucast_of_nat_32 t_def length_tree
    by (rule unat_of_nat_small) (use assms(4) in simp)
  moreover have "rd_bytes (wr_bytes m0 buffer (dt_encode t)) buffer (length (dt_encode t)) = dt_encode t"
    using assms(4) by (intro rd_bytes_wr_prefix) (simp add: t_def length_tree)
  moreover have "decode_node 3 (dt_encode t @ []) = Some (t, [])"
    unfolding t_def by (rule decode_encode) (use synthetic_tree_ok [OF assms(4,6)] in simp_all)
  ultimately show ?thesis by (simp add: t_def)
qed

text \<open>
  C25. The device tree left in memory is the intended one: when the build succeeds with at most 34
  staged kexts whose driver names fit their field, decoding the buffer of the recorded size gives
  exactly the tree with the root, the memory map listing every staged kext, the platform node with
  the measured frequency and the PCI node, and nothing is left over.
\<close>

theorem device_tree_decodes:
  assumes "run_state (panthera_build_synthetic_device_tree fw) s = (status, s')" and "\<not> EFI_ERROR status"
    and "unat (gBootKextCount s) = length rs" and "length rs \<le> 34"
    and "take (length rs) (gBootKextRecords s) = rs"
    and "\<forall>r \<in> set rs. 0 \<notin> set (driver_entry_name r) \<and> length (driver_entry_name r) \<le> 31"
  shows "decode_node 3 (rd_bytes (bmem s') (gDeviceTreeBase s') (unat (gDeviceTreeSize s'))) =
    Some (synthetic_tree rs (gFSBFrequencyHz s), [])"
  using assms by (rule device_tree_content)

definition demo_kext_record :: PantheraBootKextRecord where
  "demo_kext_record = zero_kext_record\<lparr>driver_entry_name := bytes_of_string ''Driver-zfs'',
     device_tree_buffer := \<lparr>dtb_paddr = 0x5000, dtb_length = 24\<rparr>\<rparr>"

definition demo_tree_state :: "unit boot" where
  "demo_tree_state = initial_boot ()\<lparr>gBootKextCount := 1, gBootKextRecords := [demo_kext_record]\<rparr>"

theorem device_tree_decodes_witness:
  "\<exists>status s'. run_state (panthera_build_synthetic_device_tree demo_firmware) demo_tree_state = (status, s') \<and>
     \<not> EFI_ERROR status \<and>
     decode_node 3 (rd_bytes (bmem s') (gDeviceTreeBase s') (unat (gDeviceTreeSize s'))) =
       Some (synthetic_tree [demo_kext_record] 100000000, [])"
proof -
  obtain status s' where run: "run_state (panthera_build_synthetic_device_tree demo_firmware) demo_tree_state = (status, s')"
    by fastforce
  have rs: "unat (gBootKextCount demo_tree_state) = length [demo_kext_record]"
    "take (length [demo_kext_record]) (gBootKextRecords demo_tree_state) = [demo_kext_record]"
    "gFSBFrequencyHz demo_tree_state = 100000000"
    by (simp_all add: demo_tree_state_def initial_boot_def)
  have w: "write_device_tree b 1 [demo_kext_record] f m = (EFI_SUCCESS, of_nat (496 + 44 * length [demo_kext_record]),
      wr_bytes m b (dt_encode (synthetic_tree [demo_kext_record] f)))" for b f m
    by (rule write_device_tree_encodes) simp_all
  have "\<not> EFI_ERROR status"
    using run w
    by (auto simp: panthera_build_synthetic_device_tree_def panthera_allocate_buffer_pages_def
        panthera_allocate_pages_def demo_firmware_def demo_tree_state_def)
  moreover have "0 \<notin> set (driver_entry_name demo_kext_record) \<and> length (driver_entry_name demo_kext_record) \<le> 31"
    by (simp add: demo_kext_record_def bytes_of_string_def)
  ultimately show ?thesis
    using device_tree_decodes [OF run _ rs(1) _ rs(2)] run rs(3) by auto
qed

end
