(* ===== verification/Boot_Kexts.thy ===== *)
theory Boot_Kexts
  imports Boot_Files Boot_DeviceTree
begin

text \<open>
  The boot kernel extensions, \<open>gBootKextManifest\<close> and \<open>panthera_stage_boot_kexts\<close> of
  \<open>boot/efi/loader/src/bootx64.c\<close>: the manifest table, and the loop that loads every selected bundle
  into the kernel boot data area and fills one record per bundle. The theorems give the bump
  allocator's contract, and show that staging records exactly the bundles selected by the command
  line, in manifest order, which the device tree then lists.
\<close>

section \<open>The manifest\<close>

record PantheraBootKextManifestEntry =
  bundle_name :: "string option"
  bundle_path :: "u8 list"
  info_path :: "u16 list option"
  executable_path :: "u16 list option"
  manifest_driver_entry_name :: "u8 list"
  required_boot_arg :: "u8 list option"

definition slash_path :: "string list \<Rightarrow> u8 list" where
  "slash_path parts = concat (map (\<lambda>p. 0x2f # bytes_of_string p) parts)"

text \<open>The three shapes of entry in the table: \<open>System.kext\<close>, its plug-ins, and a bundle with an
  executable, with or without a required boot argument.\<close>

definition system_entry :: PantheraBootKextManifestEntry where
  "system_entry = \<lparr>bundle_name = Some ''SystemKernel'',
     bundle_path = slash_path [''System'', ''Library'', ''Extensions'', ''System.kext''],
     info_path = Some (wide_path [''System'', ''Library'', ''Extensions'', ''System.kext'', ''Info.plist'']),
     executable_path = None, manifest_driver_entry_name = bytes_of_string ''Driver-SystemKernel'',
     required_boot_arg = None\<rparr>"

definition plugin_entry :: "string \<Rightarrow> string \<Rightarrow> PantheraBootKextManifestEntry" where
  "plugin_entry name kext = \<lparr>bundle_name = Some name,
     bundle_path = slash_path [''System'', ''Library'', ''Extensions'', ''System.kext'', ''PlugIns'', kext],
     info_path = Some (wide_path [''System'', ''Library'', ''Extensions'', ''System.kext'', ''PlugIns'', kext, ''Info.plist'']),
     executable_path = None, manifest_driver_entry_name = bytes_of_string (''Driver-'' @ name),
     required_boot_arg = None\<rparr>"

definition kext_entry :: "string \<Rightarrow> string option \<Rightarrow> PantheraBootKextManifestEntry" where
  "kext_entry name arg = (let kext = name @ ''.kext'' in \<lparr>bundle_name = Some name,
     bundle_path = slash_path [''System'', ''Library'', ''Extensions'', kext],
     info_path = Some (wide_path [''System'', ''Library'', ''Extensions'', kext, ''Contents'', ''Info.plist'']),
     executable_path = Some (wide_path [''System'', ''Library'', ''Extensions'', kext, ''Contents'', ''MacOS'', name]),
     manifest_driver_entry_name = bytes_of_string (''Driver-'' @ name),
     required_boot_arg = map_option bytes_of_string arg\<rparr>)"

definition null_entry :: PantheraBootKextManifestEntry where
  "null_entry = \<lparr>bundle_name = None, bundle_path = [], info_path = None, executable_path = None,
     manifest_driver_entry_name = [], required_boot_arg = None\<rparr>"

definition manifest_system :: "PantheraBootKextManifestEntry list" where
  "manifest_system = [
     system_entry, plugin_entry ''BSDKernel'' ''BSDKernel.kext'', plugin_entry ''IOKitKPI'' ''IOKit.kext'',
     plugin_entry ''LibkernKPI'' ''Libkern.kext'', plugin_entry ''MachKPI'' ''Mach.kext'',
     plugin_entry ''PrivateKPI'' ''Private.kext'', plugin_entry ''UnsupportedKPI'' ''Unsupported.kext'']"

definition manifest_platform :: "PantheraBootKextManifestEntry list" where
  "manifest_platform = [
     kext_entry ''corecrypto'' (Some ''panthera_zfs_spl=1''), kext_entry ''spl'' (Some ''panthera_zfs_spl=1''),
     kext_entry ''zfs'' (Some ''panthera_zfs=1''),
     kext_entry ''AppleAPIC'' None, kext_entry ''AppleSMBIOS'' None, kext_entry ''AppleI386PCI'' None,
     kext_entry ''AppleI386GenericPlatform'' None, kext_entry ''IOACPIFamily'' None,
     kext_entry ''IOPCIFamily'' None, kext_entry ''IOHIDFamily'' None]"

definition manifest_usb :: "PantheraBootKextManifestEntry list" where
  "manifest_usb = [
     kext_entry ''IOUSBFamily'' (Some ''panthera_usbhid=1''), kext_entry ''AppleUSBEHCI'' (Some ''panthera_usbhid=1''),
     kext_entry ''AppleUSBUHCI'' (Some ''panthera_usbhid=1''), kext_entry ''AppleUSBHub'' (Some ''panthera_usbhid=1''),
     kext_entry ''IOUSBCompositeDriver'' (Some ''panthera_usbhid=1''),
     kext_entry ''IOUSBHIDDriver'' (Some ''panthera_usbhid=1'')]"

definition manifest_devices :: "PantheraBootKextManifestEntry list" where
  "manifest_devices = [
     kext_entry ''IONetworkingFamily'' None, kext_entry ''AppleRTL8139Ethernet'' None,
     kext_entry ''IOHIDSystem'' None, kext_entry ''IOStorageFamily'' None, kext_entry ''HFSEncodings'' None,
     kext_entry ''HFS'' None, kext_entry ''IOATAFamily'' None, kext_entry ''AppleIntelPIIXATA'' None,
     kext_entry ''PantheraATAStorage'' None, kext_entry ''IOGraphicsFamily'' (Some ''panthera_iog=1'')]"

definition gBootKextManifest :: "PantheraBootKextManifestEntry list" where
  "gBootKextManifest = manifest_system @ manifest_platform @ manifest_usb @ manifest_devices @ [null_entry]"

lemmas manifest_defs = gBootKextManifest_def manifest_system_def manifest_platform_def manifest_usb_def
  manifest_devices_def

section \<open>Staging\<close>

definition file_info_bytes :: "PantheraBooterKextFileInfo \<Rightarrow> u8 list" where
  "file_info_bytes i = le_split 4 (infoDictPhysAddr i) @ le_split 4 (infoDictLength i) @
     le_split 4 (executablePhysAddr i) @ le_split 4 (executableLength i) @
     le_split 4 (bundlePathPhysAddr i) @ le_split 4 (bundlePathLength i)"

text \<open>The record at \<open>gBootKextCount\<close> is filled field by field. An output argument a failing call does not
  write is \<open>0\<close> in that call's result, which is the field's value in the zeroed record.\<close>

definition update_record :: "(PantheraBootKextRecord \<Rightarrow> PantheraBootKextRecord) \<Rightarrow> ('w boot, unit) state" where
  "update_record f = modify (\<lambda>s. let i = unat (gBootKextCount s) in
     s\<lparr>gBootKextRecords := (gBootKextRecords s)[i := f (gBootKextRecords s ! i)]\<rparr>)"

definition load_executable ::
  "'w firmware \<Rightarrow> u64 \<Rightarrow> PantheraBootKextManifestEntry \<Rightarrow> ('w boot, u64 \<times> u64 \<times> u64) state" where
  "load_executable fw image_handle entry =
     (case executable_path entry of
        None \<Rightarrow> ret (EFI_SUCCESS, 0, 0)
      | Some path \<Rightarrow> panthera_load_file_to_pages fw image_handle path 0)"

definition say_entry :: "'w firmware \<Rightarrow> string \<Rightarrow> PantheraBootKextManifestEntry \<Rightarrow> ('w boot, unit) state" where
  "say_entry fw msg entry = do {
     _ \<leftarrow> console_write_ascii fw (bytes_of_string msg);
     _ \<leftarrow> console_write_ascii fw (bytes_of_string (case bundle_name entry of None \<Rightarrow> '''' | Some n \<Rightarrow> n));
     _ \<leftarrow> console_write fw [0x0d, 0x0a];
     ret () }"

definition stage_one :: "'w firmware \<Rightarrow> u64 \<Rightarrow> PantheraBootKextManifestEntry \<Rightarrow> u16 list \<Rightarrow> ('w boot, u64) state" where
  "stage_one fw image_handle entry ipath = do {
     update_record (\<lambda>r. r\<lparr>driver_entry_name := manifest_driver_entry_name entry\<rparr>);
     (status, info_base, info_size) \<leftarrow> panthera_load_file_to_pages fw image_handle ipath 1;
     update_record (\<lambda>r. r\<lparr>info_dict_base := info_base, info_dict_size := info_size\<rparr>);
     if EFI_ERROR status then do { say_entry fw ''Boot kext Info.plist load failed: '' entry; ret status }
     else do {
       (status, exec_base, exec_size) \<leftarrow> load_executable fw image_handle entry;
       update_record (\<lambda>r. r\<lparr>executable_base := exec_base, executable_size := exec_size\<rparr>);
       if EFI_ERROR status then do { say_entry fw ''Boot kext executable load failed: '' entry; ret status }
       else do {
         (status, path_base, path_size) \<leftarrow> panthera_copy_ascii_to_kernel_boot_data fw (bundle_path entry);
         update_record (\<lambda>r. r\<lparr>bundle_path_base := path_base, bundle_path_size := path_size\<rparr>);
         if EFI_ERROR status then ret status
         else if EFI_ERROR (panthera_ensure_low32 path_base) then ret (panthera_ensure_low32 path_base)
         else do {
           (status, base) \<leftarrow> panthera_copy_buffer_to_kernel_boot_data fw
             (file_info_bytes \<lparr>infoDictPhysAddr = ucast info_base, infoDictLength = ucast info_size,
                executablePhysAddr = ucast exec_base, executableLength = ucast exec_size,
                bundlePathPhysAddr = ucast path_base, bundlePathLength = ucast path_size\<rparr>);
           update_record (\<lambda>r. r\<lparr>file_info_base := base\<rparr>);
           if EFI_ERROR status then ret status
           else if EFI_ERROR (panthera_ensure_low32 base) then ret (panthera_ensure_low32 base)
           else do {
             update_record (\<lambda>r. r\<lparr>device_tree_buffer := \<lparr>dtb_paddr = ucast base, dtb_length = 24\<rparr>\<rparr>);
             modify (\<lambda>s. s\<lparr>gBootKextCount := gBootKextCount s + 1\<rparr>);
             say_entry fw ''Boot kext staged: '' entry;
             ret EFI_SUCCESS
           }
         }
       }
     }
   }"

definition entry_selected :: "u8 list \<Rightarrow> PantheraBootKextManifestEntry \<Rightarrow> bool" where
  "entry_selected line entry \<longleftrightarrow>
     (case required_boot_arg entry of None \<Rightarrow> True | Some arg \<Rightarrow> panthera_command_line_has_token line arg)"

fun stage_entries ::
  "'w firmware \<Rightarrow> u64 \<Rightarrow> PantheraBootKextManifestEntry list \<Rightarrow> ('w boot, u64) state" where
  "stage_entries fw image_handle [] = ret EFI_SUCCESS"
| "stage_entries fw image_handle (entry # rest) =
     (case (bundle_name entry, info_path entry) of
        (Some n, Some ipath) \<Rightarrow> do {
          line \<leftarrow> gets gBootCommandLine;
          if \<not> entry_selected line entry then stage_entries fw image_handle rest
          else do {
            status \<leftarrow> stage_one fw image_handle entry ipath;
            if EFI_ERROR status then ret status else stage_entries fw image_handle rest
          }
        }
      | _ \<Rightarrow> ret EFI_SUCCESS)"

definition panthera_stage_boot_kexts :: "'w firmware \<Rightarrow> u64 \<Rightarrow> ('w boot, u64) state" where
  "panthera_stage_boot_kexts fw image_handle = do {
     modify (\<lambda>s. s\<lparr>gBootKextCount := 0\<rparr>);
     modify (\<lambda>s. s\<lparr>gBootKextRecords := replicate PANTHERA_MAX_BOOT_KEXTS zero_kext_record\<rparr>);
     stage_entries fw image_handle gBootKextManifest
   }"

section \<open>What staging records\<close>

definition named :: "PantheraBootKextManifestEntry \<Rightarrow> bool" where
  "named entry \<longleftrightarrow> bundle_name entry \<noteq> None \<and> info_path entry \<noteq> None"

definition selected :: "u8 list \<Rightarrow> PantheraBootKextManifestEntry list \<Rightarrow> PantheraBootKextManifestEntry list" where
  "selected line entries = filter (entry_selected line) (takeWhile named entries)"

text \<open>The areas a record owns in the boot data area, in the order they are allocated.\<close>

definition record_areas :: "PantheraBootKextManifestEntry \<Rightarrow> PantheraBootKextRecord \<Rightarrow> (u64 \<times> u64) list" where
  "record_areas entry r = (info_dict_base r, info_dict_size r) #
     (if executable_path entry = None then [] else [(executable_base r, executable_size r)]) @
     [(bundle_path_base r, bundle_path_size r), (file_info_base r, 24)]"

definition page_span :: "u64 \<Rightarrow> u64" where
  "page_span sz = panthera_align_page (if sz = 0 then 1 else sz)"

text \<open>Areas packed page after page from \<open>c\<close> to \<open>c'\<close>.\<close>

fun packed :: "u64 \<Rightarrow> (u64 \<times> u64) list \<Rightarrow> u64 \<Rightarrow> bool" where
  "packed c [] c' \<longleftrightarrow> c = c'"
| "packed c ((b, sz) # areas) c' \<longleftrightarrow> b = c \<and> packed (c + page_span sz) areas c'"

lemma packed_append: "packed c (xs @ ys) c' \<longleftrightarrow> (\<exists>d. packed c xs d \<and> packed d ys c')"
  by (induction c xs c' rule: packed.induct) auto

definition record_ok :: "PantheraBootKextManifestEntry \<Rightarrow> PantheraBootKextRecord \<Rightarrow> bool" where
  "record_ok entry r \<longleftrightarrow> driver_entry_name r = manifest_driver_entry_name entry \<and>
     ucast (dtb_paddr (device_tree_buffer r)) = file_info_base r \<and> dtb_length (device_tree_buffer r) = 24 \<and>
     bundle_path_size r = of_nat (length (bundle_path entry)) + 1 \<and>
     (executable_path entry = None \<longrightarrow> executable_base r = 0 \<and> executable_size r = 0) \<and>
     (\<forall>(b, sz) \<in> set (record_areas entry r). b \<le> 0xffffffff)"

text \<open>UEFI: a successful \<open>AllocatePages\<close> of type \<open>AllocateAddress\<close> gives the pages asked for.\<close>

definition exact_pages :: "'w firmware \<Rightarrow> bool" where
  "exact_pages fw \<longleftrightarrow> (\<forall>f t n a x. AllocatePages fw = Some f \<longrightarrow>
     \<not> EFI_ERROR (fst (fst (f EFI_ALLOCATE_ADDRESS t n a x))) \<longrightarrow> snd (fst (f EFI_ALLOCATE_ADDRESS t n a x)) = a)"

definition reserved_ok :: "'w boot \<Rightarrow> bool" where
  "reserved_ok s \<longleftrightarrow> gKernelReservedSize s = gKernelBootDataCursor s - gKernelTextBase s"

definition staging ::
  "bool \<Rightarrow> u8 list \<Rightarrow> PantheraBootKextRecord list \<Rightarrow> u32 \<Rightarrow> u64 \<Rightarrow> 'w boot \<Rightarrow> bool" where
  "staging res line rs n c s \<longleftrightarrow> gBootCommandLine s = line \<and> gBootKextRecords s = rs \<and> gBootKextCount s = n \<and>
     gKernelBootDataCursor s = c \<and> (res \<longrightarrow> reserved_ok s)"

lemma machine_load_kernel_file [machine]: "machine_only (panthera_load_kernel_file fw h p)"
  by (simp add: panthera_load_kernel_file_def read_open_file_def close_both_def Let_def machine)

lemma machine_say_entry [machine]: "machine_only (say_entry fw msg e)"
  by (simp add: say_entry_def machine)

lemma triple_machine:
  fixes p :: "('w boot, 'a) state"
  assumes "machine_only p"
  shows "triple (staging res line rs n c) p (\<lambda>_. staging res line rs n c)"
  unfolding triple_def
proof (intro allI impI)
  fix s :: "'w boot"
  assume "staging res line rs n c s"
  moreover obtain m w where "snd (run_state p s) = s\<lparr>bmem := m, fw_state := w\<rparr>"
    using assms unfolding machine_only_def by blast
  ultimately show "staging res line rs n c (snd (run_state p s))"
    by (simp add: staging_def reserved_ok_def)
qed

lemma triple_machine_then:
  assumes "machine_only p" and "\<And>a. triple (staging res line rs n c) (f a) Q"
  shows "triple (staging res line rs n c) (State_Monad.bind p f) Q"
  by (rule triple_bind [OF triple_machine [OF assms(1)] assms(2)])

lemma triple_update:
  assumes "triple (staging res line (rs[unat n := f r]) n c) q Q" and "unat n < length rs"
  shows "triple (staging res line (rs[unat n := r]) n c) (State_Monad.bind (update_record f) (\<lambda>_. q)) Q"
proof (rule triple_bind [where R = "\<lambda>_. staging res line (rs[unat n := f r]) n c"])
  show "triple (staging res line (rs[unat n := r]) n c) (update_record f)
      (\<lambda>_. staging res line (rs[unat n := f r]) n c)"
    using assms(2) by (auto simp: triple_def staging_def reserved_ok_def update_record_def Let_def)
qed (rule assms(1))

text \<open>An area is placed at the cursor, and the cursor moves past it.\<close>

definition placed :: "'w firmware \<Rightarrow> u64 \<Rightarrow> u64 \<Rightarrow> u64 \<Rightarrow> u64 \<Rightarrow> bool" where
  "placed fw c b sz c' \<longleftrightarrow> (exact_pages fw \<longrightarrow> b = c \<and> c' = c + page_span sz)"

definition area_post ::
  "'w firmware \<Rightarrow> (u64 \<Rightarrow> u64 \<Rightarrow> bool) \<Rightarrow> bool \<Rightarrow> u8 list \<Rightarrow> PantheraBootKextRecord list \<Rightarrow> u32 \<Rightarrow> u64 \<Rightarrow> u64 \<Rightarrow> u64 \<Rightarrow> u64 \<Rightarrow> 'w boot \<Rightarrow> bool" where
  "area_post fw ok res line rs n c st b sz s \<longleftrightarrow> (\<exists>c'. staging res line rs n c' s \<and>
     (\<not> EFI_ERROR st \<longrightarrow> placed fw c b sz c' \<and> ok b sz))"

lemma triple_area:
  assumes "triple (staging res line rs n c) p (\<lambda>(st, b, sz). area_post fw ok res line rs n c st b sz)"
    and "\<And>st b sz c'. (\<not> EFI_ERROR st \<longrightarrow> placed fw c b sz c' \<and> ok b sz) \<Longrightarrow>
      triple (staging res line rs n c') (f st b sz) Q"
  shows "triple (staging res line rs n c) (State_Monad.bind p (\<lambda>(st, b, sz). f st b sz)) Q"
  using assms unfolding triple_def area_post_def by (fastforce split: prod.splits)

lemma triple_area_pair:
  assumes "triple (staging res line rs n c) p (\<lambda>(st, b). area_post fw ok res line rs n c st b sz)"
    and "\<And>st b c'. (\<not> EFI_ERROR st \<longrightarrow> placed fw c b sz c' \<and> ok b sz) \<Longrightarrow>
      triple (staging res line rs n c') (f st b) Q"
  shows "triple (staging res line rs n c) (State_Monad.bind p (\<lambda>(st, b). f st b)) Q"
  using assms unfolding triple_def area_post_def by (fastforce split: prod.splits)

lemma pages_at_exact:
  assumes "run_state (panthera_allocate_pages_at fw sz c) s = ((st, b), s')" and "\<not> EFI_ERROR st" and "exact_pages fw"
  shows "b = c"
  using assms unfolding panthera_allocate_pages_at_def exact_pages_def
  by (auto simp: EFI_ERROR_def split: option.splits prod.splits) (metis fst_conv snd_conv)

lemma triple_boot_data:
  fixes fw :: "'w firmware"
  shows "triple (staging res line rs n c) (panthera_allocate_kernel_boot_data_pages fw sz)
     (\<lambda>(st, b). area_post fw (\<lambda>_ _. True) res line rs n c st b sz)"
  unfolding triple_def
proof (intro allI impI)
  fix s :: "'w boot"
  define t where "t = panthera_align_page (if sz = 0 then 1 else sz)"
  assume s: "staging res line rs n c s"
  obtain m w where p: "run_state (panthera_allocate_pages_at fw t c) s =
      (fst (run_state (panthera_allocate_pages_at fw t c) s), s\<lparr>bmem := m, fw_state := w\<rparr>)"
    by (rule machine_only_run [OF machine_services(5)])
  obtain st b where r: "fst (run_state (panthera_allocate_pages_at fw t c) s) = (st, b)" by fastforce
  have "\<not> EFI_ERROR st \<Longrightarrow> exact_pages fw \<Longrightarrow> b = c" using p r by (auto intro: pages_at_exact)
  then show "(case fst (run_state (panthera_allocate_kernel_boot_data_pages fw sz) s) of (st, b) \<Rightarrow>
      area_post fw (\<lambda>_ _. True) res line rs n c st b sz) (snd (run_state (panthera_allocate_kernel_boot_data_pages fw sz) s))"
    using s p r unfolding panthera_allocate_kernel_boot_data_pages_def
    by (auto simp: Let_def t_def [symmetric] staging_def area_post_def reserved_ok_def placed_def page_span_def
        EFI_ERROR_def)
qed

lemma triple_copy_buffer:
  assumes "length src < 2 ^ 64" "src \<noteq> []"
  shows "triple (staging res line rs n c) (panthera_copy_buffer_to_kernel_boot_data fw src)
     (\<lambda>(st, b). area_post fw (\<lambda>_ _. True) res line rs n c st b (of_nat (length src)))"
proof -
  have nz: "(of_nat (length src) :: u64) \<noteq> 0"
    using assms by (simp add: word_of_nat_eq_0_iff) (meson dvd_imp_le length_greater_0_conv not_le)
  show ?thesis
    unfolding panthera_copy_buffer_to_kernel_boot_data_def Let_def if_not_P [OF nz]
    apply (rule triple_area_pair [OF triple_boot_data])
    apply (rule triple_if)
     apply (rule triple_ret, auto simp: area_post_def)[1]
    apply (rule triple_machine_then, simp add: machine)+
    apply (rule triple_ret, auto simp: area_post_def)
    done
qed

lemma triple_copy_ascii:
  assumes "length txt < 2 ^ 32" "0 \<notin> set txt"
  shows "triple (staging res line rs n c) (panthera_copy_ascii_to_kernel_boot_data fw txt)
     (\<lambda>(st, b, sz). area_post fw (\<lambda>_ sz. sz = of_nat (length txt) + 1) res line rs n c st b sz)"
  unfolding panthera_copy_ascii_to_kernel_boot_data_def Let_def
    apply (rule triple_area_pair [OF triple_copy_buffer])
    using assms apply simp
    apply simp
    apply (rule triple_if)
    using assms by (auto intro!: triple_ret simp: area_post_def EFI_ERROR_def add.commute)

lemma triple_machine_then3:
  assumes "machine_only p" and "\<And>a b d. triple (staging res line rs n c) (f a b d) Q"
  shows "triple (staging res line rs n c) (State_Monad.bind p (\<lambda>(a, b, d). f a b d)) Q"
  by (rule triple_machine_then [OF assms(1)]) (use assms(2) in \<open>simp split: prod.splits\<close>)

lemma page_span_if [simp]: "page_span (if sz = 0 then 1 else sz) = page_span sz"
  by (simp add: page_span_def)

lemma triple_load_file:
  "triple (staging res line rs n c) (panthera_load_file_to_pages fw h path k)
     (\<lambda>(st, b, sz). area_post fw (\<lambda>b _. b \<le> 0xffffffff) res line rs n c st b sz)"
  unfolding panthera_load_file_to_pages_def Let_def
  apply (rule triple_machine_then3 [OF machine_load_kernel_file])
  apply (rule triple_if)
   apply (rule triple_ret, force simp: area_post_def)
  apply (rule triple_area_pair [OF triple_boot_data])
  apply (rule triple_machine_then, simp add: machine)+
  apply (intro triple_if triple_ret)
    apply (auto simp: area_post_def panthera_ensure_low32_def placed_def EFI_ERROR_def split: if_splits)
  done

lemma triple_executable_then:
  assumes "\<And>st b sz c'. (\<not> EFI_ERROR st \<longrightarrow> b \<le> 0xffffffff \<and>
      (if executable_path entry = None then b = 0 \<and> sz = 0 \<and> c' = c else placed fw c b sz c')) \<Longrightarrow>
      triple (staging res line rs n c') (f st b sz) Q"
  shows "triple (staging res line rs n c) (State_Monad.bind (load_executable fw h entry) (\<lambda>(st, b, sz). f st b sz)) Q"
proof (cases "executable_path entry")
  case None
  then have "triple (staging res line rs n c) (f 0 0 0) Q" by (intro assms) simp
  with None show ?thesis by (simp add: load_executable_def)
next
  case (Some path)
  then show ?thesis
    unfolding load_executable_def by simp (rule triple_area [OF triple_load_file], rule assms, simp)
qed

definition entry_fits :: "PantheraBootKextManifestEntry \<Rightarrow> bool" where
  "entry_fits entry \<longleftrightarrow> 0 \<notin> set (bundle_path entry) \<and> length (bundle_path entry) < 2 ^ 32 \<and>
     0 \<notin> set (manifest_driver_entry_name entry) \<and> length (manifest_driver_entry_name entry) \<le> 31"

definition stage_one_post where
  "stage_one_post fw res line rs n c entry st s \<longleftrightarrow> (\<exists>r c'.
     if EFI_ERROR st then staging res line (rs[unat n := r]) n c' s
     else staging res line (rs[unat n := r]) (n + 1) c' s \<and> record_ok entry r \<and>
       (exact_pages fw \<longrightarrow> packed c (record_areas entry r) c'))"

lemma triple_failed:
  "EFI_ERROR st \<Longrightarrow> triple (staging res line (rs[unat n := r]) n c') (ret st) (stage_one_post fw res line rs n c entry)"
  by (rule triple_ret) (auto simp: stage_one_post_def)

lemma length_file_info [simp]: "length (file_info_bytes i) = 24"
  by (simp add: file_info_bytes_def)

lemma low32_ucast: "b \<le> 0xffffffff \<Longrightarrow> ucast (ucast (b :: u64) :: u32) = b"
  by (simp add: word_unat_eq_iff unsigned_ucast_eq unsigned_take_bit_eq take_bit_nat_eq_self_iff word_le_nat_alt)

lemma low32_ok: "\<not> EFI_ERROR (panthera_ensure_low32 b) \<Longrightarrow> b \<le> 0xffffffff"
  by (auto simp: panthera_ensure_low32_def EFI_ERROR_def split: if_splits)

lemma triple_staged:
  assumes "record_ok entry r" "exact_pages fw \<longrightarrow> packed c (record_areas entry r) c'"
  shows "triple (staging res line (rs[unat n := r]) n c')
    (do { modify (\<lambda>s. s\<lparr>gBootKextCount := gBootKextCount s + 1\<rparr>); say_entry fw msg entry; ret EFI_SUCCESS })
    (stage_one_post fw res line rs n c entry)"
proof (rule triple_bind [where R = "\<lambda>_. staging res line (rs[unat n := r]) (n + 1) c'"])
  show "triple (staging res line (rs[unat n := r]) n c') (modify (\<lambda>s. s\<lparr>gBootKextCount := gBootKextCount s + 1\<rparr>))
      (\<lambda>_. staging res line (rs[unat n := r]) (n + 1) c')"
    by (auto simp: triple_def staging_def reserved_ok_def)
  show "triple (staging res line (rs[unat n := r]) (n + 1) c') (do { say_entry fw msg entry; ret EFI_SUCCESS })
      (stage_one_post fw res line rs n c entry)"
    using assms by (intro triple_machine_then machine_say_entry triple_ret)
      (auto simp: stage_one_post_def EFI_ERROR_def)
qed

lemma triple_stage_one:
  assumes n: "unat n < length rs" and e: "entry_fits entry"
  shows "triple (staging res line rs n c) (stage_one fw h entry ipath) (stage_one_post fw res line rs n c entry)"
proof -
  have "triple (staging res line (rs[unat n := rs ! unat n]) n c) (stage_one fw h entry ipath)
      (stage_one_post fw res line rs n c entry)"
    unfolding stage_one_def
    apply (rule triple_update [OF _ n])
    apply (rule triple_area [OF triple_load_file])
    apply (rule triple_update [OF _ n])
    apply (rule triple_if)
     apply (rule triple_machine_then, simp add: machine, rule triple_failed, assumption)
    apply (rule triple_executable_then)
    apply (rule triple_update [OF _ n])
    apply (rule triple_if)
     apply (rule triple_machine_then, simp add: machine, rule triple_failed, assumption)
    apply (rule triple_area [OF triple_copy_ascii])
    using e apply (simp add: entry_fits_def)
    using e apply (simp add: entry_fits_def)
    apply (rule triple_update [OF _ n])
    apply (rule triple_if, rule triple_failed, assumption)
    apply (rule triple_if, rule triple_failed, assumption)
    apply (rule triple_area_pair [OF triple_copy_buffer])
    apply simp
    subgoal by (metis length_file_info list.size(3) zero_neq_numeral)
    apply (rule triple_update [OF _ n])
    apply (rule triple_if, rule triple_failed, assumption)
    apply (rule triple_if, rule triple_failed, assumption)
    apply (rule triple_update [OF _ n])
    apply (rule triple_staged)
     apply (auto simp: record_ok_def record_areas_def low32_ucast dest: low32_ok)[1]
    apply (auto simp: record_areas_def placed_def)
    done
  then show ?thesis by simp
qed

definition staged_post where
  "staged_post fw res line rs n c sel st s \<longleftrightarrow> (\<exists>ts rs' c'.
     staging res line rs' (n + of_nat (length ts)) c' s \<and> length rs' = length rs \<and>
     take (unat n + length ts) rs' = take (unat n) rs @ ts \<and>
     length ts \<le> length sel \<and> list_all2 record_ok (take (length ts) sel) ts \<and>
     (\<not> EFI_ERROR st \<longrightarrow> length ts = length sel \<and>
       (exact_pages fw \<longrightarrow> packed c (concat (map2 record_areas sel ts)) c')))"

lemma staged_post_nil:
  assumes "staging res line rs' n c' s" "EFI_ERROR st \<or> sel = [] \<and> c' = c" "length rs' = length rs" "take (unat n) rs' = take (unat n) rs"
  shows "staged_post fw res line rs n c sel st s"
  unfolding staged_post_def
  by (rule exI [of _ "[]"], rule exI [of _ rs'], rule exI [of _ c']) (use assms in auto)

lemma staged_post_cons:
  assumes "staged_post fw res line (rs[unat n := r]) (n + 1) d sel st s" and "record_ok e r"
    and "exact_pages fw \<longrightarrow> packed c (record_areas e r) d"
    and "unat n < length rs" and "unat (n + 1) = Suc (unat n)"
  shows "staged_post fw res line rs n c (e # sel) st s"
proof -
  obtain ts rs' c' where ts: "staging res line rs' (n + 1 + of_nat (length ts)) c' s" "length rs' = length rs"
      "take (Suc (unat n) + length ts) rs' = take (Suc (unat n)) (rs[unat n := r]) @ ts"
      "length ts \<le> length sel" "list_all2 record_ok (take (length ts) sel) ts"
      "\<not> EFI_ERROR st \<longrightarrow> length ts = length sel \<and>
        (exact_pages fw \<longrightarrow> packed d (concat (map2 record_areas sel ts)) c')"
    using assms(1,5) unfolding staged_post_def by auto
  have "take (Suc (unat n)) (rs[unat n := r]) = take (unat n) rs @ [r]"
    using assms(4) by (simp add: take_Suc_conv_app_nth)
  then show ?thesis
    unfolding staged_post_def using ts assms(2,3)
    by (intro exI [of _ "r # ts"] exI [of _ rs'] exI [of _ c']) (auto simp: packed_append add.assoc)
qed

lemma triple_stage_then:
  fixes fw :: "'w firmware"
  assumes "entry_fits e" and n: "unat n < length rs" "unat (n + 1) = Suc (unat n)"
    and rest: "\<And>r d. triple (staging res line (rs[unat n := r]) (n + 1) d) rest
      (staged_post fw res line (rs[unat n := r]) (n + 1) d sel)"
  shows "triple (staging res line rs n c) (do {
       status \<leftarrow> stage_one fw h e ip; if EFI_ERROR status then ret status else rest })
     (staged_post fw res line rs n c (e # sel))"
proof (rule triple_bind [OF triple_stage_one [OF n(1) assms(1)]], rule triple_if)
  fix st :: u64
  show "triple (stage_one_post fw res line rs n c e st) (ret st) (staged_post fw res line rs n c (e # sel))"
    if "EFI_ERROR st"
    using that by (intro triple_ret) (auto simp: stage_one_post_def intro: staged_post_nil)
  show "triple (stage_one_post fw res line rs n c e st) rest (staged_post fw res line rs n c (e # sel))"
    if ok: "\<not> EFI_ERROR st"
    unfolding triple_def
  proof (intro allI impI)
    fix s :: "'w boot"
    assume "stage_one_post fw res line rs n c e st s"
    then obtain r d where r: "staging res line (rs[unat n := r]) (n + 1) d s" "record_ok e r"
        "exact_pages fw \<longrightarrow> packed c (record_areas e r) d"
      using ok unfolding stage_one_post_def by auto
    show "staged_post fw res line rs n c (e # sel) (fst (run_state rest s)) (snd (run_state rest s))"
      by (rule staged_post_cons [OF _ r(2,3) n]) (use rest r(1) in \<open>simp add: triple_def\<close>)
  qed
qed

lemma triple_stage_entries:
  assumes "\<forall>e \<in> set es. entry_fits e" and "unat n + length (selected line es) \<le> length rs" and "length rs \<le> 34"
  shows "triple (staging res line rs n c) (stage_entries fw h es) (staged_post fw res line rs n c (selected line es))"
  using assms
proof (induction es arbitrary: rs n c)
  case Nil
  then show ?case by (auto intro!: triple_ret staged_post_nil simp: selected_def)
next
  case (Cons e es)
  show ?case
  proof (cases "\<exists>nm ip. bundle_name e = Some nm \<and> info_path e = Some ip")
    case False
    then have "selected line (e # es) = []" "stage_entries fw h (e # es) = ret EFI_SUCCESS"
      by (auto simp: selected_def named_def split: option.splits)
    then show ?thesis by (auto intro!: triple_ret staged_post_nil)
  next
    case True
    then obtain nm ip where nm: "bundle_name e = Some nm" "info_path e = Some ip" by blast
    then have sel: "selected line (e # es) = (if entry_selected line e then e # selected line es else selected line es)"
      by (simp add: selected_def named_def)
    have line: "triple (staging res line rs n c) (gets gBootCommandLine) (\<lambda>l s. l = line \<and> staging res line rs n c s)"
      by (simp add: triple_def staging_def)
    have one: "triple (staging res line rs n c) (do {
         status \<leftarrow> stage_one fw h e ip; if EFI_ERROR status then ret status else stage_entries fw h es })
       (staged_post fw res line rs n c (e # selected line es))"
      if "entry_selected line e"
    proof -
      have n: "unat n < length rs" "unat (n + 1) = Suc (unat n)"
        using that Cons.prems sel by (auto simp: unat_word_ariths)
      show ?thesis
        by (rule triple_stage_then) (use that n Cons.prems sel in \<open>auto intro!: Cons.IH\<close>)
    qed
    have skip: "triple (staging res line rs n c) (stage_entries fw h es)
       (staged_post fw res line rs n c (selected line es))" if "\<not> entry_selected line e"
      using that Cons.prems sel by (intro Cons.IH) auto
    show ?thesis
      unfolding sel using nm one skip
      by (auto intro!: triple_bind [OF line] triple_assume)
  qed
qed

lemma manifest_fits: "\<forall>e \<in> set gBootKextManifest. entry_fits e"
  by (simp add: manifest_defs entry_fits_def system_entry_def plugin_entry_def kext_entry_def null_entry_def
      slash_path_def bytes_of_string_def Let_def)

lemma length_selected: "length (selected line gBootKextManifest) \<le> 33"
proof -
  have "takeWhile named gBootKextManifest = butlast gBootKextManifest"
    by (simp add: manifest_defs named_def system_entry_def plugin_entry_def kext_entry_def null_entry_def Let_def)
  moreover have "length (butlast gBootKextManifest) = 33" by (simp add: manifest_defs)
  ultimately show ?thesis unfolding selected_def by (metis length_filter_le)
qed

lemma triple_stage_boot_kexts:
  "triple (\<lambda>s. gBootCommandLine s = line \<and> gKernelBootDataCursor s = c \<and> (res \<longrightarrow> reserved_ok s))
     (panthera_stage_boot_kexts fw h)
     (staged_post fw res line (replicate 34 zero_kext_record) 0 c (selected line gBootKextManifest))"
proof -
  have "triple (staging res line (replicate 34 zero_kext_record) 0 c) (stage_entries fw h gBootKextManifest)
      (staged_post fw res line (replicate 34 zero_kext_record) 0 c (selected line gBootKextManifest))"
    using length_selected [of line] by (intro triple_stage_entries manifest_fits) auto
  then show ?thesis
    unfolding panthera_stage_boot_kexts_def
    by (auto simp: triple_def staging_def reserved_ok_def split: prod.splits)
qed


lemma zip_take_sel: "zip xs (take (length xs) ys) = zip xs ys"
  by (induction xs arbitrary: ys) (auto simp: take_Cons' zip_Cons1 split: list.splits)


section \<open>A firmware on which staging succeeds\<close>

text \<open>It has every file, all of them empty, and gives the pages it is asked for.\<close>

definition empty_files_firmware :: "(u64 multiset \<times> u64 multiset) firmware" where
  "empty_files_firmware = tracking_firmware\<lparr>GetInfo := (\<lambda>f g sz buf (m, w).
     ((if sz = 0 then EFI_BUFFER_TOO_SMALL else EFI_SUCCESS, 80), (wr64 m (buf + 8) 0, w)))\<rparr>"

lemma empty_files_exact: "exact_pages empty_files_firmware"
  by (simp add: exact_pages_def empty_files_firmware_def tracking_firmware_def)

lemma empty_files_load:
  "\<exists>m w. run_state (panthera_load_kernel_file empty_files_firmware h p) s =
    ((EFI_SUCCESS, 0x800000, 0), s\<lparr>bmem := m, fw_state := w\<rparr>)"
proof -
  obtain hs ps where w: "fw_state s = (hs, ps)" by fastforce
  have "run_state (panthera_load_kernel_file empty_files_firmware h p) s = ((EFI_SUCCESS, 0x800000, 0),
     s\<lparr>bmem := wr64 (wr64 (bmem s) 8 0) 0x800008 0, fw_state := (hs, add_mset 0x800000 ps)\<rparr>)"
    by (simp add: w panthera_load_kernel_file_def read_open_file_def close_both_def panthera_handle_protocol_def
        panthera_allocate_pool_def panthera_free_pool_def empty_files_firmware_def tracking_firmware_def
        EFI_ERROR_def rd64_wr64_same)
  then show ?thesis by blast
qed

definition cursor_at :: "nat \<Rightarrow> 'w boot \<Rightarrow> bool" where
  "cursor_at x s \<longleftrightarrow> gKernelBootDataCursor s = of_nat x"

definition goes_well :: "nat \<Rightarrow> u64 \<Rightarrow> u64 \<Rightarrow> 'w boot \<Rightarrow> bool" where
  "goes_well x st b s \<longleftrightarrow> st = EFI_SUCCESS \<and> b = of_nat x \<and> cursor_at (x + 4096) s"

lemma of_nat_low32: "0 < x \<Longrightarrow> x < 2 ^ 32 \<Longrightarrow> (of_nat x :: u64) \<noteq> 0 \<and> \<not> (of_nat x :: u64) > 0xffffffff"
  by (simp add: word_unat_eq_iff word_less_nat_alt unat_of_nat)

lemma unat_align_page: "unat v + 4095 < 2 ^ 64 \<Longrightarrow> unat (panthera_align_page v) = (unat v + 4095) div 4096 * 4096"
  using unat_and_not_mask [of "v + 4095" 12]
  by (simp add: panthera_align_page_def mask_12 [symmetric] unat_word_ariths)

lemma page_span_small:
  assumes "sz \<le> 4096"
  shows "panthera_align_page (if sz = 0 then 1 else sz) = 4096"
proof -
  define v where "v = (if sz = 0 then 1 else sz)"
  have "0 < unat v" "unat v \<le> 4096"
    using assms by (auto simp: v_def word_le_nat_alt unat_gt_0)
  then have "unat (panthera_align_page v) = 4096" by (subst unat_align_page) auto
  then show ?thesis by (simp add: v_def word_unat_eq_iff)
qed

lemma empty_files_boot_data:
  assumes "0 < x" "x < 2 ^ 32" "sz \<le> 4096"
  shows "triple (cursor_at x) (panthera_allocate_kernel_boot_data_pages empty_files_firmware sz)
    (\<lambda>(st, b). goes_well x st b)"
  using of_nat_low32 [OF assms(1,2)] page_span_small [OF assms(3)]
  by (auto simp: triple_def panthera_allocate_kernel_boot_data_pages_def panthera_allocate_pages_at_def Let_def
      empty_files_firmware_def tracking_firmware_def goes_well_def cursor_at_def EFI_ERROR_def)

lemma triple_cursor:
  fixes p :: "('w boot, 'a) state"
  assumes "machine_only p" and "\<And>a. triple (goes_well x st b) (f a) Q"
  shows "triple (goes_well x st b) (State_Monad.bind p f) Q"
proof (rule triple_bind [where R = "\<lambda>_. goes_well x st b"])
  show "triple (goes_well x st b) p (\<lambda>_. goes_well x st b)"
    unfolding triple_def
  proof (intro allI impI)
    fix s :: "'w boot"
    assume "goes_well x st b s"
    moreover obtain m w where "snd (run_state p s) = s\<lparr>bmem := m, fw_state := w\<rparr>"
      using assms(1) unfolding machine_only_def by blast
    ultimately show "goes_well x st b (snd (run_state p s))" by (simp add: goes_well_def cursor_at_def)
  qed
qed (rule assms(2))

lemma empty_files_buffer:
  assumes "0 < x" "x < 2 ^ 32" "length src \<le> 4096" "src \<noteq> []"
  shows "triple (cursor_at x) (panthera_copy_buffer_to_kernel_boot_data empty_files_firmware src)
    (\<lambda>(st, b). goes_well x st b)"
proof -
  have sz: "(if (of_nat (length src) :: u64) = 0 then 1 else of_nat (length src) :: u64) \<le> 4096"
    using assms(3) by (simp add: word_le_nat_alt unat_of_nat)
  show ?thesis
    unfolding panthera_copy_buffer_to_kernel_boot_data_def Let_def
    apply (rule triple_bind_pair [OF empty_files_boot_data [OF assms(1,2) sz]], simp only: split)
    apply (rule triple_if)
     apply (rule triple_ret, simp add: goes_well_def)
    apply (rule triple_cursor, simp add: machine)+
    apply (rule triple_ret, simp add: goes_well_def)
    done
qed

lemma empty_files_ascii:
  assumes "0 < x" "x < 2 ^ 32" "length txt < 4096"
  shows "triple (cursor_at x) (panthera_copy_ascii_to_kernel_boot_data empty_files_firmware txt)
    (\<lambda>(st, b, sz). goes_well x st b)"
  unfolding panthera_copy_ascii_to_kernel_boot_data_def Let_def
  apply (rule triple_bind_pair [OF empty_files_buffer [OF assms(1,2)]])
  using assms(3) apply (simp_all)
  apply (intro conjI impI triple_ret)
  apply (auto simp: goes_well_def)
  done

lemma empty_files_pages:
  assumes "0 < x" "x < 2 ^ 32" "k \<le> 1"
  shows "triple (cursor_at x) (panthera_load_file_to_pages empty_files_firmware h p k)
    (\<lambda>(st, b, sz). goes_well x st b)"
proof -
  have load: "triple (cursor_at x) (panthera_load_kernel_file empty_files_firmware h p)
      (\<lambda>(st, b, sz) s. (st = EFI_SUCCESS \<and> sz = 0) \<and> cursor_at x s)"
    unfolding triple_def
  proof (intro allI impI)
    fix s :: "(u64 multiset \<times> u64 multiset) boot"
    assume "cursor_at x s"
    then show "(case fst (run_state (panthera_load_kernel_file empty_files_firmware h p) s) of (st, b, sz) \<Rightarrow>
        \<lambda>s. (st = EFI_SUCCESS \<and> sz = 0) \<and> cursor_at x s) (snd (run_state (panthera_load_kernel_file empty_files_firmware h p) s))"
      using empty_files_load [of h p s] by (auto simp: cursor_at_def)
  qed
  have k: "(if k = 0 then 1 else k) \<le> 4096" using assms(3) by (auto simp: word_le_nat_alt)
  show ?thesis
    unfolding panthera_load_file_to_pages_def Let_def
    apply (rule triple_bind [OF load])
    apply (simp only: split_paired_all split)
    apply (rule triple_assume)
    apply (rule triple_if, simp add: EFI_ERROR_def)
    apply (elim conjE, hypsubst, simp only: add_0_left)
    apply (rule triple_bind_pair [OF empty_files_boot_data [OF assms(1,2) k]], simp only: split)
    apply (rule triple_cursor, simp add: machine)+
    using of_nat_low32 [OF assms(1,2)]
    apply (auto intro!: triple_ret simp: triple_def goes_well_def panthera_ensure_low32_def)
    done
qed

lemma empty_files_executable:
  assumes "0 < x" "x < 2 ^ 32"
  shows "triple (cursor_at x) (load_executable empty_files_firmware h e)
    (\<lambda>(st, b, sz) s. st = EFI_SUCCESS \<and> (\<exists>y. x \<le> y \<and> y \<le> x + 4096 \<and> cursor_at y s))"
proof (cases "executable_path e")
  case (Some path)
  have "triple (cursor_at x) (panthera_load_file_to_pages empty_files_firmware h path 0) (\<lambda>(st, b, sz). goes_well x st b)"
    by (rule empty_files_pages) (use assms in simp_all)
  then have "triple (cursor_at x) (panthera_load_file_to_pages empty_files_firmware h path 0)
      (\<lambda>(st, b, sz) s. st = EFI_SUCCESS \<and> (\<exists>y. x \<le> y \<and> y \<le> x + 4096 \<and> cursor_at y s))"
    by (rule triple_weaken) (auto simp: goes_well_def intro: exI [of _ "x + 4096"])
  then show ?thesis using Some by (simp add: load_executable_def)
qed (auto simp: load_executable_def intro!: triple_ret)

lemma cursor_update:
  assumes "triple (cursor_at x) q Q"
  shows "triple (cursor_at x) (State_Monad.bind (update_record f) (\<lambda>_. q)) Q"
  by (rule triple_bind [OF _ assms]) (simp add: triple_def cursor_at_def update_record_def Let_def)

lemma cursor_step:
  assumes "triple (cursor_at x) p (\<lambda>(st, b, sz). goes_well x st b)"
    and "\<And>sz. triple (cursor_at (x + 4096)) (f EFI_SUCCESS (of_nat x) sz) Q"
  shows "triple (cursor_at x) (State_Monad.bind p (\<lambda>(st, b, sz). f st b sz)) Q"
  using assms unfolding triple_def goes_well_def by (fastforce split: prod.splits)

lemma cursor_step_pair:
  assumes "triple (cursor_at x) p (\<lambda>(st, b). goes_well x st b)"
    and "triple (cursor_at (x + 4096)) (f EFI_SUCCESS (of_nat x)) Q"
  shows "triple (cursor_at x) (State_Monad.bind p (\<lambda>(st, b). f st b)) Q"
  using assms unfolding triple_def goes_well_def by (fastforce split: prod.splits)

lemma cursor_executable:
  assumes "0 < x" "x < 2 ^ 32"
    and "\<And>b sz y. x \<le> y \<Longrightarrow> y \<le> x + 4096 \<Longrightarrow> triple (cursor_at y) (f EFI_SUCCESS b sz) Q"
  shows "triple (cursor_at x) (State_Monad.bind (load_executable empty_files_firmware h e) (\<lambda>(st, b, sz). f st b sz)) Q"
  using empty_files_executable [OF assms(1,2), of h e] assms(3) unfolding triple_def
  by (fastforce split: prod.splits)

lemma cursor_low32:
  assumes "0 < x" "x < 2 ^ 32" and "triple P q Q"
  shows "triple P (if EFI_ERROR (panthera_ensure_low32 (of_nat x)) then r else q) Q"
  using of_nat_low32 [OF assms(1,2)] assms(3) by (simp add: panthera_ensure_low32_def EFI_ERROR_def)

lemma success_no_error [simp]: "EFI_ERROR EFI_SUCCESS = False"
  by (simp add: EFI_ERROR_def)

lemma empty_files_stage_one:
  assumes "0 < x" "x + 16384 < 2 ^ 32" "length (bundle_path e) < 4096"
  shows "triple (cursor_at x) (stage_one empty_files_firmware h e ip)
    (\<lambda>st s. st = EFI_SUCCESS \<and> (\<exists>y. 0 < y \<and> y \<le> x + 16384 \<and> cursor_at y s))"
  unfolding stage_one_def
  apply (rule cursor_update)
  apply (rule cursor_step [OF empty_files_pages])
  using assms apply (simp, simp, simp)
  apply (rule cursor_update)
  apply (simp only: success_no_error if_False)
  apply (rule cursor_executable)
  using assms apply (simp, simp)
  apply (rule cursor_update)
  apply (simp only: success_no_error if_False)
  apply (rule cursor_step [OF empty_files_ascii])
  using assms apply (simp, simp, simp)
  apply (rule cursor_update)
  apply (simp only: success_no_error if_False, rule cursor_low32)
  using assms apply (simp, simp)
  apply (rule cursor_step_pair [OF empty_files_buffer])
  using assms apply (simp, simp, simp)
  subgoal by (metis length_file_info list.size(3) zero_neq_numeral)
  apply (rule cursor_update)
  apply (simp only: success_no_error if_False, rule cursor_low32)
  using assms apply (simp, simp)
  apply (rule cursor_update)
  subgoal for sz0 b sz1 y sz2
    apply (rule triple_bind [where R = "\<lambda>_. goes_well (y + 4096) EFI_SUCCESS (of_nat (y + 4096))"])
     apply (simp add: triple_def goes_well_def cursor_at_def)
    apply (rule triple_cursor, simp add: machine)
    apply (rule triple_ret)
    using assms by (auto simp: goes_well_def intro!: exI [of _ "y + 4096 + 4096"])
  done

lemma empty_files_stage_entries:
  assumes "0 < x" "x + 16384 * length es < 2 ^ 32" "\<forall>e \<in> set es. length (bundle_path e) < 4096"
  shows "triple (cursor_at x) (stage_entries empty_files_firmware h es) (\<lambda>st s. st = EFI_SUCCESS)"
  using assms
proof (induction es arbitrary: x)
  case Nil
  then show ?case by (auto intro: triple_ret)
next
  case (Cons e es)
  have skip: "triple (cursor_at x) (stage_entries empty_files_firmware h es) (\<lambda>st s. st = EFI_SUCCESS)"
    using Cons.prems by (intro Cons.IH) auto
  have stage: "triple (cursor_at x) (do { status \<leftarrow> stage_one empty_files_firmware h e ip;
      if EFI_ERROR status then ret status else stage_entries empty_files_firmware h es }) (\<lambda>st s. st = EFI_SUCCESS)" for ip
  proof (rule triple_bind)
    show "triple (cursor_at x) (stage_one empty_files_firmware h e ip)
      (\<lambda>st s. st = EFI_SUCCESS \<and> (\<exists>y. 0 < y \<and> y \<le> x + 16384 \<and> cursor_at y s))"
      using Cons.prems by (intro empty_files_stage_one) auto
    show "triple (\<lambda>s. st = EFI_SUCCESS \<and> (\<exists>y. 0 < y \<and> y \<le> x + 16384 \<and> cursor_at y s))
      (if EFI_ERROR st then ret st else stage_entries empty_files_firmware h es) (\<lambda>st s. st = EFI_SUCCESS)" for st
      using Cons.IH Cons.prems by (fastforce simp: triple_def)
  qed
  show ?case
    using skip stage
    by (auto intro!: triple_ret triple_bind [OF triple_gets] split: option.splits)
qed

lemma manifest_paths: "\<forall>e \<in> set gBootKextManifest. length (bundle_path e) < 4096"
  by (simp add: manifest_defs system_entry_def plugin_entry_def kext_entry_def null_entry_def
      slash_path_def bytes_of_string_def Let_def)

lemma empty_files_stage:
  assumes "gKernelBootDataCursor s = 0x200000"
  shows "fst (run_state (panthera_stage_boot_kexts empty_files_firmware h) s) = EFI_SUCCESS"
proof -
  have "triple (cursor_at 0x200000) (stage_entries empty_files_firmware h gBootKextManifest) (\<lambda>st s. st = EFI_SUCCESS)"
    by (rule empty_files_stage_entries [OF _ _ manifest_paths]) (simp_all add: manifest_defs)
  then show ?thesis using assms by (simp add: panthera_stage_boot_kexts_def triple_def cursor_at_def split: prod.splits)
qed


section \<open>From staging to the device tree\<close>

lemma staged_all:
  assumes "run_state (panthera_stage_boot_kexts fw h) s = (status, s')" and "\<not> EFI_ERROR status"
  obtains rs where "unat (gBootKextCount s') = length rs" "take (length rs) (gBootKextRecords s') = rs"
    "list_all2 record_ok (selected (gBootCommandLine s) gBootKextManifest) rs" "length rs \<le> 33"
proof -
  let ?sel = "selected (gBootCommandLine s) gBootKextManifest"
  have "staged_post fw False (gBootCommandLine s) (replicate 34 zero_kext_record) 0 (gKernelBootDataCursor s) ?sel status s'"
    using triple_stage_boot_kexts [of "gBootCommandLine s" "gKernelBootDataCursor s" False fw h] assms
    by (auto simp: triple_def)
  then obtain rs where rs: "gBootKextCount s' = of_nat (length rs)" "take (length rs) (gBootKextRecords s') = rs"
      "length rs = length ?sel" "list_all2 record_ok ?sel rs"
    using assms(2) by (auto simp: staged_post_def staging_def)
  then have short: "length rs \<le> 33" using length_selected by metis
  then have "unat (gBootKextCount s') = length rs" using rs(1) by (simp add: unat_of_nat)
  then show ?thesis using that rs(2,4) short by blast
qed

lemma staged_names:
  assumes "list_all2 record_ok (selected line gBootKextManifest) rs"
  shows "map driver_entry_name rs = map manifest_driver_entry_name (selected line gBootKextManifest)"
    and "\<forall>r \<in> set rs. 0 \<notin> set (driver_entry_name r) \<and> length (driver_entry_name r) \<le> 31"
proof -
  have fits: "\<forall>e \<in> set (selected line gBootKextManifest). entry_fits e"
    using manifest_fits unfolding selected_def by (auto dest: set_takeWhileD)
  have name: "list_all2 (\<lambda>e r. driver_entry_name r = manifest_driver_entry_name e) (selected line gBootKextManifest) rs"
    using assms by (rule list_all2_mono) (simp add: record_ok_def)
  then show "map driver_entry_name rs = map manifest_driver_entry_name (selected line gBootKextManifest)"
    by (induction rule: list_all2_induct) auto
  then show "\<forall>r \<in> set rs. 0 \<notin> set (driver_entry_name r) \<and> length (driver_entry_name r) \<le> 31"
    using fits unfolding entry_fits_def by (metis (no_types, lifting) image_iff list.set_map)
qed

lemma tree_after_staging:
  assumes stage: "run_state (panthera_stage_boot_kexts fw h) s = (status, s1)" "\<not> EFI_ERROR status"
    and build: "run_state (panthera_build_synthetic_device_tree fw') s1 = (status', s2)" "\<not> EFI_ERROR status'"
  shows "\<exists>rs. list_all2 record_ok (selected (gBootCommandLine s) gBootKextManifest) rs \<and>
      decode_node 3 (rd_bytes (bmem s2) (gDeviceTreeBase s2) (unat (gDeviceTreeSize s2))) =
        Some (synthetic_tree rs (gFSBFrequencyHz s1), [])"
proof -
  obtain rs where rs: "unat (gBootKextCount s1) = length rs" "take (length rs) (gBootKextRecords s1) = rs"
      "list_all2 record_ok (selected (gBootCommandLine s) gBootKextManifest) rs" "length rs \<le> 33"
    using stage by (rule staged_all)
  have "decode_node 3 (rd_bytes (bmem s2) (gDeviceTreeBase s2) (unat (gDeviceTreeSize s2))) =
      Some (synthetic_tree rs (gFSBFrequencyHz s1), [])"
    by (rule device_tree_content [OF build rs(1) _ rs(2) staged_names(2) [OF rs(3)]]) (use rs(4) in simp)
  then show ?thesis using rs(3) by blast
qed

text \<open>The driver names in a decoded tree: the properties of its memory map node after the node's name.\<close>

definition tree_drivers :: "dt_tree \<Rightarrow> u8 list list" where
  "tree_drivers t = map fst (tl (dt_props (hd (dt_children (hd (dt_children t))))))"

lemma tree_drivers_synthetic: "tree_drivers (synthetic_tree rs f) = map driver_entry_name rs"
  by (simp add: tree_drivers_def synthetic_tree_def kext_props_def)

text \<open>
  C29. The kernel finds what was staged: when staging and then building the device tree succeed, the
  tree decoded from the buffer lists, in its memory map, exactly the driver entries of the bundles the
  command line selected, in manifest order.
\<close>

theorem staged_kexts_in_tree:
  assumes "run_state (panthera_stage_boot_kexts fw h) s = (status, s1)" and "\<not> EFI_ERROR status"
    and "run_state (panthera_build_synthetic_device_tree fw) s1 = (status', s2)" and "\<not> EFI_ERROR status'"
  shows "\<exists>t. decode_node 3 (rd_bytes (bmem s2) (gDeviceTreeBase s2) (unat (gDeviceTreeSize s2))) = Some (t, []) \<and>
    tree_drivers t = map manifest_driver_entry_name (selected (gBootCommandLine s) gBootKextManifest)"
  using tree_after_staging [OF assms] by (metis staged_names(1) tree_drivers_synthetic)

lemma empty_files_tree:
  assumes "unat (gBootKextCount s) = length rs" "take (length rs) (gBootKextRecords s) = rs" "length rs \<le> 33"
  shows "fst (run_state (panthera_build_synthetic_device_tree empty_files_firmware) s) = EFI_SUCCESS"
proof -
  have w: "write_device_tree b (gBootKextCount s) (gBootKextRecords s) f m = (EFI_SUCCESS, of_nat (496 + 44 * length rs),
      wr_bytes m b (dt_encode (synthetic_tree rs f)))" for b f m
    by (rule write_device_tree_encodes) (use assms in simp_all)
  show ?thesis
    by (simp add: w panthera_build_synthetic_device_tree_def panthera_allocate_buffer_pages_def
        panthera_allocate_pages_def empty_files_firmware_def tracking_firmware_def)
qed

theorem staged_kexts_in_tree_witness:
  "\<exists>s s1 s2. run_state (panthera_stage_boot_kexts empty_files_firmware 1) s = (EFI_SUCCESS, s1) \<and>
     run_state (panthera_build_synthetic_device_tree empty_files_firmware) s1 = (EFI_SUCCESS, s2) \<and>
     (\<exists>t. decode_node 3 (rd_bytes (bmem s2) (gDeviceTreeBase s2) (unat (gDeviceTreeSize s2))) = Some (t, []) \<and>
       tree_drivers t = map manifest_driver_entry_name (selected (gBootCommandLine s) gBootKextManifest))"
proof -
  define s where "s = initial_boot ({#} :: u64 multiset, {#} :: u64 multiset) \<lparr>gKernelBootDataCursor := 0x200000\<rparr>"
  have s: "gKernelBootDataCursor s = 0x200000" by (simp add: s_def)
  obtain s1 where run1: "run_state (panthera_stage_boot_kexts empty_files_firmware 1) s = (EFI_SUCCESS, s1)"
    using empty_files_stage [OF s, of 1] by (metis prod.collapse)
  obtain rs where "unat (gBootKextCount s1) = length rs" "take (length rs) (gBootKextRecords s1) = rs"
      "length rs \<le> 33"
    using run1 by (rule staged_all) simp_all
  then obtain s2 where run2: "run_state (panthera_build_synthetic_device_tree empty_files_firmware) s1 = (EFI_SUCCESS, s2)"
    using empty_files_tree by (metis prod.collapse)
  show ?thesis using staged_kexts_in_tree [OF run1 _ run2] run1 run2 by (metis success_no_error)
qed

end
