(* ===== verification/Boot_Args.thy ===== *)
theory Boot_Args
  imports Boot_Files
begin

text \<open>
  The memory map, the copy of the system table and the boot arguments of the loader
  (\<open>boot/efi/loader/src/bootx64.c\<close>). The layout of \<open>boot_args\<close> and of a memory descriptor comes from the
  kernel's \<open>boot.h\<close>, which is not part of the source tree, so it is a parameter: a record of the
  constants and of the loads and stores of the fields. The theorems show what the two loops over the
  memory map compute and when they end, and what the kernel reads back from the filled arguments.
\<close>

section \<open>The boot argument layout\<close>

datatype arg_field =
    Revision | Version | efiMode | debugMode | flags
  | MemoryMap | MemoryMapSize | MemoryMapDescriptorSize | MemoryMapDescriptorVersion
  | deviceTreeP | deviceTreeLength | kaddr | ksize | efiSystemTable
  | PhysicalMemorySize | FSBFrequency
  | pciConfigSpaceBaseAddress | pciConfigSpaceStartBusNumber | pciConfigSpaceEndBusNumber
  | VideoV1_v_baseAddr | VideoV1_v_rowBytes | VideoV1_v_width | VideoV1_v_height | VideoV1_v_depth | VideoV1_v_display
  | Video_v_baseAddr | Video_v_rowBytes | Video_v_width | Video_v_height | Video_v_depth | Video_v_display
  | efiRuntimeServicesPageStart | efiRuntimeServicesPageCount | efiRuntimeServicesVirtualPageStart

record boot_abi =
  sizeof_boot_args :: u64
  kBootArgsRevision :: u64
  kBootArgsVersion :: u64
  kBootArgsEfiMode64 :: u64
  sizeof_CommandLine :: nat
  arg_put :: "arg_field \<Rightarrow> u64 \<Rightarrow> u64 \<Rightarrow> mem \<Rightarrow> mem"
  arg_get :: "arg_field \<Rightarrow> u64 \<Rightarrow> mem \<Rightarrow> u64"
  line_put :: "u64 \<Rightarrow> u8 list \<Rightarrow> mem \<Rightarrow> mem"
  PhysicalStart :: "mem \<Rightarrow> u64 \<Rightarrow> u64"
  NumberOfPages :: "mem \<Rightarrow> u64 \<Rightarrow> u64"
  Attribute :: "mem \<Rightarrow> u64 \<Rightarrow> u64"

definition panthera_allocate_boot_args :: "'w firmware \<Rightarrow> boot_abi \<Rightarrow> ('w boot, u64 \<times> u64) state" where
  "panthera_allocate_boot_args fw abi = do {
     (status, physical_base) \<leftarrow> panthera_allocate_pages fw (sizeof_boot_args abi) 0;
     if EFI_ERROR status then ret (status, 0)
     else do {
       modify_mem (panthera_zero_memory physical_base (sizeof_boot_args abi));
       ret (EFI_SUCCESS, physical_base)
     }
   }"

lemma machine_boot_args [machine]: "machine_only (panthera_allocate_boot_args fw abi)"
  by (simp add: panthera_allocate_boot_args_def machine)

abbreviation args_size :: "boot_abi \<Rightarrow> nat" where "args_size abi \<equiv> unat (sizeof_boot_args abi)"

section \<open>The memory map\<close>

text \<open>Status, buffer, size, capacity, key, descriptor size and descriptor version.\<close>

definition panthera_capture_memory_map ::
  "'w firmware \<Rightarrow> ('w boot, u64 \<times> u64 \<times> u64 \<times> u64 \<times> u64 \<times> u64 \<times> u32) state" where
  "panthera_capture_memory_map fw = do {
     (status, memory_map_size, map_key, descriptor_size, descriptor_version) \<leftarrow> call (GetMemoryMap fw 0 0);
     if status \<noteq> EFI_BUFFER_TOO_SMALL then ret (status, 0, 0, 0, map_key, descriptor_size, descriptor_version)
     else do {
       let memory_map_capacity =
         (if PANTHERA_MEMORY_MAP_BUFFER_SIZE < memory_map_size then memory_map_size
          else PANTHERA_MEMORY_MAP_BUFFER_SIZE);
       (status, page_backed_map) \<leftarrow> panthera_allocate_buffer_pages fw memory_map_capacity;
       if EFI_ERROR status then ret (status, 0, 0, 0, map_key, descriptor_size, descriptor_version)
       else do {
         modify_mem (panthera_zero_memory page_backed_map memory_map_capacity);
         (status, memory_map_size, map_key, descriptor_size, descriptor_version) \<leftarrow>
           call (GetMemoryMap fw memory_map_capacity page_backed_map);
         if EFI_ERROR status then ret (status, 0, 0, 0, map_key, descriptor_size, descriptor_version)
         else ret (EFI_SUCCESS, page_backed_map, memory_map_size, memory_map_capacity,
                   map_key, descriptor_size, descriptor_version)
       }
     }
   }"

definition panthera_refresh_memory_map ::
  "'w firmware \<Rightarrow> u64 \<Rightarrow> u64 \<Rightarrow> ('w boot, u64 \<times> u64 \<times> u64 \<times> u64 \<times> u32) state" where
  "panthera_refresh_memory_map fw memory_map memory_map_capacity = do {
     (status, memory_map_size, map_key, descriptor_size, descriptor_version) \<leftarrow>
       call (GetMemoryMap fw memory_map_capacity memory_map);
     if EFI_ERROR status then ret (status, 0, map_key, descriptor_size, descriptor_version)
     else ret (EFI_SUCCESS, memory_map_size, map_key, descriptor_size, descriptor_version)
   }"

text \<open>The loops over the descriptors compare addresses and do not end by themselves when the
  descriptor size is zero: not returning is \<open>None\<close>.\<close>

partial_function (option) highest_address ::
  "boot_abi \<Rightarrow> mem \<Rightarrow> u64 \<Rightarrow> u64 \<Rightarrow> u64 \<Rightarrow> u64 \<Rightarrow> u64 option" where
  "highest_address abi m descriptor_size end_address cursor highest =
     (if cursor < end_address then
        let range_end = PhysicalStart abi m cursor + push_bit 12 (NumberOfPages abi m cursor) in
        highest_address abi m descriptor_size end_address (cursor + descriptor_size)
          (if range_end > highest then range_end else highest)
      else Some highest)"

definition panthera_compute_physical_memory_size ::
  "boot_abi \<Rightarrow> mem \<Rightarrow> u64 \<Rightarrow> u64 \<Rightarrow> u64 \<Rightarrow> u64 option" where
  "panthera_compute_physical_memory_size abi m memory_map memory_map_size descriptor_size =
     highest_address abi m descriptor_size (memory_map + memory_map_size) memory_map 0"

partial_function (option) runtime_ranges ::
  "boot_abi \<Rightarrow> mem \<Rightarrow> u64 \<Rightarrow> u64 \<Rightarrow> u64 \<Rightarrow> u64 \<Rightarrow> u32 \<Rightarrow> (u64 \<times> u32) option" where
  "runtime_ranges abi m descriptor_size end_address cursor runtime_start runtime_count =
     (if cursor < end_address then
        (if Attribute abi m cursor AND EFI_MEMORY_RUNTIME \<noteq> 0 then
           runtime_ranges abi m descriptor_size end_address (cursor + descriptor_size)
             (if runtime_count = 0 then drop_bit 12 (PhysicalStart abi m cursor) else runtime_start)
             (runtime_count + ucast (NumberOfPages abi m cursor))
         else runtime_ranges abi m descriptor_size end_address (cursor + descriptor_size) runtime_start runtime_count)
      else Some (runtime_start, runtime_count))"

section \<open>Filling the arguments\<close>

fun put_all :: "boot_abi \<Rightarrow> u64 \<Rightarrow> (arg_field \<times> u64) list \<Rightarrow> mem \<Rightarrow> mem" where
  "put_all abi args [] m = m"
| "put_all abi args ((f, v) # fvs) m = put_all abi args fvs (arg_put abi f args v m)"

abbreviation low32 :: "u64 \<Rightarrow> u64" where "low32 v \<equiv> ucast (ucast v :: u32)"

definition video_fields :: "'w boot \<Rightarrow> (arg_field \<times> u64) list" where
  "video_fields s =
     (if gGopFrameBufferBase s \<noteq> 0 then
        [(VideoV1_v_baseAddr, low32 (gGopFrameBufferBase s AND 0xffffffff)),
         (VideoV1_v_rowBytes, ucast (gGopPixelsPerScanLine s * 4)), (VideoV1_v_width, ucast (gGopWidth s)),
         (VideoV1_v_height, ucast (gGopHeight s)), (VideoV1_v_depth, 32), (VideoV1_v_display, 0),
         (Video_v_baseAddr, gGopFrameBufferBase s), (Video_v_rowBytes, ucast (gGopPixelsPerScanLine s * 4)),
         (Video_v_width, ucast (gGopWidth s)), (Video_v_height, ucast (gGopHeight s)), (Video_v_depth, 32),
         (Video_v_display, 0)]
      else [])"

definition head_fields :: "boot_abi \<Rightarrow> (arg_field \<times> u64) list" where
  "head_fields abi = [(Revision, kBootArgsRevision abi), (Version, kBootArgsVersion abi),
     (efiMode, kBootArgsEfiMode64 abi), (debugMode, 0), (flags, 0)]"

definition place_fields :: "'w boot \<Rightarrow> u64 \<Rightarrow> u64 \<Rightarrow> u64 \<Rightarrow> u64 \<Rightarrow> u32 \<Rightarrow> (arg_field \<times> u64) list" where
  "place_fields s system_table memory_map memory_map_size descriptor_size descriptor_version =
     [(MemoryMap, low32 memory_map), (MemoryMapSize, low32 memory_map_size),
      (MemoryMapDescriptorSize, low32 descriptor_size), (MemoryMapDescriptorVersion, ucast descriptor_version),
      (deviceTreeP, low32 (gDeviceTreeBase s)), (deviceTreeLength, ucast (gDeviceTreeSize s)),
      (kaddr, low32 (gKernelTextBase s)), (ksize, low32 (gKernelReservedSize s)),
      (efiSystemTable, low32 system_table)]"

definition clock_fields :: "'w boot \<Rightarrow> u64 \<Rightarrow> (arg_field \<times> u64) list" where
  "clock_fields s physical_memory_size = [(PhysicalMemorySize, physical_memory_size), (FSBFrequency, gFSBFrequencyHz s),
     (pciConfigSpaceBaseAddress, 0), (pciConfigSpaceStartBusNumber, 0), (pciConfigSpaceEndBusNumber, 0xff)]"

definition runtime_fields :: "u64 \<Rightarrow> u32 \<Rightarrow> (arg_field \<times> u64) list" where
  "runtime_fields runtime_start runtime_count = [(efiRuntimeServicesPageStart, low32 runtime_start),
     (efiRuntimeServicesPageCount, ucast runtime_count), (efiRuntimeServicesVirtualPageStart, 0)]"

text \<open>\<open>None\<close> when one of the two loops does not end.\<close>

definition panthera_fill_boot_args ::
  "boot_abi \<Rightarrow> 'w boot \<Rightarrow> u64 \<Rightarrow> u64 \<Rightarrow> u64 \<Rightarrow> u64 \<Rightarrow> u64 \<Rightarrow> u32 \<Rightarrow> mem option" where
  "panthera_fill_boot_args abi s args system_table memory_map memory_map_size descriptor_size descriptor_version =
     (let m1 = panthera_zero_memory args (sizeof_boot_args abi) (bmem s);
          m2 = put_all abi args (head_fields abi) m1;
          m3 = line_put abi args (panthera_copy_ascii (sizeof_CommandLine abi) (gBootCommandLine s)) m2;
          m4 = put_all abi args (place_fields s system_table memory_map memory_map_size descriptor_size descriptor_version) m3
      in case panthera_compute_physical_memory_size abi m4 memory_map memory_map_size descriptor_size of
           None \<Rightarrow> None
         | Some physical_memory_size \<Rightarrow>
             let m5 = put_all abi args (clock_fields s physical_memory_size @ video_fields s) m4
             in case runtime_ranges abi m5 descriptor_size (memory_map + memory_map_size) memory_map 0 0 of
                  None \<Rightarrow> None
                | Some (runtime_start, runtime_count) \<Rightarrow>
                    Some (put_all abi args (runtime_fields runtime_start runtime_count) m5))"

section \<open>The system table\<close>

abbreviation sizeof_system_table :: u64 where "sizeof_system_table \<equiv> 120"
abbreviation offsetof_NumberOfTableEntries :: u64 where "offsetof_NumberOfTableEntries \<equiv> 104"
abbreviation offsetof_ConfigurationTable :: u64 where "offsetof_ConfigurationTable \<equiv> 112"
abbreviation sizeof_configuration_table :: u64 where "sizeof_configuration_table \<equiv> 24"

definition copy_system_table :: "u64 \<Rightarrow> u64 \<Rightarrow> u64 \<Rightarrow> mem \<Rightarrow> mem" where
  "copy_system_table system_table buffer config_table_bytes m =
     (let m1 = panthera_copy_memory buffer system_table sizeof_system_table m;
          copied_config_table = buffer + sizeof_system_table;
          m2 = (if config_table_bytes \<noteq> 0
                then panthera_copy_memory copied_config_table (rd64 m1 (system_table + offsetof_ConfigurationTable))
                       config_table_bytes m1
                else m1)
      in wr64 m2 (buffer + offsetof_ConfigurationTable) copied_config_table)"

definition panthera_capture_system_table :: "'w firmware \<Rightarrow> u64 \<Rightarrow> ('w boot, u64 \<times> u64) state" where
  "panthera_capture_system_table fw system_table = do {
     entries \<leftarrow> gets (\<lambda>s. rd64 (bmem s) (system_table + offsetof_NumberOfTableEntries));
     let config_table_bytes = entries * sizeof_configuration_table;
     (status, buffer) \<leftarrow> panthera_allocate_buffer_pages fw (sizeof_system_table + config_table_bytes);
     if EFI_ERROR status then ret (status, 0)
     else do {
       modify_mem (copy_system_table system_table buffer config_table_bytes);
       ret (EFI_SUCCESS, buffer)
     }
   }"

section \<open>Loops over the descriptors\<close>

text \<open>The addresses a loop visits: from the start in steps of the descriptor size, below the end.\<close>

definition cursors :: "u64 \<Rightarrow> u64 \<Rightarrow> u64 \<Rightarrow> u64 list" where
  "cursors start end_address step =
     map (\<lambda>i. start + of_nat (i * unat step)) [0..<(unat end_address - unat start + unat step - 1) div unat step]"

lemma cursors_done: "\<not> start < end_address \<Longrightarrow> cursors start end_address step = []"
  by (cases "unat step") (auto simp: cursors_def word_less_nat_alt)

lemma steps_left:
  assumes "s < e" and "0 < (d :: nat)"
  shows "(e - s + d - 1) div d = Suc ((e - (s + d) + d - 1) div d)"
proof (cases "s + d \<le> e")
  case True
  then obtain q where "e = s + d + q" using le_Suc_ex by blast
  moreover have "(d + q + d - 1) div d = Suc ((q + d - 1) div d)"
    using assms(2) div_add_self2 [of d "q + d - 1"] by (simp add: ac_simps)
  ultimately show ?thesis by (simp add: ac_simps)
next
  case False
  then obtain r where "e = s + Suc r" "r < d" using assms by (metis add_less_cancel_left less_imp_Suc_add not_le Suc_lessD add_Suc_right)
  moreover have "(r + d) div d = 1" using \<open>r < d\<close> assms(2) by (simp add: div_add_self2)
  ultimately show ?thesis using assms(2) by simp
qed

lemma cursors_step:
  assumes "start < end_address" and "step \<noteq> 0" and "unat end_address + unat step \<le> 2 ^ 64"
  shows "cursors start end_address step = start # cursors (start + step) end_address step"
proof -
  have d: "0 < unat step" using assms(2) by (simp add: unat_gt_0)
  have le: "unat start < unat end_address" using assms(1) by (simp add: word_less_nat_alt)
  have nxt: "unat (start + step) = unat start + unat step" using le assms(3) by (simp add: unat_word_ariths)
  show ?thesis
    unfolding cursors_def nxt steps_left [OF le d]
    by (simp add: upt_conv_Cons map_Suc_upt [symmetric] o_def algebra_simps del: upt_Suc map_Suc_upt)
qed

text \<open>A loop with a cursor: what the two loops over the memory map share.\<close>

locale cursor_loop =
  fixes loop :: "u64 \<Rightarrow> 's \<Rightarrow> 's option"
    and body :: "u64 \<Rightarrow> 's \<Rightarrow> 's"
    and end_address :: u64
    and step :: u64
  assumes loop_unfold: "loop c s = (if c < end_address then loop (c + step) (body c s) else Some s)"
begin

lemma loop_returns:
  assumes "step \<noteq> 0" and "unat end_address + unat step \<le> 2 ^ 64"
  shows "loop c s = Some (fold body (cursors c end_address step) s)"
proof (induction "unat end_address - unat c" arbitrary: c s rule: less_induct)
  case less
  show ?case
  proof (cases "c < end_address")
    case True
    then have lt: "unat c < unat end_address" by (simp add: word_less_nat_alt)
    then have "unat (c + step) = unat c + unat step" using assms(2) by (simp add: unat_word_ariths)
    moreover have "0 < unat step" using assms(1) by (simp add: unat_gt_0)
    ultimately have "loop (c + step) (body c s) = Some (fold body (cursors (c + step) end_address step) (body c s))"
      using lt by (intro less) simp
    then show ?thesis using True assms by (simp add: loop_unfold [of c s] cursors_step)
  next
    case False
    then show ?thesis by (simp add: loop_unfold [of c s] cursors_done)
  qed
qed

end

definition raise_highest :: "boot_abi \<Rightarrow> mem \<Rightarrow> u64 \<Rightarrow> u64 \<Rightarrow> u64" where
  "raise_highest abi m cursor highest =
     (let range_end = PhysicalStart abi m cursor + push_bit 12 (NumberOfPages abi m cursor)
      in if range_end > highest then range_end else highest)"

definition add_runtime :: "boot_abi \<Rightarrow> mem \<Rightarrow> u64 \<Rightarrow> u64 \<times> u32 \<Rightarrow> u64 \<times> u32" where
  "add_runtime abi m cursor = (\<lambda>(runtime_start, runtime_count).
     if Attribute abi m cursor AND EFI_MEMORY_RUNTIME \<noteq> 0 then
       (if runtime_count = 0 then drop_bit 12 (PhysicalStart abi m cursor) else runtime_start,
        runtime_count + ucast (NumberOfPages abi m cursor))
     else (runtime_start, runtime_count))"

interpretation highest: cursor_loop "highest_address abi m d e" "raise_highest abi m" e d for abi m d e
  by unfold_locales (subst highest_address.simps, simp add: raise_highest_def Let_def)

interpretation runtime: cursor_loop "\<lambda>c (rs, rc). runtime_ranges abi m d e c rs rc" "add_runtime abi m" e d for abi m d e
proof unfold_locales
  fix c and s :: "u64 \<times> u32"
  obtain rs rc where s: "s = (rs, rc)" by fastforce
  show "(case s of (rs, rc) \<Rightarrow> runtime_ranges abi m d e c rs rc) =
      (if c < e then case add_runtime abi m c s of (rs, rc) \<Rightarrow> runtime_ranges abi m d e (c + d) rs rc else Some s)"
    unfolding s prod.case by (subst runtime_ranges.simps) (simp add: add_runtime_def)
qed

lemma highest_stuck:
  assumes "highest_address abi m d e c h = Some r"
  shows "d = 0 \<longrightarrow> \<not> c < e"
  by (rule highest_address.raw_induct [OF _ assms, where P = "\<lambda>abi m d e c h r. d = 0 \<longrightarrow> \<not> c < e"])
    (fastforce simp: Let_def split: if_splits)


section \<open>The size of physical memory\<close>

abbreviation range_end_at :: "boot_abi \<Rightarrow> mem \<Rightarrow> u64 \<Rightarrow> u64" where
  "range_end_at abi m c \<equiv> PhysicalStart abi m c + push_bit 12 (NumberOfPages abi m c)"

lemma raise_highest_max: "raise_highest abi m c h = max h (range_end_at abi m c)"
  by (auto simp: raise_highest_def Let_def max_def)

lemma fold_raise_ge: "h \<le> fold (raise_highest abi m) cs h"
  by (induction cs arbitrary: h) (auto simp: raise_highest_max intro: order_trans [OF max.cobounded1])

lemma fold_raise_bound: "c \<in> set cs \<Longrightarrow> range_end_at abi m c \<le> fold (raise_highest abi m) cs h"
  by (induction cs arbitrary: h) (auto simp: raise_highest_max intro: order_trans [OF max.cobounded2 fold_raise_ge])

lemma fold_raise_in: "fold (raise_highest abi m) cs h \<in> insert h (range_end_at abi m ` set cs)"
  by (induction cs arbitrary: h) (auto simp: raise_highest_max max_def split: if_splits)

lemma end_no_wrap:
  assumes "unat map_at + unat sz + unat d \<le> 2 ^ 64" and "d \<noteq> (0 :: u64)"
  shows "unat (map_at + sz :: u64) = unat map_at + unat sz" "unat (map_at + sz) + unat d \<le> 2 ^ 64"
proof -
  have "0 < unat d" using assms(2) by (simp add: unat_gt_0)
  then show "unat (map_at + sz) = unat map_at + unat sz" using assms(1) by (simp add: unat_word_ariths)
  then show "unat (map_at + sz) + unat d \<le> 2 ^ 64" using assms(1) by simp
qed

text \<open>
  The physical memory size is the end of the highest range in the map: with a descriptor size that
  is not zero and a map that does not reach the end of the address space the loop returns, its result
  is an upper bound of the ends of all descriptors, and it is one of them (or zero for an empty map).
\<close>

theorem physical_memory_size_max:
  assumes "descriptor_size \<noteq> 0" and "unat memory_map + unat memory_map_size + unat descriptor_size \<le> 2 ^ 64"
  shows "\<exists>h. panthera_compute_physical_memory_size abi m memory_map memory_map_size descriptor_size = Some h \<and>
     (\<forall>c \<in> set (cursors memory_map (memory_map + memory_map_size) descriptor_size). range_end_at abi m c \<le> h) \<and>
     h \<in> insert 0 (range_end_at abi m ` set (cursors memory_map (memory_map + memory_map_size) descriptor_size))"
proof -
  have "panthera_compute_physical_memory_size abi m memory_map memory_map_size descriptor_size =
      Some (fold (raise_highest abi m) (cursors memory_map (memory_map + memory_map_size) descriptor_size) 0)"
    unfolding panthera_compute_physical_memory_size_def
    by (rule highest.loop_returns [OF assms(1) end_no_wrap(2) [OF assms(2,1)]])
  then show ?thesis by (simp add: fold_raise_bound fold_raise_in [simplified])
qed

text \<open>
  C32. With a descriptor size of zero the loader hangs: on a map that is not empty the walk never reaches
  its end, so neither the physical memory size nor the boot arguments are ever produced.
\<close>

theorem zero_descriptor_hangs:
  assumes "memory_map < memory_map + memory_map_size"
  shows "panthera_fill_boot_args abi s args system_table memory_map memory_map_size 0 version = None"
proof -
  have "panthera_compute_physical_memory_size abi m memory_map memory_map_size 0 = None" for m
    using assms highest_stuck unfolding panthera_compute_physical_memory_size_def
    by (metis not_None_eq)
  then show ?thesis by (simp add: panthera_fill_boot_args_def Let_def)
qed

section \<open>What the kernel reads back\<close>

text \<open>
  What the loader relies on of the layout: a field reads back what was stored, reduced to the field's
  width, and keeps its value when another field or the command line is stored; all stores stay in
  the structure; and the fields of a descriptor are read from the descriptor.
\<close>

definition abi_ok :: "boot_abi \<Rightarrow> (arg_field \<Rightarrow> nat) \<Rightarrow> u64 \<Rightarrow> bool" where
  "abi_ok abi bits args \<longleftrightarrow>
     (\<forall>f v m. arg_get abi f args (arg_put abi f args v m) = take_bit (bits f) v) \<and>
     (\<forall>f g v m. f \<noteq> g \<longrightarrow> arg_get abi f args (arg_put abi g args v m) = arg_get abi f args m) \<and>
     (\<forall>f v m. mem_eq_off args (args_size abi) m (arg_put abi f args v m)) \<and>
     (\<forall>f bs m. length bs < sizeof_CommandLine abi \<longrightarrow>
        arg_get abi f args (line_put abi args bs m) = arg_get abi f args m) \<and>
     (\<forall>bs m. length bs < sizeof_CommandLine abi \<longrightarrow> mem_eq_off args (args_size abi) m (line_put abi args bs m)) \<and>
     0 < sizeof_CommandLine abi"

definition descriptor_local :: "boot_abi \<Rightarrow> u64 \<Rightarrow> bool" where
  "descriptor_local abi d \<longleftrightarrow> (\<forall>c m m'. mem_eq_on c (unat d) m m' \<longrightarrow>
     PhysicalStart abi m c = PhysicalStart abi m' c \<and> NumberOfPages abi m c = NumberOfPages abi m' c \<and>
     Attribute abi m c = Attribute abi m' c)"

lemma put_all_append: "put_all abi args (xs @ ys) m = put_all abi args ys (put_all abi args xs m)"
  by (induction abi args xs m rule: put_all.induct) auto

lemma put_all_frame: "abi_ok abi bits args \<Longrightarrow> mem_eq_off args (args_size abi) m (put_all abi args fvs m)"
proof (induction abi args fvs m rule: put_all.induct)
  case (2 abi args f v fvs m)
  then have "mem_eq_off args (args_size abi) m (arg_put abi f args v m)" by (simp add: abi_ok_def)
  then show ?case using 2 mem_eq_off_trans by fastforce
qed simp

lemma put_all_other:
  "abi_ok abi bits args \<Longrightarrow> f \<notin> fst ` set fvs \<Longrightarrow> arg_get abi f args (put_all abi args fvs m) = arg_get abi f args m"
  by (induction abi args fvs m rule: put_all.induct) (auto simp: abi_ok_def)

lemma put_all_get:
  assumes "abi_ok abi bits args" and "distinct (map fst fvs)" and "(f, v) \<in> set fvs"
  shows "arg_get abi f args (put_all abi args fvs m) = take_bit (bits f) v"
  using assms(2,3)
proof (induction fvs arbitrary: m)
  case (Cons gw fvs)
  then show ?case
    using assms(1) put_all_other [OF assms(1), of f fvs]
    by (cases gw) (auto simp: abi_ok_def)
qed simp

definition args_hold :: "boot_abi \<Rightarrow> (arg_field \<Rightarrow> nat) \<Rightarrow> u64 \<Rightarrow> (arg_field \<times> u64) list \<Rightarrow> mem \<Rightarrow> bool" where
  "args_hold abi bits args fvs m \<longleftrightarrow> (\<forall>(f, v) \<in> set fvs. arg_get abi f args m = take_bit (bits f) v)"

lemma args_hold_put:
  assumes "abi_ok abi bits args" and "args_hold abi bits args xs m" and "distinct (map fst (xs @ ys))"
  shows "args_hold abi bits args (xs @ ys) (put_all abi args ys m)"
  unfolding args_hold_def
proof (clarify, unfold set_append Un_iff, elim disjE)
  fix f v assume f: "(f, v) \<in> set xs"
  then have "f \<notin> fst ` set ys" using assms(3) by force
  then show "arg_get abi f args (put_all abi args ys m) = take_bit (bits f) v"
    using assms(2) f by (auto simp: put_all_other [OF assms(1)] args_hold_def)
next
  fix f v assume "(f, v) \<in> set ys"
  then show "arg_get abi f args (put_all abi args ys m) = take_bit (bits f) v"
    using assms(3) by (intro put_all_get [OF assms(1)]) auto
qed

lemma cursors_in_map:
  assumes "c \<in> set (cursors map_at (map_at + sz) d)" and "d \<noteq> 0" and "unat map_at + unat sz + unat d \<le> 2 ^ 64"
    and "in_range c (unat d) x"
  shows "in_range map_at (unat sz + unat d) x"
proof -
  have e: "unat (map_at + sz) - unat map_at = unat sz" using end_no_wrap(1) [OF assms(3,2)] by simp
  obtain i where i: "c = map_at + of_nat (i * unat d)" "i < (unat sz + unat d - 1) div unat d"
    using assms(1) unfolding cursors_def e by auto
  have "Suc i * unat d \<le> (unat sz + unat d - 1) div unat d * unat d" using i(2) by (intro mult_le_mono1) simp
  also have "\<dots> \<le> unat sz + unat d - 1" by (rule div_times_less_eq_dividend)
  finally have "i * unat d \<le> unat sz" by simp
  moreover have "unat (of_nat (i * unat d) :: u64) \<le> i * unat d" by (simp only: unat_of_nat mod_less_eq_dividend)
  ultimately have "unat (of_nat (i * unat d) :: u64) + unat d \<le> unat sz + unat d" by linarith
  then show ?thesis using assms(4) unfolding i(1) by (rule in_range_sub)
qed

lemma walk_cong:
  assumes "mem_eq_off args (args_size abi) m m'" and "descriptor_local abi d"
    and "disjoint_ranges args (args_size abi) map_at (unat sz + unat d)"
    and "d \<noteq> 0" and "unat map_at + unat sz + unat d \<le> 2 ^ 64"
  shows "highest_address abi m' d (map_at + sz) map_at h = highest_address abi m d (map_at + sz) map_at h"
    and "runtime_ranges abi m' d (map_at + sz) map_at rs rc = runtime_ranges abi m d (map_at + sz) map_at rs rc"
proof -
  have loc: "PhysicalStart abi m' c = PhysicalStart abi m c" "NumberOfPages abi m' c = NumberOfPages abi m c"
      "Attribute abi m' c = Attribute abi m c" if "c \<in> set (cursors map_at (map_at + sz) d)" for c
  proof -
    have "mem_eq_on c (unat d) m' m"
      using assms(1,3) cursors_in_map [OF that assms(4,5)]
      unfolding mem_eq_on_def mem_eq_off_def disjoint_ranges_def by metis
    then show "PhysicalStart abi m' c = PhysicalStart abi m c" "NumberOfPages abi m' c = NumberOfPages abi m c"
      "Attribute abi m' c = Attribute abi m c"
      using assms(2) unfolding descriptor_local_def by blast+
  qed
  note returns = end_no_wrap(2) [OF assms(5,4)]
  show "highest_address abi m' d (map_at + sz) map_at h = highest_address abi m d (map_at + sz) map_at h"
    unfolding highest.loop_returns [OF assms(4) returns]
    by (auto intro!: fold_cong simp: raise_highest_def loc)
  show "runtime_ranges abi m' d (map_at + sz) map_at rs rc = runtime_ranges abi m d (map_at + sz) map_at rs rc"
    using runtime.loop_returns [OF assms(4) returns, of abi m' map_at "(rs, rc)"]
      runtime.loop_returns [OF assms(4) returns, of abi m map_at "(rs, rc)"]
    by (auto intro!: fold_cong simp: add_runtime_def loc)
qed

text \<open>The values the fields are given, for the physical memory size and the runtime range of the map.\<close>

definition boot_arg_values ::
  "boot_abi \<Rightarrow> 'w boot \<Rightarrow> u64 \<Rightarrow> u64 \<Rightarrow> u64 \<Rightarrow> u64 \<Rightarrow> u32 \<Rightarrow> u64 \<Rightarrow> u64 \<times> u32 \<Rightarrow> (arg_field \<times> u64) list" where
  "boot_arg_values abi s system_table memory_map memory_map_size d version h rt =
     (head_fields abi @ place_fields s system_table memory_map memory_map_size d version) @
     (clock_fields s h @ video_fields s) @ runtime_fields (fst rt) (snd rt)"

lemma boot_arg_values_distinct: "distinct (map fst (boot_arg_values abi s st mp sz d version h rt))"
  by (cases "gGopFrameBufferBase s = 0")
    (simp_all add: boot_arg_values_def head_fields_def place_fields_def clock_fields_def video_fields_def runtime_fields_def)

lemma length_command_line: "0 < n \<Longrightarrow> length (panthera_copy_ascii n line) < n"
  by (simp add: panthera_copy_ascii_def)

lemma fill_boot_args_spec:
  assumes ok: "abi_ok abi bits args" "descriptor_local abi d"
    and map: "disjoint_ranges args (args_size abi) memory_map (unat sz + unat d)" "d \<noteq> 0"
      "unat memory_map + unat sz + unat d \<le> 2 ^ 64"
    and h: "panthera_compute_physical_memory_size abi (bmem s) memory_map sz d = Some h"
    and rt: "runtime_ranges abi (bmem s) d (memory_map + sz) memory_map 0 0 = Some rt"
  shows "\<exists>m'. panthera_fill_boot_args abi s args system_table memory_map sz d version = Some m' \<and>
    mem_eq_off args (args_size abi) (bmem s) m' \<and>
    args_hold abi bits args (boot_arg_values abi s system_table memory_map sz d version h rt) m'"
proof -
  define m2 where "m2 = put_all abi args (head_fields abi) (panthera_zero_memory args (sizeof_boot_args abi) (bmem s))"
  define m3 where "m3 = line_put abi args (panthera_copy_ascii (sizeof_CommandLine abi) (gBootCommandLine s)) m2"
  define m4 where "m4 = put_all abi args (place_fields s system_table memory_map sz d version) m3"
  define m5 where "m5 = put_all abi args (clock_fields s h @ video_fields s) m4"
  define m6 where "m6 = put_all abi args (runtime_fields (fst rt) (snd rt)) m5"
  have line: "length (panthera_copy_ascii (sizeof_CommandLine abi) (gBootCommandLine s)) < sizeof_CommandLine abi"
    using ok(1) by (intro length_command_line) (simp add: abi_ok_def)
  have "mem_eq_off args (args_size abi) (bmem s) (panthera_zero_memory args (sizeof_boot_args abi) (bmem s))"
    by (simp add: mem_eq_off_def zero_memory_apply)
  moreover have "mem_eq_off args (args_size abi) m2 m3" using ok(1) line by (simp add: m3_def abi_ok_def)
  ultimately have fr4: "mem_eq_off args (args_size abi) (bmem s) m4"
    unfolding m4_def m2_def using put_all_frame [OF ok(1)] by (meson mem_eq_off_trans)
  then have fr5: "mem_eq_off args (args_size abi) (bmem s) m5" and fr6: "mem_eq_off args (args_size abi) (bmem s) m6"
    unfolding m6_def m5_def using put_all_frame [OF ok(1)] by (meson mem_eq_off_trans)+
  have run: "panthera_fill_boot_args abi s args system_table memory_map sz d version = Some m6"
    using h rt walk_cong(1) [OF fr4 ok(2) map, of 0] walk_cong(2) [OF fr5 ok(2) map, of 0 0]
    by (cases rt) (simp add: panthera_fill_boot_args_def panthera_compute_physical_memory_size_def Let_def
        m2_def [symmetric] m3_def [symmetric] m4_def [symmetric] m5_def [symmetric] m6_def)
  note put = args_hold_put [OF ok(1)]
  have dist: "distinct (map fst ((head_fields abi @ place_fields s system_table memory_map sz d version) @
      (clock_fields s h @ video_fields s) @ runtime_fields (fst rt) (snd rt)))"
    using boot_arg_values_distinct [of abi s system_table memory_map sz d version h rt]
    by (simp only: boot_arg_values_def)
  have "args_hold abi bits args (head_fields abi) m3"
    using put [of "[]" _ "head_fields abi"] dist ok(1) line unfolding m3_def m2_def
    by (auto simp: args_hold_def abi_ok_def)
  then have "args_hold abi bits args (head_fields abi @ place_fields s system_table memory_map sz d version) m4"
    unfolding m4_def by (rule put) (use dist in auto)
  then have "args_hold abi bits args ((head_fields abi @ place_fields s system_table memory_map sz d version) @
      (clock_fields s h @ video_fields s)) m5"
    unfolding m5_def by (rule put) (use dist in auto)
  then have "args_hold abi bits args (boot_arg_values abi s system_table memory_map sz d version h rt) m6"
    unfolding m6_def boot_arg_values_def append_assoc [symmetric] by (rule put) (use dist in auto)
  then show ?thesis using run fr6 by blast
qed


section \<open>A concrete layout\<close>

text \<open>Every field is a 64-bit cell of its own, and descriptors have the standard UEFI offsets.\<close>

fun demo_offset :: "arg_field \<Rightarrow> u64" where
  "demo_offset Revision = 0" | "demo_offset Version = 8" | "demo_offset efiMode = 16" | "demo_offset debugMode = 24"
| "demo_offset flags = 32" | "demo_offset MemoryMap = 40" | "demo_offset MemoryMapSize = 48"
| "demo_offset MemoryMapDescriptorSize = 56" | "demo_offset MemoryMapDescriptorVersion = 64"
| "demo_offset deviceTreeP = 72" | "demo_offset deviceTreeLength = 80" | "demo_offset kaddr = 88"
| "demo_offset ksize = 96" | "demo_offset efiSystemTable = 104" | "demo_offset PhysicalMemorySize = 112"
| "demo_offset FSBFrequency = 120" | "demo_offset pciConfigSpaceBaseAddress = 128"
| "demo_offset pciConfigSpaceStartBusNumber = 136" | "demo_offset pciConfigSpaceEndBusNumber = 144"
| "demo_offset VideoV1_v_baseAddr = 152" | "demo_offset VideoV1_v_rowBytes = 160" | "demo_offset VideoV1_v_width = 168"
| "demo_offset VideoV1_v_height = 176" | "demo_offset VideoV1_v_depth = 184" | "demo_offset VideoV1_v_display = 192"
| "demo_offset Video_v_baseAddr = 200" | "demo_offset Video_v_rowBytes = 208" | "demo_offset Video_v_width = 216"
| "demo_offset Video_v_height = 224" | "demo_offset Video_v_depth = 232" | "demo_offset Video_v_display = 240"
| "demo_offset efiRuntimeServicesPageStart = 248" | "demo_offset efiRuntimeServicesPageCount = 256"
| "demo_offset efiRuntimeServicesVirtualPageStart = 264"

definition demo_abi :: boot_abi where
  "demo_abi = \<lparr>sizeof_boot_args = 4096, kBootArgsRevision = 0, kBootArgsVersion = 2, kBootArgsEfiMode64 = 64, sizeof_CommandLine = 1024,
     arg_put = (\<lambda>f args v m. wr64 m (args + demo_offset f) v), arg_get = (\<lambda>f args m. rd64 m (args + demo_offset f)),
     line_put = (\<lambda>args bs m. wr_bytes m (args + 512) (bs @ [0])),
     PhysicalStart = (\<lambda>m c. rd64 m (c + 8)), NumberOfPages = (\<lambda>m c. rd64 m (c + 24)),
     Attribute = (\<lambda>m c. rd64 m (c + 32))\<rparr>"

lemma demo_offset_bounds: "unat (demo_offset f) + 8 \<le> 512"
  by (cases f) simp_all

lemma demo_offset_inj: "f \<noteq> g \<Longrightarrow> apart (demo_offset f) 8 (demo_offset g) 8"
  by (cases f; cases g) (simp_all add: apart_def)

lemma demo_line_frame:
  assumes "length bs < 1024"
  shows "mem_eq_off (args + 512) 1024 m (wr_bytes m (args + 512) (bs @ [0]))"
  using assms by (auto simp: mem_eq_off_def wr_bytes_apply in_range_def)

lemma demo_abi_ok: "abi_ok demo_abi (\<lambda>_. 64) args"
proof -
  have put: "rd64 (wr64 m (args + demo_offset g) v) (args + demo_offset f) = rd64 m (args + demo_offset f)"
    if "f \<noteq> g" for f g m v
    using demo_offset_inj [of g f] that by (intro rd64_wr64_apart) simp
  have frame: "mem_eq_off args 4096 m (wr64 m (args + demo_offset f) v)" for f m v
    by (rule mem_eq_off_sub [OF wr64_off]) (use demo_offset_bounds [of f] in simp)
  have line: "rd64 (wr_bytes m (args + 512) (bs @ [0])) (args + demo_offset f) = rd64 m (args + demo_offset f)"
    if "length bs < 1024" for f m bs
    by (rule rd64_off [OF demo_line_frame [OF that]], rule disjoint_offsets) (use demo_offset_bounds [of f] in simp_all)
  have line_frame: "mem_eq_off args 4096 m (wr_bytes m (args + 512) (bs @ [0]))" if "length bs < 1024" for m bs
    by (rule mem_eq_off_sub [OF demo_line_frame [OF that]]) simp
  show ?thesis
    using put frame line line_frame by (simp add: abi_ok_def demo_abi_def rd64_wr64_same take_bit_word_eq_self)
qed

lemma demo_descriptor_local: "descriptor_local demo_abi 48"
  by (auto simp: descriptor_local_def demo_abi_def intro!: rd64_at)

theorem physical_memory_size_max_witness:
  "\<exists>h. panthera_compute_physical_memory_size demo_abi (mem_of 0x3018 [16]) 0x3000 96 48 = Some h \<and> 0x10000 \<le> h"
proof -
  obtain h where "panthera_compute_physical_memory_size demo_abi (mem_of 0x3018 [16]) 0x3000 96 48 = Some h"
    "\<forall>c \<in> set (cursors 0x3000 (0x3000 + 96) 48). range_end_at demo_abi (mem_of 0x3018 [16]) c \<le> h"
    using physical_memory_size_max [of 48 "0x3000" 96 demo_abi "mem_of 0x3018 [16]"] by auto
  then show ?thesis by (auto simp: cursors_def demo_abi_def eval_mem mem_of_def upt_rec)
qed

theorem zero_descriptor_hangs_witness:
  "panthera_fill_boot_args demo_abi (initial_boot ()) 0x1000 0x2000 0x3000 48 0 1 = None"
  by (rule zero_descriptor_hangs) simp


section \<open>The copy of the system table\<close>

lemma take_rd_bytes: "take k (rd_bytes m a n) = rd_bytes m a (min k n)"
  by (rule nth_equalityI) (auto simp: nth_rd_bytes)

text \<open>
  C34. The copied system table is usable after the firmware's is gone: when the new buffer overlaps
  neither the table nor its configuration table, the copy equals the table except for the pointer to
  the configuration table, which points behind the copy, where the bytes of the configuration table
  are; nothing outside the buffer changes.
\<close>

theorem system_table_copied:
  assumes "disjoint_ranges buffer (120 + unat cb) system_table 120"
    and "disjoint_ranges buffer (120 + unat cb) (rd64 m (system_table + 112)) (unat cb)"
    and "120 + unat cb \<le> 2 ^ 64" and "copy_system_table system_table buffer cb m = m'"
  shows "rd_bytes m' buffer 112 = rd_bytes m system_table 112 \<and> rd64 m' (buffer + 112) = buffer + 120 \<and>
    rd_bytes m' (buffer + 120) (unat cb) = rd_bytes m (rd64 m (system_table + 112)) (unat cb) \<and>
    mem_eq_off buffer (120 + unat cb) m m'"
proof -
  define config where "config = rd64 m (system_table + 112)"
  define m1 where "m1 = wr_bytes m buffer (rd_bytes m system_table 120)"
  define m2 where "m2 = wr_bytes m1 (buffer + 120) (rd_bytes m config (unat cb))"
  have d1: "disjoint_ranges buffer 120 system_table 120"
    using disjoint_ranges_sub [OF assms(1), of 0 120] by simp
  have d2: "disjoint_ranges buffer 120 config (unat cb)"
    using disjoint_ranges_sub [OF assms(2), of 0 120] by (simp add: config_def)
  have d3: "disjoint_ranges (buffer + 120) (unat cb) config (unat cb)"
    using disjoint_ranges_sub [OF assms(2), of 120 "unat cb"] by (simp add: config_def)
  have m1: "panthera_copy_memory buffer system_table 120 m = m1"
    unfolding m1_def using d1 by (subst copy_memory_disjoint) simp_all
  have fr1: "mem_eq_off buffer 120 m m1" by (simp add: m1_def mem_eq_off_def wr_bytes_apply)
  have c1: "rd64 m1 (system_table + 112) = config"
    unfolding config_def by (rule rd64_off [OF fr1 disjoint_ranges_sym [OF disjoint_ranges_sub [OF disjoint_ranges_sym [OF d1]]]]) simp
  have r1: "rd_bytes m1 config (unat cb) = rd_bytes m config (unat cb)"
    using mem_eq_off_on [OF fr1 d2] unat_lt2p [of cb] by (intro rd_bytes_cong) auto
  have m2: "m2 = (if cb \<noteq> 0 then panthera_copy_memory (buffer + 120) config cb m1 else m1)"
    using d3 by (simp add: copy_memory_disjoint r1 m2_def)
  have m': "m' = wr64 m2 (buffer + 112) (buffer + 120)"
    unfolding m2 using assms(4) m1 c1 by (auto simp: copy_system_table_def Let_def)
  have len: "unat cb \<le> 2 ^ 64" using assms(3) by simp
  have fr2: "mem_eq_off (buffer + 120) (unat cb) m1 m2"
    using len by (simp add: m2_def mem_eq_off_def wr_bytes_apply)
  have fr3: "mem_eq_off (buffer + 112) 8 m2 m'" unfolding m' by (rule wr64_off)
  have "mem_eq_on buffer 112 m' m1"
    using mem_eq_off_on [OF fr3, of buffer 112] mem_eq_off_on [OF fr2, of buffer 112]
      disjoint_offsets [of 112 8 0 112 buffer] disjoint_offsets [of 120 "unat cb" 0 112 buffer] assms(3)
    by (auto intro: mem_eq_on_trans)
  then have "rd_bytes m' buffer 112 = take 112 (rd_bytes m1 buffer 120)"
    unfolding take_rd_bytes using rd_bytes_cong [of buffer 112 m' m1] by simp
  also have "\<dots> = rd_bytes m system_table 112"
    using rd_wr_bytes_same [of "rd_bytes m system_table 120" m buffer] by (simp add: m1_def take_rd_bytes)
  finally have a: "rd_bytes m' buffer 112 = rd_bytes m system_table 112" .
  have "mem_eq_on (buffer + 120) (unat cb) m' m2"
    unfolding m' using assms(3) by (intro cell64.wr_apart) (simp add: apart_def)
  then have c: "rd_bytes m' (buffer + 120) (unat cb) = rd_bytes m config (unat cb)"
    using rd_bytes_cong [OF _ len] rd_wr_bytes_same [of "rd_bytes m config (unat cb)" m1 "buffer + 120"] len
    by (simp add: m2_def)
  have "mem_eq_off buffer (120 + unat cb) m m1" "mem_eq_off buffer (120 + unat cb) m1 m2" "mem_eq_off buffer (120 + unat cb) m2 m'"
    using mem_eq_off_sub [of buffer 0 120 m m1] mem_eq_off_sub [OF fr2] mem_eq_off_sub [OF fr3] fr1 by simp_all
  then show ?thesis using a c by (auto simp: m' rd64_wr64_same config_def intro: mem_eq_off_trans)
qed

definition demo_table_mem :: mem where
  "demo_table_mem = mem_of 0x1070 [0x00, 0x50]"

theorem system_table_copied_witness:
  "rd64 (copy_system_table 0x1000 0x9000 48 demo_table_mem) 0x9070 = 0x9078 \<and>
   rd_bytes (copy_system_table 0x1000 0x9000 48 demo_table_mem) 0x9078 48 = rd_bytes demo_table_mem 0x5000 48"
proof -
  have ct: "rd64 demo_table_mem (0x1000 + 112) = 0x5000" by (simp add: demo_table_mem_def mem_of_def eval_mem)
  have "disjoint_ranges 0x9000 (120 + unat (48 :: u64)) 0x1000 120"
    "disjoint_ranges 0x9000 (120 + unat (48 :: u64)) (rd64 demo_table_mem (0x1000 + 112)) (unat (48 :: u64))"
    unfolding ct by (rule disjoint_rangesI; simp)+
  from system_table_copied [OF this _ refl] show ?thesis using ct by simp
qed

end
