(* ===== verification/Boot_Main.thy ===== *)
theory Boot_Main
  imports Boot_Kernel Boot_Kexts Boot_Args
begin

text \<open>
  The main path of the loader, \<open>EfiMain\<close> of \<open>boot/efi/loader/src/bootx64.c\<close>, and its last phase: the
  handoff code and stack, leaving the boot services and entering the kernel. The machine code of the
  handoff is assembled from \<open>panthera_handoff.S\<close>; its bytes and the two offsets the loader patches are
  a parameter. A run ends by returning to the firmware, by jumping to the handoff code, or not at all.
\<close>

section \<open>Handoff code and stack\<close>

record handoff_template =
  template_bytes :: "u8 list"
  gdtr_offset :: u64
  gdt_offset :: u64

definition panthera_prepare_handoff_code :: "'w firmware \<Rightarrow> handoff_template \<Rightarrow> ('w boot, u64) state" where
  "panthera_prepare_handoff_code fw tmpl = do {
     let template_size = of_nat (length (template_bytes tmpl));
     (status, handoff_code) \<leftarrow> panthera_allocate_buffer_pages fw template_size;
     if EFI_ERROR status then ret status
     else do {
       modify (\<lambda>s. s\<lparr>gHandoffCodeBase := handoff_code\<rparr>);
       modify_mem (panthera_zero_memory handoff_code template_size);
       modify_mem (\<lambda>m. wr_bytes m handoff_code (template_bytes tmpl));
       modify_mem (\<lambda>m. wr64 m (handoff_code + gdtr_offset tmpl + 2) (handoff_code + gdt_offset tmpl));
       modify (\<lambda>s. s\<lparr>gHandoffCodeSize := template_size\<rparr>);
       ret EFI_SUCCESS
     }
   }"

definition panthera_prepare_handoff_stack :: "'w firmware \<Rightarrow> ('w boot, u64) state" where
  "panthera_prepare_handoff_stack fw = do {
     (status, stack_buffer) \<leftarrow> panthera_allocate_buffer_pages fw PANTHERA_HANDOFF_STACK_SIZE;
     if EFI_ERROR status then ret status
     else do {
       modify (\<lambda>s. s\<lparr>gHandoffStackBase := stack_buffer\<rparr>);
       modify_mem (panthera_zero_memory stack_buffer PANTHERA_HANDOFF_STACK_SIZE);
       ret EFI_SUCCESS
     }
   }"

section \<open>Entering the kernel\<close>

text \<open>The jump carries the handoff code's address and its three arguments: boot arguments, kernel
  entry and stack top.\<close>

datatype boot_outcome = EfiReturn u64 | Handoff u64 u32 u32 u32 | NeverReturns

fun panthera_debugcon_write_ascii :: "'w firmware \<Rightarrow> u8 list \<Rightarrow> ('w boot, unit) state" where
  "panthera_debugcon_write_ascii fw [] = ret ()"
| "panthera_debugcon_write_ascii fw (c # cs) = do { call (outb fw 0xe9 c); panthera_debugcon_write_ascii fw cs }"

definition enter_kernel :: "'w firmware \<Rightarrow> u64 \<Rightarrow> ('w boot, boot_outcome) state" where
  "enter_kernel fw handoff_entry = do {
     panthera_debugcon_write_ascii fw (bytes_of_string ''PANTHERA:EBS'' @ [0x0a]);
     framebuffer \<leftarrow> gets gGopFrameBufferBase;
     (if framebuffer \<noteq> 0 then do { call (outw fw 0x01ce 4); call (outw fw 0x01cf 0x41) } else ret ());
     s \<leftarrow> State_Monad.get;
     ret (Handoff handoff_entry (ucast (gBootArgsBase s)) (ucast (gKernelEntryBase s))
            (ucast (gHandoffStackBase s + PANTHERA_HANDOFF_STACK_SIZE)))
   }"

text \<open>The number of attempts left and the status of the last one.\<close>

fun exit_attempts ::
  "'w firmware \<Rightarrow> boot_abi \<Rightarrow> u64 \<Rightarrow> u64 \<Rightarrow> u64 \<Rightarrow> u64 \<Rightarrow> u64 \<Rightarrow> nat \<Rightarrow> u64 \<Rightarrow> ('w boot, boot_outcome) state" where
  "exit_attempts fw abi image_handle system_table_copy args memory_map handoff_entry 0 status = do {
     _ \<leftarrow> console_write_hex64 fw ''ExitBootServices failed: '' status;
     ret (EfiReturn status) }"
| "exit_attempts fw abi image_handle system_table_copy args memory_map handoff_entry (Suc left) status = do {
     capacity \<leftarrow> gets gMemoryMapCapacity;
     (status, memory_map_size, map_key, descriptor_size, descriptor_version) \<leftarrow>
       panthera_refresh_memory_map fw memory_map capacity;
     if EFI_ERROR status then do {
       _ \<leftarrow> console_write_hex64 fw ''Final GetMemoryMap failed: '' status;
       ret (EfiReturn status) }
     else do {
       s \<leftarrow> State_Monad.get;
       case panthera_fill_boot_args abi s args system_table_copy memory_map memory_map_size
              descriptor_size descriptor_version of
         None \<Rightarrow> ret NeverReturns
       | Some m \<Rightarrow> do {
           modify_mem (\<lambda>_. m);
           status \<leftarrow> call (ExitBootServices fw image_handle map_key);
           if \<not> EFI_ERROR status then enter_kernel fw handoff_entry
           else exit_attempts fw abi image_handle system_table_copy args memory_map handoff_entry left status
         }
     }
   }"

definition panthera_exit_boot_services_and_enter_kernel ::
  "'w firmware \<Rightarrow> boot_abi \<Rightarrow> u64 \<Rightarrow> u64 \<Rightarrow> u64 \<Rightarrow> u64 \<Rightarrow> ('w boot, boot_outcome) state" where
  "panthera_exit_boot_services_and_enter_kernel fw abi image_handle system_table_copy args memory_map = do {
     handoff_entry \<leftarrow> gets gHandoffCodeBase;
     exit_attempts fw abi image_handle system_table_copy args memory_map handoff_entry 4 EFI_NOT_FOUND }"

section \<open>The phases of EfiMain\<close>

text \<open>A phase gives the value the next one needs or the outcome of an early return.\<close>

definition and_then ::
  "('s, 'e + 'a) state \<Rightarrow> ('a \<Rightarrow> ('s, 'e + 'b) state) \<Rightarrow> ('s, 'e + 'b) state" where
  "and_then p f = do { r \<leftarrow> p; case r of Inl e \<Rightarrow> ret (Inl e) | Inr a \<Rightarrow> f a }"

definition leave :: "u64 \<Rightarrow> ('w boot, unit) state \<Rightarrow> ('w boot, boot_outcome + 'a) state" where
  "leave status report = do { report; ret (Inl (EfiReturn status)) }"

definition require :: "u64 \<Rightarrow> ('w boot, unit) state \<Rightarrow> ('w boot, boot_outcome + unit) state" where
  "require status report = (if EFI_ERROR status then leave status report else ret (Inr ()))"

definition say_hex :: "'w firmware \<Rightarrow> string \<Rightarrow> u64 \<Rightarrow> ('w boot, unit) state" where
  "say_hex fw label v = do { _ \<leftarrow> console_write_hex64 fw label v; ret () }"

definition say_dec :: "'w firmware \<Rightarrow> string \<Rightarrow> u64 \<Rightarrow> ('w boot, unit) state" where
  "say_dec fw label v = do { _ \<leftarrow> console_write_uint64 fw label v; ret () }"

definition say_line :: "'w firmware \<Rightarrow> string \<Rightarrow> ('w boot, unit) state" where
  "say_line fw msg = do { _ \<leftarrow> console_write fw (wide_line msg); ret () }"

abbreviation offsetof_gop_Mode :: u64 where "offsetof_gop_Mode \<equiv> 24"
abbreviation offsetof_mode_Info :: u64 where "offsetof_mode_Info \<equiv> 8"
abbreviation offsetof_mode_FrameBufferBase :: u64 where "offsetof_mode_FrameBufferBase \<equiv> 24"

definition query_framebuffer :: "'w firmware \<Rightarrow> ('w boot, unit) state" where
  "query_framebuffer fw = do {
     (gs, gop) \<leftarrow> call (LocateProtocol fw gEfiGraphicsOutputProtocolGuid);
     m \<leftarrow> gets bmem;
     let mode = rd64 m (gop + offsetof_gop_Mode);
     if \<not> EFI_ERROR gs \<and> gop \<noteq> 0 \<and> mode \<noteq> 0 then do {
       let info = rd64 m (mode + offsetof_mode_Info);
       modify (\<lambda>s. s\<lparr>gGopFrameBufferBase := rd64 m (mode + offsetof_mode_FrameBufferBase),
         gGopWidth := rd32 m (info + 4), gGopHeight := rd32 m (info + 8), gGopPixelsPerScanLine := rd32 m (info + 32)\<rparr>);
       say_line fw ''Framebuffer configured.'' }
     else say_line fw ''WARNING: No GOP framebuffer.''
   }"

definition efi_start :: "'w firmware \<Rightarrow> ('w boot, unit) state" where
  "efi_start fw = do {
     say_line fw ''Panthera BOOTX64 scaffold loaded.'';
     say_line fw ''Kernel ABI source: xnu-10002.41.9/pexpert/pexpert/i386/boot.h'';
     say_line fw ''Kernel entry comes from LC_UNIXTHREAD in the Mach-O image, not a hard-coded symbol.'';
     say_line fw ''Loading mach_kernel from the staged EFI volume.'';
     frequency \<leftarrow> panthera_calibrate_tsc_frequency fw;
     modify (\<lambda>s. s\<lparr>gFSBFrequencyHz := frequency\<rparr>);
     say_dec fw ''Calibrated FSBFrequency: '' frequency;
     query_framebuffer fw
   }"

text \<open>The checks after the image is staged: text segment, entry and their addresses.\<close>

definition efi_check_kernel :: "'w firmware \<Rightarrow> u64 \<Rightarrow> ('w boot, boot_outcome + unit) state" where
  "efi_check_kernel fw kernel_file = do {
     k \<leftarrow> gets gKernelImage;
     image_base \<leftarrow> gets gKernelImageBase;
     image_size \<leftarrow> gets gKernelImageSize;
     say_hex fw ''Kernel image physical base: '' image_base;
     say_dec fw ''Kernel image physical size: '' image_size;
     case panthera_find_segment k (bytes_of_string ''__TEXT'') of
       None \<Rightarrow> leave EFI_NOT_FOUND (do {
         say_line fw ''Missing __TEXT segment in parsed kernel image.''; panthera_free_pool fw kernel_file })
     | Some text_segment \<Rightarrow> do {
         let text_base = panthera_segment_physical_base k image_base text_segment;
         modify (\<lambda>s. s\<lparr>gKernelTextBase := text_base\<rparr>);
         say_hex fw ''Kernel text physical base: '' text_base;
         let entry_base = panthera_compute_entry_physical_base k image_base;
         modify (\<lambda>s. s\<lparr>gKernelEntryBase := entry_base\<rparr>);
         if entry_base = 0 then leave EFI_NOT_FOUND (do {
           say_line fw ''Kernel entry PC is outside the staged image span.''; panthera_free_pool fw kernel_file })
         else do {
           say_hex fw ''Kernel entry physical base: '' entry_base;
           and_then (require (panthera_ensure_low32 text_base) (do {
             say_line fw ''Kernel text base is above 4GiB.''; panthera_free_pool fw kernel_file })) (\<lambda>_.
           and_then (require (panthera_ensure_low32 entry_base) (do {
             say_line fw ''Kernel entry base is above 4GiB.''; panthera_free_pool fw kernel_file })) (\<lambda>_. do {
           panthera_free_pool fw kernel_file;
           ret (Inr ()) }))
         }
       }
   }"

definition efi_load_kernel :: "'w firmware \<Rightarrow> u64 \<Rightarrow> ('w boot, boot_outcome + unit) state" where
  "efi_load_kernel fw image_handle = do {
     (status, kernel_file, kernel_file_size) \<leftarrow> panthera_try_load_kernel fw image_handle;
     and_then (require status (say_hex fw ''Kernel load failed: '' status)) (\<lambda>_. do {
     say_dec fw ''Kernel file size: '' kernel_file_size;
     s \<leftarrow> State_Monad.get;
     case panthera_parse_kernel_macho (bmem s) kernel_file kernel_file_size (Some (gKernelImage s)) of
       (loader_status, parsed) \<Rightarrow> do {
         modify (\<lambda>s. s\<lparr>gKernelImage := (case parsed of None \<Rightarrow> gKernelImage s | Some k \<Rightarrow> k)\<rparr>);
         if loader_status \<noteq> PANTHERA_LOADER_OK then leave EFI_NOT_FOUND (do {
           say_hex fw ''Kernel parse failed: '' (loader_status_code loader_status); panthera_free_pool fw kernel_file })
         else do {
           k \<leftarrow> gets gKernelImage;
           say_hex fw ''Kernel entry PC: '' (entry_pc k);
           say_dec fw ''Kernel segment count: '' (ucast (segment_count k));
           status \<leftarrow> panthera_stage_kernel_image fw kernel_file kernel_file_size;
           and_then (require status (do {
             say_hex fw ''Kernel staging failed: '' status; panthera_free_pool fw kernel_file })) (\<lambda>_.
           efi_check_kernel fw kernel_file)
         }
       } })
   }"

text \<open>The memory map, the system table and the boot argument page: buffer, size, descriptor size and
  version, table copy and arguments.\<close>

definition efi_capture ::
  "'w firmware \<Rightarrow> boot_abi \<Rightarrow> u64 \<Rightarrow> ('w boot, boot_outcome + (u64 \<times> u64 \<times> u64 \<times> u32 \<times> u64 \<times> u64)) state" where
  "efi_capture fw abi system_table = do {
     (status, memory_map, memory_map_size, capacity, map_key, descriptor_size, descriptor_version) \<leftarrow>
       panthera_capture_memory_map fw;
     and_then (require status (say_hex fw ''GetMemoryMap failed: '' status)) (\<lambda>_. do {
     modify (\<lambda>s. s\<lparr>gMemoryMapBase := memory_map, gMemoryMapCapacity := capacity\<rparr>);
     say_dec fw ''EFI memory map size: '' memory_map_size;
     say_dec fw ''EFI descriptor size: '' descriptor_size;
     say_hex fw ''EFI map key: '' map_key;
     say_hex fw ''EFI memory map base: '' memory_map;
     (status, system_table_copy) \<leftarrow> panthera_capture_system_table fw system_table;
     and_then (require status (say_hex fw ''System table copy failed: '' status)) (\<lambda>_. do {
     modify (\<lambda>s. s\<lparr>gSystemTableBase := system_table_copy\<rparr>);
     say_hex fw ''EFI system table copy: '' system_table_copy;
     and_then (require (panthera_ensure_low32 system_table_copy) (say_line fw ''EFI system table copy is above 4GiB.'')) (\<lambda>_. do {
     (status, args) \<leftarrow> panthera_allocate_boot_args fw abi;
     and_then (require status (say_hex fw ''boot_args allocation failed: '' status)) (\<lambda>_. do {
     modify (\<lambda>s. s\<lparr>gBootArgsBase := args\<rparr>);
     and_then (require (panthera_ensure_low32 args) (say_line fw ''boot_args allocation is above 4GiB.'')) (\<lambda>_.
     ret (Inr (memory_map, memory_map_size, descriptor_size, descriptor_version, system_table_copy, args))) }) }) }) })
   }"

definition efi_stage :: "'w firmware \<Rightarrow> u64 \<Rightarrow> ('w boot, boot_outcome + unit) state" where
  "efi_stage fw image_handle = do {
     status \<leftarrow> panthera_load_boot_command_line fw image_handle;
     and_then (require status (say_hex fw ''Boot args load failed: '' status)) (\<lambda>_. do {
     status \<leftarrow> panthera_stage_boot_kexts fw image_handle;
     and_then (require status (say_hex fw ''Boot kext staging failed: '' status)) (\<lambda>_. do {
     count \<leftarrow> gets gBootKextCount;
     say_dec fw ''Boot kext count: '' (ucast count);
     status \<leftarrow> panthera_build_synthetic_device_tree fw;
     and_then (require status (say_hex fw ''Device tree allocation failed: '' status)) (\<lambda>_. do {
     base \<leftarrow> gets gDeviceTreeBase;
     and_then (require (panthera_ensure_low32 base) (say_line fw ''Device tree allocation is above 4GiB.'')) (\<lambda>_. do {
     say_hex fw ''Device tree physical base: '' base;
     sz \<leftarrow> gets gDeviceTreeSize;
     say_dec fw ''Device tree size: '' (ucast sz);
     ret (Inr ()) }) }) }) })
   }"

definition efi_prepare_handoff :: "'w firmware \<Rightarrow> handoff_template \<Rightarrow> ('w boot, boot_outcome + unit) state" where
  "efi_prepare_handoff fw tmpl = do {
     status \<leftarrow> panthera_prepare_handoff_code fw tmpl;
     and_then (require status (say_hex fw ''Handoff code allocation failed: '' status)) (\<lambda>_. do {
     base \<leftarrow> gets gHandoffCodeBase;
     sz \<leftarrow> gets gHandoffCodeSize;
     say_hex fw ''Handoff code base: '' base;
     say_dec fw ''Handoff code size: '' sz;
     and_then (require (panthera_ensure_low32 base) (say_line fw ''Handoff code base is above 4GiB.'')) (\<lambda>_. do {
     status \<leftarrow> panthera_prepare_handoff_stack fw;
     and_then (require status (say_hex fw ''Handoff stack allocation failed: '' status)) (\<lambda>_. do {
     stack \<leftarrow> gets gHandoffStackBase;
     say_hex fw ''Handoff stack base: '' stack;
     require (panthera_ensure_low32 (stack + PANTHERA_HANDOFF_STACK_SIZE)) (say_line fw ''Handoff stack top is above 4GiB.'') }) }) })
   }"

definition efi_enter ::
  "'w firmware \<Rightarrow> boot_abi \<Rightarrow> u64 \<Rightarrow> u64 \<times> u64 \<times> u64 \<times> u32 \<times> u64 \<times> u64 \<Rightarrow> ('w boot, boot_outcome) state" where
  "efi_enter fw abi image_handle = (\<lambda>(memory_map, memory_map_size, descriptor_size, descriptor_version, system_table_copy, args). do {
     s \<leftarrow> State_Monad.get;
     case panthera_fill_boot_args abi s args system_table_copy memory_map memory_map_size descriptor_size descriptor_version of
       None \<Rightarrow> ret NeverReturns
     | Some m \<Rightarrow> do {
         modify_mem (\<lambda>_. put_all abi args [(deviceTreeP, low32 (gDeviceTreeBase s)), (deviceTreeLength, ucast (gDeviceTreeSize s))] m);
         say_hex fw ''boot_args physical base: '' (gBootArgsBase s);
         m1 \<leftarrow> gets bmem;
         say_hex fw ''boot_args MemoryMap: '' (arg_get abi MemoryMap args m1);
         m2 \<leftarrow> gets bmem;
         say_hex fw ''boot_args efiSystemTable: '' (arg_get abi efiSystemTable args m2);
         m3 \<leftarrow> gets bmem;
         say_dec fw ''boot_args PhysicalMemorySize: '' (arg_get abi PhysicalMemorySize args m3);
         m4 \<leftarrow> gets bmem;
         say_dec fw ''boot_args RuntimePageCount: '' (arg_get abi efiRuntimeServicesPageCount args m4);
         say_line fw ''Attempting ExitBootServices and 32-bit pstart handoff.'';
         panthera_exit_boot_services_and_enter_kernel fw abi image_handle system_table_copy args memory_map
       } })"

definition EfiMain :: "'w firmware \<Rightarrow> boot_abi \<Rightarrow> handoff_template \<Rightarrow> u64 \<Rightarrow> u64 \<Rightarrow> ('w boot, boot_outcome) state" where
  "EfiMain fw abi tmpl image_handle system_table = do {
     efi_start fw;
     r \<leftarrow> and_then (efi_load_kernel fw image_handle) (\<lambda>_.
           and_then (efi_capture fw abi system_table) (\<lambda>captured.
           and_then (efi_stage fw image_handle) (\<lambda>_.
           and_then (efi_prepare_handoff fw tmpl) (\<lambda>_. ret (Inr captured)))));
     case r of Inl result \<Rightarrow> ret result | Inr captured \<Rightarrow> efi_enter fw abi image_handle captured
   }"

section \<open>What the phases leave alone\<close>

text \<open>A step \<open>preserves\<close> an observation of the state. Observations of global variables do not see the
  memory and the firmware.\<close>

definition preserves :: "('w boot \<Rightarrow> 'b) \<Rightarrow> ('w boot, 'a) state \<Rightarrow> bool" where
  "preserves f p \<longleftrightarrow> (\<forall>s. f (snd (run_state p s)) = f s)"

definition globals_only :: "('w boot \<Rightarrow> 'b) \<Rightarrow> bool" where
  "globals_only f \<longleftrightarrow> (\<forall>s m w. f (s\<lparr>bmem := m, fw_state := w\<rparr>) = f s)"

named_theorems keep \<open>steps that preserve an observation\<close>

lemma preserves_machine: "globals_only f \<Longrightarrow> machine_only p \<Longrightarrow> preserves f p"
  unfolding globals_only_def machine_only_def preserves_def by metis

lemma preserves_ret [keep]: "preserves f (ret a)"
  by (simp add: preserves_def)

lemma preserves_get [keep]: "preserves f State_Monad.get"
  by (simp add: preserves_def State_Monad.get_def)

lemma preserves_gets [keep]: "preserves f (gets g)"
  by (simp add: preserves_def)

lemma preserves_modify: "(\<And>s. f (g s) = f s) \<Longrightarrow> preserves f (modify g)"
  by (simp add: preserves_def)

lemma preserves_bind [keep]: "preserves f p \<Longrightarrow> (\<And>a. preserves f (q a)) \<Longrightarrow> preserves f (State_Monad.bind p q)"
  by (simp add: preserves_def split: prod.splits) (metis snd_conv)

lemma preserves_if [keep]: "preserves f p \<Longrightarrow> preserves f q \<Longrightarrow> preserves f (if b then p else q)"
  by simp

lemma preserves_prod [keep]: "(\<And>a b. preserves f (q a b)) \<Longrightarrow> preserves f (case x of (a, b) \<Rightarrow> q a b)"
  by (cases x) simp

lemma preserves_option [keep]:
  "preserves f p \<Longrightarrow> (\<And>a. preserves f (q a)) \<Longrightarrow> preserves f (case x of None \<Rightarrow> p | Some a \<Rightarrow> q a)"
  by (cases x) simp_all

lemma preserves_let [keep]: "(\<And>a. preserves f (q a)) \<Longrightarrow> preserves f (let a = x in q a)"
  by simp

lemma preserves_sum [keep]:
  "(\<And>a. preserves f (p a)) \<Longrightarrow> (\<And>a. preserves f (q a)) \<Longrightarrow> preserves f (case x of Inl a \<Rightarrow> p a | Inr a \<Rightarrow> q a)"
  by (cases x) simp_all

lemma preserves_and_then [keep]:
  "preserves f p \<Longrightarrow> (\<And>a. preserves f (q a)) \<Longrightarrow> preserves f (and_then p q)"
  unfolding and_then_def by (intro keep)

lemma preserves_require [keep]: "preserves f report \<Longrightarrow> preserves f (require status report)"
  unfolding require_def leave_def by (intro keep)

lemma machine_says [machine]:
  "machine_only (say_hex fw l v)" "machine_only (say_dec fw l v)" "machine_only (say_line fw t)"
  by (simp_all add: say_hex_def say_dec_def say_line_def machine)

lemma machine_capture [machine]:
  "machine_only (panthera_capture_memory_map fw)" "machine_only (panthera_capture_system_table fw st)"
  "machine_only (panthera_refresh_memory_map fw mm c)"
  by (simp_all add: panthera_capture_memory_map_def panthera_capture_system_table_def
      panthera_refresh_memory_map_def machine)

lemma machine_debugcon [machine]: "machine_only (panthera_debugcon_write_ascii fw t)"
  by (induction t) (simp_all add: machine)

text \<open>Observations that no phase after the kernel checks changes: those of the kernel image.\<close>

abbreviation kernel_view :: "'w boot \<Rightarrow> PantheraKernelImage \<times> u64 \<times> u64 \<times> u64 \<times> u64" where
  "kernel_view s \<equiv> (gKernelImage s, gKernelImageBase s, gKernelImageSize s, gKernelTextBase s, gKernelEntryBase s)"

abbreviation handoff_view :: "'w boot \<Rightarrow> u64 \<times> u64 \<times> u64" where
  "handoff_view s \<equiv> (gBootArgsBase s, gHandoffCodeBase s, gHandoffStackBase s)"

lemma views_globals: "globals_only kernel_view" "globals_only handoff_view" "globals_only gBootArgsBase"
  by (simp_all add: globals_only_def)

lemma preserves_boot_data:
  assumes "globals_only f" and "\<And>s x. f (s\<lparr>gKernelBootDataCursor := x\<rparr>) = f s"
    and "\<And>s x. f (s\<lparr>gKernelReservedSize := x\<rparr>) = f s"
  shows "preserves f (panthera_allocate_kernel_boot_data_pages fw sz)"
  unfolding panthera_allocate_kernel_boot_data_pages_def Let_def
  by (intro keep preserves_machine [OF assms(1)] preserves_modify machine_services assms)

lemma preserves_copy:
  assumes "globals_only f" and "\<And>s x. f (s\<lparr>gKernelBootDataCursor := x\<rparr>) = f s"
    and "\<And>s x. f (s\<lparr>gKernelReservedSize := x\<rparr>) = f s"
  shows "preserves f (panthera_copy_buffer_to_kernel_boot_data fw src)"
    and "preserves f (panthera_copy_ascii_to_kernel_boot_data fw txt)"
    and "preserves f (panthera_load_file_to_pages fw h p k)"
  unfolding panthera_copy_buffer_to_kernel_boot_data_def panthera_copy_ascii_to_kernel_boot_data_def
    panthera_load_file_to_pages_def Let_def
  by (intro keep preserves_boot_data [OF assms] preserves_machine [OF assms(1)] machine)+

lemma preserves_stage_kexts:
  assumes f: "globals_only f" "\<And>s x. f (s\<lparr>gKernelBootDataCursor := x\<rparr>) = f s"
      "\<And>s x. f (s\<lparr>gKernelReservedSize := x\<rparr>) = f s"
    and kext: "\<And>s x. f (s\<lparr>gBootKextRecords := x\<rparr>) = f s" "\<And>s x. f (s\<lparr>gBootKextCount := x\<rparr>) = f s"
  shows "preserves f (panthera_stage_boot_kexts fw h)"
proof -
  have upd: "preserves f (update_record g)" for g
    unfolding update_record_def Let_def by (intro preserves_modify kext)
  have exe: "preserves f (load_executable fw h e)" for e
    unfolding load_executable_def by (intro keep preserves_copy [OF f])
  have count: "preserves f (modify (\<lambda>s. s\<lparr>gBootKextCount := gBootKextCount s + 1\<rparr>))"
    by (intro preserves_modify kext)
  have say: "preserves f (say_entry fw msg e)" for msg e
    by (rule preserves_machine [OF f(1) machine_say_entry])
  have one: "preserves f (stage_one fw h e ip)" for e ip
    unfolding stage_one_def by (intro keep upd exe preserves_copy [OF f] count say)
  have "preserves f (stage_entries fw h es)" for es
  proof (induction es)
    case (Cons e es)
    show ?case unfolding stage_entries.simps by (intro keep one Cons.IH)
  qed (simp add: keep)
  then show ?thesis
    unfolding panthera_stage_boot_kexts_def by (intro keep preserves_modify kext)
qed

lemma preserves_command_line:
  assumes "globals_only f" "\<And>s x. f (s\<lparr>gBootCommandLine := x\<rparr>) = f s"
  shows "preserves f (panthera_load_boot_command_line fw h)"
  unfolding panthera_load_boot_command_line_def
  by (intro keep preserves_machine [OF assms(1)] machine preserves_modify assms(2))

lemma preserves_device_tree:
  assumes "globals_only f" "\<And>s x. f (s\<lparr>gDeviceTreeBase := x\<rparr>) = f s" "\<And>s x. f (s\<lparr>gDeviceTreeSize := x\<rparr>) = f s"
  shows "preserves f (panthera_build_synthetic_device_tree fw)"
  unfolding panthera_build_synthetic_device_tree_def
  by (intro keep preserves_machine [OF assms(1)] machine preserves_modify assms(2,3))

lemma preserves_handoff:
  assumes "globals_only f" 
  shows "(\<And>s x. f (s\<lparr>gHandoffCodeBase := x\<rparr>) = f s) \<Longrightarrow> (\<And>s x. f (s\<lparr>gHandoffCodeSize := x\<rparr>) = f s) \<Longrightarrow>
      preserves f (panthera_prepare_handoff_code fw tmpl)"
    and "(\<And>s x. f (s\<lparr>gHandoffStackBase := x\<rparr>) = f s) \<Longrightarrow> preserves f (panthera_prepare_handoff_stack fw)"
  unfolding panthera_prepare_handoff_code_def panthera_prepare_handoff_stack_def Let_def
  by (intro keep preserves_machine [OF assms(1)] machine preserves_modify; assumption)+

lemma efi_stage_keeps: "preserves (\<lambda>s. (kernel_view s, handoff_view s)) (efi_stage fw h)"
proof -
  have g: "globals_only (\<lambda>s. (kernel_view s, handoff_view s))" by (simp add: globals_only_def)
  show ?thesis
    unfolding efi_stage_def
    by (intro keep preserves_command_line preserves_stage_kexts preserves_device_tree g
        preserves_machine [OF g] machine) simp_all
qed

lemma efi_capture_keeps: "preserves kernel_view (efi_capture fw abi st)"
proof -
  show ?thesis
    unfolding efi_capture_def
    by (intro keep preserves_machine [OF views_globals(1)] machine preserves_modify) simp_all
qed

lemma efi_prepare_keeps: "preserves (\<lambda>s. (kernel_view s, gBootArgsBase s)) (efi_prepare_handoff fw tmpl)"
proof -
  have g: "globals_only (\<lambda>s. (kernel_view s, gBootArgsBase s))" by (simp add: globals_only_def)
  show ?thesis
    unfolding efi_prepare_handoff_def
    by (intro keep preserves_handoff g preserves_machine [OF g] machine) simp_all
qed

section \<open>Where the loader ends\<close>

lemma run_and_then:
  "run_state (and_then p f) s =
     (case run_state p s of (Inl e, s1) \<Rightarrow> (Inl e, s1) | (Inr a, s1) \<Rightarrow> run_state (f a) s1)"
  by (simp add: and_then_def split: prod.splits sum.splits)

text \<open>Triples for phases: an early return goes back to the firmware, otherwise \<open>Q\<close> holds.\<close>

definition phase :: "('w boot \<Rightarrow> bool) \<Rightarrow> ('w boot, boot_outcome + 'a) state \<Rightarrow> ('a \<Rightarrow> 'w boot \<Rightarrow> bool) \<Rightarrow> bool" where
  "phase P p Q \<longleftrightarrow> triple P p (\<lambda>r s. case r of Inl e \<Rightarrow> \<exists>st. e = EfiReturn st | Inr a \<Rightarrow> Q a s)"

lemma phase_and_then:
  assumes "phase P p R" and "\<And>a. phase (R a) (f a) Q"
  shows "phase P (and_then p f) Q"
  using assms unfolding phase_def triple_def run_and_then
  by (fastforce split: prod.splits sum.splits)

lemma phase_ret: "(\<And>s. P s \<Longrightarrow> Q a s) \<Longrightarrow> phase P (ret (Inr a)) Q"
  by (simp add: phase_def triple_def)

lemma phase_leave: "phase P (leave st report) Q"
  by (simp add: phase_def leave_def triple_def split: prod.splits)

lemma phase_bind: "triple P p R \<Longrightarrow> (\<And>a. phase (R a) (f a) Q) \<Longrightarrow> phase P (State_Monad.bind p f) Q"
  unfolding phase_def by (rule triple_bind)

lemma triple_preserves: "preserves f p \<Longrightarrow> triple (\<lambda>s. P (f s)) p (\<lambda>_ s. P (f s))"
  by (simp add: preserves_def triple_def)

lemma phase_keep: "preserves f p \<Longrightarrow> (\<And>a. phase (\<lambda>s. P (f s)) (q a) Q) \<Longrightarrow> phase (\<lambda>s. P (f s)) (State_Monad.bind p q) Q"
  by (rule phase_bind [OF triple_preserves])

lemma phase_require:
  assumes "preserves f report" and "\<And>s. P (f s) \<Longrightarrow> \<not> EFI_ERROR st \<Longrightarrow> Q (f s)"
  shows "phase (\<lambda>s. P (f s)) (require st report) (\<lambda>_ s. Q (f s))"
  using assms by (simp add: phase_def require_def leave_def triple_def split: prod.splits)

definition size_ok :: "PantheraKernelImage \<times> u64 \<times> u64 \<times> u64 \<times> u64 \<Rightarrow> bool" where
  "size_ok = (\<lambda>(k, base, sz, text_base, entry). sz = highest_vmaddr k - lowest_vmaddr k)"

definition entry_ok :: "PantheraKernelImage \<times> u64 \<times> u64 \<times> u64 \<times> u64 \<Rightarrow> bool" where
  "entry_ok = (\<lambda>(k, base, sz, text_base, entry). in_range base (unat sz) entry \<and> entry \<le> 0xffffffff \<and> text_base \<le> 0xffffffff)"

lemma entry_in_image:
  assumes "panthera_compute_entry_physical_base k base \<noteq> 0"
  shows "in_range base (unat (highest_vmaddr k - lowest_vmaddr k)) (panthera_compute_entry_physical_base k base)"
proof -
  have "lowest_vmaddr k \<le> entry_pc k" "entry_pc k < highest_vmaddr k"
    "panthera_compute_entry_physical_base k base = base + (entry_pc k - lowest_vmaddr k)"
    using assms by (auto simp: panthera_compute_entry_physical_base_def split: if_splits)
  then show ?thesis by (simp add: in_range_def unat_sub_if' word_le_nat_alt word_less_nat_alt)
qed

lemma preserves_relocate:
  assumes "globals_only f" "\<And>s x. f (s\<lparr>gKernelBootDataCursor := x\<rparr>) = f s"
  shows "preserves f (relocate_image fw kfile sz)"
  unfolding relocate_image_def
  by (intro keep preserves_machine [OF assms(1)] machine preserves_modify assms(2))

lemma stage_kernel_size:
  "triple (\<lambda>s. True) (panthera_stage_kernel_image fw kfile sz) (\<lambda>st s. \<not> EFI_ERROR st \<longrightarrow> size_ok (kernel_view s))"
proof -
  have g: "globals_only (\<lambda>s. (gKernelImage s, gKernelImageSize s))" by (simp add: globals_only_def)
  have keepers: "preserves (\<lambda>s. (gKernelImage s, gKernelImageSize s)) (allocate_image fw a b)"
    "preserves (\<lambda>s. (gKernelImage s, gKernelImageSize s)) (relocate_image fw kfile sz)"
    "preserves (\<lambda>s. (gKernelImage s, gKernelImageSize s)) (modify_mem h)" for a b h
    unfolding allocate_image_def
    by (intro keep preserves_relocate g preserves_machine [OF g] machine; simp)+
  have rest: "preserves (\<lambda>s. (gKernelImage s, gKernelImageSize s)) (do {
       modify_mem (panthera_zero_memory base span);
       m \<leftarrow> gets bmem;
       case copy_segments k base kfile sz (active_segments k) m of
         (status, m') \<Rightarrow> do {
           modify_mem (\<lambda>_. m');
           if EFI_ERROR status then ret status else relocate_image fw kfile sz } })" for base span k
    by (intro keep keepers)
  show ?thesis
    unfolding panthera_stage_kernel_image_def Let_def
    apply (rule triple_bind [where R = "\<lambda>k s. gKernelImage s = k"])
     apply (simp add: triple_def)
    subgoal for k
      apply (rule triple_bind_pair [where R = "\<lambda>_ s. gKernelImage s = k"])
       apply (use keepers(1) in \<open>simp add: triple_def preserves_def\<close>)
      apply (rule triple_if, rule triple_ret, simp)
      apply (rule triple_bind [where R = "\<lambda>_ s. (\<lambda>(k, sz). sz = highest_vmaddr k - lowest_vmaddr k) (gKernelImage s, gKernelImageSize s)"])
       apply (simp add: triple_def)
      apply (rule triple_weaken [OF triple_preserves [OF rest]])
      apply (simp add: size_ok_def)
      done
    done
qed

text \<open>A view of the image at a base, with conditions on the text base and the entry.\<close>

definition seen :: "PantheraKernelImage \<Rightarrow> u64 \<Rightarrow> (u64 \<Rightarrow> bool) \<Rightarrow> (u64 \<Rightarrow> bool) \<Rightarrow>
    PantheraKernelImage \<times> u64 \<times> u64 \<times> u64 \<times> u64 \<Rightarrow> bool" where
  "seen k base T E = (\<lambda>(k', base', sz, t, e). k' = k \<and> base' = base \<and> sz = highest_vmaddr k - lowest_vmaddr k \<and> T t \<and> E e)"

lemma check_kernel_phase: "phase (\<lambda>s. size_ok (kernel_view s)) (efi_check_kernel fw kfile) (\<lambda>_ s. entry_ok (kernel_view s))"
proof -
  have say: "preserves kernel_view (say_hex fw l v)" "preserves kernel_view (say_dec fw l v)" "preserves kernel_view (say_line fw t)"
    "preserves kernel_view (panthera_free_pool fw a)" for l v t a
    by (intro preserves_machine views_globals machine)+
  have report: "preserves kernel_view (do { say_line fw t; panthera_free_pool fw kfile })" for t
    by (intro keep say)
  have modify_text: "triple (\<lambda>s. seen k base T E (kernel_view s)) (modify (\<lambda>s. s\<lparr>gKernelTextBase := t\<rparr>))
      (\<lambda>_ s. seen k base ((=) t) E (kernel_view s))" for k base T E t
    by (simp add: triple_def seen_def)
  have modify_entry: "triple (\<lambda>s. seen k base T E (kernel_view s)) (modify (\<lambda>s. s\<lparr>gKernelEntryBase := e\<rparr>))
      (\<lambda>_ s. seen k base T ((=) e) (kernel_view s))" for k base T E e
    by (simp add: triple_def seen_def)
  have entry: "entry_ok v" if "seen k base ((=) t) ((=) (panthera_compute_entry_physical_base k base)) v"
      "panthera_compute_entry_physical_base k base \<noteq> 0" "t \<le> 0xffffffff"
      "panthera_compute_entry_physical_base k base \<le> 0xffffffff" for k base t v
    using that entry_in_image [OF that(2)] by (auto simp: seen_def entry_ok_def)
  show ?thesis
    unfolding efi_check_kernel_def Let_def
    apply (rule phase_bind [where R = "\<lambda>k s. gKernelImage s = k \<and> size_ok (kernel_view s)"], simp add: triple_def)
    subgoal for k
      apply (rule phase_bind [where R = "\<lambda>base s. seen k base (\<lambda>_. True) (\<lambda>_. True) (kernel_view s)"])
       apply (simp add: triple_def seen_def size_ok_def)
      subgoal for base
        apply (rule phase_keep [OF preserves_gets])
        apply (rule phase_keep [OF say(1)], rule phase_keep [OF say(2)])
        apply (cases "panthera_find_segment k (bytes_of_string ''__TEXT'')")
         apply (simp add: phase_leave)
        subgoal for sz u1 u2 seg
          apply (simp only: option.case)
          apply (rule phase_bind [OF modify_text])
          apply (rule phase_keep [OF say(1)])
          apply (rule phase_bind [OF modify_entry])
          apply (cases "panthera_compute_entry_physical_base k base = 0")
           apply (simp add: phase_leave)
          apply (simp only: if_False)
          apply (rule phase_keep [OF say(1)])
          apply (rule phase_and_then [OF phase_require [OF report, where Q = "\<lambda>v. seen k base ((=) (panthera_segment_physical_base k base seg))
              ((=) (panthera_compute_entry_physical_base k base)) v \<and> panthera_segment_physical_base k base seg \<le> 0xffffffff"]])
           apply (simp add: low32_ok)
          apply (rule phase_and_then [OF phase_require [OF report, where Q = entry_ok]])
           apply (auto intro: entry low32_ok)[1]
          apply (rule phase_keep [OF say(4)], rule phase_ret, assumption)
          done
        done
      done
    done
qed

lemma triple_any: "triple (\<lambda>s. True) p (\<lambda>_ s. True)"
  by (simp add: triple_def)

lemma phase_check: "phase (\<lambda>s. \<not> EFI_ERROR st \<longrightarrow> Q s) (require st report) (\<lambda>_. Q)"
  by (simp add: phase_def require_def leave_def triple_def split: prod.splits)

lemma phase_check_any: "phase (\<lambda>s. True) (require st report) (\<lambda>_ s. True)"
  by (simp add: phase_def require_def leave_def triple_def split: prod.splits)

lemma phase_if: "(b \<Longrightarrow> phase P p Q) \<Longrightarrow> (\<not> b \<Longrightarrow> phase P q Q) \<Longrightarrow> phase P (if b then p else q) Q"
  by simp

lemma phase_prod: "(\<And>a b. phase P (f a b) Q) \<Longrightarrow> phase P (case x of (a, b) \<Rightarrow> f a b) Q"
  by (cases x) simp

lemma load_kernel_phase: "phase (\<lambda>s. True) (efi_load_kernel fw h) (\<lambda>_ s. entry_ok (kernel_view s))"
  unfolding efi_load_kernel_def
  by (intro phase_bind [OF triple_any] phase_prod phase_and_then [OF phase_check_any] phase_if phase_leave
      phase_bind [OF stage_kernel_size] phase_and_then [OF phase_check] check_kernel_phase)

lemma phase_also:
  assumes "preserves f p" and "phase P p Q"
  shows "phase (\<lambda>s. R (f s) \<and> P s) p (\<lambda>a s. R (f s) \<and> Q a s)"
  using assms unfolding phase_def preserves_def triple_def by (fastforce split: sum.splits)

lemma phase_weaken: "phase P p Q \<Longrightarrow> (\<And>s. P' s \<Longrightarrow> P s) \<Longrightarrow> (\<And>a s. Q a s \<Longrightarrow> Q' a s) \<Longrightarrow> phase P' p Q'"
  unfolding phase_def triple_def by (fastforce split: sum.splits)

lemma capture_phase: "phase (\<lambda>s. True) (efi_capture fw abi st) (\<lambda>_ s. gBootArgsBase s \<le> 0xffffffff)"
proof -
  have args: "phase (\<lambda>s. True) (do {
       modify (\<lambda>s. s\<lparr>gBootArgsBase := args\<rparr>);
       and_then (require (panthera_ensure_low32 args) (say_line fw t)) (\<lambda>_. ret (Inr r)) })
     (\<lambda>_ s. gBootArgsBase s \<le> 0xffffffff)" for args t and r :: 'b
    by (rule phase_bind [where R = "\<lambda>_ s. gBootArgsBase s = args"], simp add: triple_def)
      (auto intro!: phase_and_then [OF phase_weaken [OF phase_check [where Q = "\<lambda>s. gBootArgsBase s \<le> 0xffffffff"]]] phase_ret
        simp: low32_ok)
  show ?thesis
    unfolding efi_capture_def
    by (intro phase_bind [OF triple_any] phase_prod phase_and_then [OF phase_check_any] args)
qed

definition handoff_ok :: "'w boot \<Rightarrow> bool" where
  "handoff_ok s \<longleftrightarrow> gHandoffCodeBase s \<le> 0xffffffff \<and> gHandoffStackBase s + PANTHERA_HANDOFF_STACK_SIZE \<le> 0xffffffff"

lemma prepare_phase: "phase (\<lambda>s. True) (efi_prepare_handoff fw tmpl) (\<lambda>_. handoff_ok)"
proof -
  let ?code = "\<lambda>s :: 'w boot. gHandoffCodeBase s \<le> 0xffffffff"
  have g: "globals_only gHandoffCodeBase" "globals_only handoff_view" by (simp_all add: globals_only_def)
  have say: "preserves handoff_view (say_hex fw l v)" "preserves handoff_view (say_dec fw l v)" for l v
    by (intro preserves_machine g machine)+
  have stack: "preserves gHandoffCodeBase (panthera_prepare_handoff_stack fw)"
    by (intro preserves_handoff g) simp
  show ?thesis
    unfolding efi_prepare_handoff_def
    apply (rule phase_bind [OF triple_any], rule phase_and_then [OF phase_check_any])
    apply (rule phase_bind [where R = "\<lambda>base s. base = gHandoffCodeBase s"], simp add: triple_def)
    subgoal for st u base
      apply (rule phase_keep [where f = handoff_view and P = "\<lambda>(a, c, t). base = c", simplified, OF preserves_gets])
      apply (rule phase_keep [where f = handoff_view and P = "\<lambda>(a, c, t). base = c", simplified, OF say(1)])
      apply (rule phase_keep [where f = handoff_view and P = "\<lambda>(a, c, t). base = c", simplified, OF say(2)])
      apply (rule phase_and_then [OF phase_weaken [OF phase_check [where Q = ?code]]])
        apply (simp add: low32_ok, assumption)
      apply (rule phase_keep [where f = gHandoffCodeBase and P = "\<lambda>c. c \<le> 0xffffffff", OF stack])
      apply (rule phase_and_then [OF phase_weaken [OF phase_check [where Q = ?code]]])
        apply (simp, assumption)
      apply (rule phase_bind [where R = "\<lambda>stack s. (\<lambda>(a, c, t). t = stack \<and> c \<le> 0xffffffff) (handoff_view s)"], simp add: triple_def)
      apply (rule phase_keep [OF say(1)])
      apply (rule phase_weaken [OF phase_check [where Q = handoff_ok]])
       apply (auto simp: handoff_ok_def dest: low32_ok)
      done
    done
qed

definition handoff_matches :: "boot_outcome \<Rightarrow> 'w boot \<Rightarrow> bool" where
  "handoff_matches r s \<longleftrightarrow> (case r of Handoff code args entry stack_top \<Rightarrow>
     code = gHandoffCodeBase s \<and> args = ucast (gBootArgsBase s) \<and> entry = ucast (gKernelEntryBase s) \<and>
     stack_top = ucast (gHandoffStackBase s + PANTHERA_HANDOFF_STACK_SIZE) | _ \<Rightarrow> True)"

lemma enter_kernel_matches: "triple (\<lambda>s. gHandoffCodeBase s = code) (enter_kernel fw code) handoff_matches"
proof -
  have g: "globals_only gHandoffCodeBase" by (simp add: globals_only_def)
  have keep_code: "preserves gHandoffCodeBase (panthera_debugcon_write_ascii fw t)" "preserves gHandoffCodeBase (call sv)"
    for t and sv :: "('w, unit) service"
    by (intro preserves_machine g machine)+
  have pokes: "preserves gHandoffCodeBase (if fb \<noteq> 0 then do { call (outw fw a b); call (outw fw c d) } else ret ())"
    for fb :: u64 and a b c d
    by (intro keep keep_code)
  note code = triple_preserves [where f = gHandoffCodeBase and P = "\<lambda>x. x = code"]
  show ?thesis
    unfolding enter_kernel_def
    by (rule triple_bind [OF code [OF keep_code(1)]], rule triple_bind [OF triple_gets],
        rule triple_bind [OF code [OF pokes]]) (simp add: triple_def handoff_matches_def State_Monad.get_def)
qed

lemma preserves_exit:
  assumes "globals_only f"
  shows "preserves f (exit_attempts fw abi h stc args mm code n st)"
proof (induction n arbitrary: st)
  case 0
  then show ?case by (auto intro!: keep preserves_machine [OF assms] machine)
next
  case (Suc n)
  have enter: "preserves f (enter_kernel fw code)"
    unfolding enter_kernel_def by (intro keep preserves_machine [OF assms] machine)
  show ?case
    unfolding exit_attempts.simps by (intro keep enter Suc preserves_machine [OF assms] machine)
qed

lemma exit_matches:
  "triple (\<lambda>s. gHandoffCodeBase s = code) (exit_attempts fw abi h stc args mm code n st) handoff_matches"
proof (induction n arbitrary: st)
  case 0
  then show ?case by (auto simp: triple_def handoff_matches_def split: prod.splits)
next
  case (Suc n)
  have g: "globals_only gHandoffCodeBase" by (simp add: globals_only_def)
  note code = triple_preserves [where f = gHandoffCodeBase and P = "\<lambda>x. x = code"]
  have other: "triple P (ret (EfiReturn x)) handoff_matches" "triple P (ret NeverReturns) handoff_matches" for P x
    by (simp_all add: triple_def handoff_matches_def)
  have prod: "(\<And>a b. triple P (f a b) Q) \<Longrightarrow> triple P (case x of (a, b) \<Rightarrow> f a b) Q" for P f Q x
    by (cases x) simp
  show ?case
    unfolding exit_attempts.simps
    apply (rule triple_bind [OF code], intro keep)
    apply (rule triple_bind [OF code], intro preserves_machine [OF g] machine)
    apply (intro prod triple_if)
     apply (rule triple_bind [OF code], intro preserves_machine [OF g] machine, rule other)
    apply (rule triple_bind [OF code], intro keep)
    apply (split option.split, intro conjI impI allI)
     apply (rule other)
    apply (rule triple_bind [OF code], intro preserves_machine [OF g] machine)
    apply (rule triple_bind [OF code], intro preserves_machine [OF g] machine)
    apply (intro triple_if enter_kernel_matches Suc)
    done
qed

lemma preserves_enter:
  assumes "globals_only f"
  shows "preserves f (efi_enter fw abi h c)"
  unfolding efi_enter_def panthera_exit_boot_services_and_enter_kernel_def
  by (intro keep preserves_exit preserves_machine [OF assms] machine assms)

lemma enter_matches: "triple (\<lambda>s. True) (efi_enter fw abi h c) handoff_matches"
proof -
  have prod: "(\<And>a b. triple P (f a b) Q) \<Longrightarrow> triple P (case x of (a, b) \<Rightarrow> f a b) Q" for P f Q x
    by (cases x) simp
  have exit: "triple (\<lambda>s. True) (panthera_exit_boot_services_and_enter_kernel fw abi h stc args mm) handoff_matches"
    for stc args mm
    unfolding panthera_exit_boot_services_and_enter_kernel_def
    by (rule triple_bind [where R = "\<lambda>code s. gHandoffCodeBase s = code"]) (simp_all add: triple_def exit_matches [unfolded triple_def])
  have never: "triple (\<lambda>s. True) (ret NeverReturns) handoff_matches"
    by (simp add: triple_def handoff_matches_def)
  show ?thesis
    unfolding efi_enter_def
    apply (intro prod)
    apply (rule triple_bind [OF triple_any])
    apply (split option.split, intro conjI impI allI, rule never)
    apply (intro triple_bind [OF triple_any] exit)
    done
qed

text \<open>The state with which the kernel may be entered, as a condition on the two views.\<close>

definition ready :: "(PantheraKernelImage \<times> u64 \<times> u64 \<times> u64 \<times> u64) \<times> u64 \<times> u64 \<times> u64 \<Rightarrow> bool" where
  "ready = (\<lambda>(k, args, code, stack). entry_ok k \<and> args \<le> 0xffffffff \<and> code \<le> 0xffffffff \<and>
     stack + PANTHERA_HANDOFF_STACK_SIZE \<le> 0xffffffff)"

lemma stage_phase: "phase (\<lambda>s. True) (efi_stage fw h) (\<lambda>_ s. True)"
  unfolding efi_stage_def
  by (intro phase_bind [OF triple_any] phase_and_then [OF phase_check_any] phase_ret) simp

lemma phases_ready:
  "phase (\<lambda>s. True) (and_then (efi_load_kernel fw h) (\<lambda>_. and_then (efi_capture fw abi st) (\<lambda>c.
       and_then (efi_stage fw h) (\<lambda>_. and_then (efi_prepare_handoff fw tmpl) (\<lambda>_. ret (Inr c))))))
     (\<lambda>_ s. ready (kernel_view s, handoff_view s))"
  apply (rule phase_and_then [OF load_kernel_phase])
  apply (rule phase_and_then [OF phase_weaken [OF phase_also [OF efi_capture_keeps capture_phase, where R = entry_ok],
      where Q' = "\<lambda>_ s. (\<lambda>((k, b, sz, t, e), a, c, x). entry_ok (k, b, sz, t, e) \<and> a \<le> 0xffffffff) (kernel_view s, handoff_view s)"]])
    apply (simp, simp)
  apply (rule phase_and_then [OF phase_weaken [OF phase_also [OF efi_stage_keeps stage_phase,
      where R = "\<lambda>((k, b, sz, t, e), a, c, x). entry_ok (k, b, sz, t, e) \<and> a \<le> 0xffffffff"],
      where Q' = "\<lambda>_ s. (\<lambda>(v, a). entry_ok v \<and> a \<le> 0xffffffff) (kernel_view s, gBootArgsBase s)"]])
    apply (simp, simp)
  apply (rule phase_and_then [OF phase_weaken [OF phase_also [OF efi_prepare_keeps prepare_phase,
      where R = "\<lambda>(v, a). entry_ok v \<and> a \<le> 0xffffffff"], where Q' = "\<lambda>_ s. ready (kernel_view s, handoff_view s)"]])
    apply (simp, simp add: ready_def handoff_ok_def)
  apply (rule phase_ret, assumption)
  done

text \<open>
  C1. The kernel is entered only with a sound handoff: for every firmware, kernel file and initial
  state, if the loader jumps, then the handoff code, the boot arguments, the kernel entry and the
  stack top lie below 4 GiB so that the 32-bit arguments are the real addresses, and the entry lies
  inside the staged kernel image; every earlier exit returns to the firmware.
\<close>

theorem handoff_sound:
  "case run_state (EfiMain fw abi tmpl image_handle system_table) s of
     (Handoff code args entry stack_top, s') \<Rightarrow>
       code = gHandoffCodeBase s' \<and> code \<le> 0xffffffff \<and> ucast args = gBootArgsBase s' \<and>
       ucast entry = gKernelEntryBase s' \<and>
       ucast stack_top = gHandoffStackBase s' + PANTHERA_HANDOFF_STACK_SIZE \<and>
       in_range (gKernelImageBase s') (unat (gKernelImageSize s')) (gKernelEntryBase s')
   | _ \<Rightarrow> True"
proof -
  let ?seen = "\<lambda>s. (kernel_view s, handoff_view s)"
  have views: "globals_only (\<lambda>s. (kernel_view s, handoff_view s))" by (simp add: globals_only_def)
  have enter: "triple (\<lambda>s. ready (?seen s)) (efi_enter fw abi h c) (\<lambda>r s. handoff_matches r s \<and> ready (?seen s))" for h c
    using enter_matches [of fw abi h c] preserves_enter [OF views, of fw abi h c] by (simp add: triple_def preserves_def)
  have "triple (\<lambda>s. True) (EfiMain fw abi tmpl image_handle system_table)
      (\<lambda>r s. case r of Handoff _ _ _ _ \<Rightarrow> handoff_matches r s \<and> ready (?seen s) | _ \<Rightarrow> True)"
    unfolding EfiMain_def
    apply (rule triple_bind [OF triple_any], rule triple_bind [OF phases_ready [unfolded phase_def]])
    subgoal for u r
      by (cases r) (force simp: triple_def, auto intro!: triple_weaken [OF enter] split: boot_outcome.split)
    done
  moreover obtain r s' where "run_state (EfiMain fw abi tmpl image_handle system_table) s = (r, s')" by fastforce
  ultimately show ?thesis
    by (cases r) (auto simp: triple_def handoff_matches_def ready_def entry_ok_def low32_ucast dest!: spec [of _ s])
qed

section \<open>Leaving the boot services\<close>

text \<open>
  What the loader relies on of the firmware: \<open>GetMemoryMap\<close> succeeds on the captured buffer with
  descriptors of a sane size, the map is not in the argument page, and \<open>ExitBootServices\<close> accepts the
  key of the map just read or has one refusal less left, which is what a map that changed under
  the loader amounts to.
\<close>

definition exit_firmware ::
  "'w firmware \<Rightarrow> boot_abi \<Rightarrow> u64 \<Rightarrow> u64 \<Rightarrow> u64 \<Rightarrow> u64 \<Rightarrow> ('w \<Rightarrow> nat) \<Rightarrow> bool" where
  "exit_firmware fw abi image_handle args memory_map capacity refusals \<longleftrightarrow>
     (\<forall>m w. case GetMemoryMap fw capacity memory_map (m, w) of ((st, sz, key, d, version), m1, w1) \<Rightarrow>
        \<not> EFI_ERROR st \<and> d \<noteq> 0 \<and> unat memory_map + unat sz + unat d \<le> 2 ^ 64 \<and>
        disjoint_ranges args (args_size abi) memory_map (unat sz + unat d) \<and> descriptor_local abi d \<and>
        (\<forall>m2. case ExitBootServices fw image_handle key (m2, w1) of (st', m3, w3) \<Rightarrow>
           EFI_ERROR st' \<longrightarrow> refusals w3 < refusals w))"

lemma fill_boot_args_returns:
  assumes "abi_ok abi bits args" "descriptor_local abi d"
    "disjoint_ranges args (args_size abi) memory_map (unat sz + unat d)" "d \<noteq> 0" "unat memory_map + unat sz + unat d \<le> 2 ^ 64"
  shows "\<exists>m'. panthera_fill_boot_args abi s args system_table memory_map sz d version = Some m'"
proof -
  note returns = end_no_wrap(2) [OF assms(5,4)]
  obtain h where h: "panthera_compute_physical_memory_size abi (bmem s) memory_map sz d = Some h"
    unfolding panthera_compute_physical_memory_size_def highest.loop_returns [OF assms(4) returns] by blast
  obtain rt where rt: "runtime_ranges abi (bmem s) d (memory_map + sz) memory_map 0 0 = Some rt"
    using runtime.loop_returns [OF assms(4) returns, of abi "bmem s" memory_map "(0, 0)"] by auto
  show ?thesis using fill_boot_args_spec [OF assms h rt] by blast
qed

abbreviation kernel_jump :: "u64 \<Rightarrow> 'w boot \<Rightarrow> boot_outcome" where
  "kernel_jump code s \<equiv> Handoff code (ucast (gBootArgsBase s)) (ucast (gKernelEntryBase s))
     (ucast (gHandoffStackBase s + PANTHERA_HANDOFF_STACK_SIZE))"

lemma enter_kernel_jumps: "fst (run_state (enter_kernel fw code) s) = kernel_jump code s"
proof -
  define t where "t = bytes_of_string ''PANTHERA:EBS'' @ [0x0a]"
  have "preserves (kernel_jump code) (panthera_debugcon_write_ascii fw t)"
    by (intro preserves_machine machine) (simp add: globals_only_def)
  then show ?thesis
    unfolding enter_kernel_def t_def [symmetric] preserves_def
    by (cases "run_state (panthera_debugcon_write_ascii fw t) s")
      (auto simp: State_Monad.get_def split: prod.splits dest!: spec [of _ s])
qed

lemma exit_attempts_jump:
  assumes "abi_ok abi bits args" "exit_firmware fw abi h args mm cap refusals"
    and "refusals (fw_state s) < n" "gMemoryMapCapacity s = cap"
  shows "fst (run_state (exit_attempts fw abi h stc args mm code n st) s) = kernel_jump code s"
  using assms(3,4)
proof (induction n arbitrary: s st)
  case (Suc n)
  obtain st1 sz key d version m1 w1 where
    g: "GetMemoryMap fw cap mm (bmem s, fw_state s) = ((st1, sz, key, d, version), m1, w1)"
    by (metis prod.exhaust)
  let ?s1 = "s\<lparr>bmem := m1, fw_state := w1\<rparr>"
  have ok: "\<not> EFI_ERROR st1" "d \<noteq> 0" "unat mm + unat sz + unat d \<le> 2 ^ 64"
      "disjoint_ranges args (args_size abi) mm (unat sz + unat d)" "descriptor_local abi d"
    and left: "\<And>m2 st' m3 w3. ExitBootServices fw h key (m2, w1) = (st', m3, w3) \<Longrightarrow> EFI_ERROR st' \<Longrightarrow> refusals w3 < refusals (fw_state s)"
    using assms(2) [unfolded exit_firmware_def, THEN spec [of _ "bmem s"], THEN spec [of _ "fw_state s"]] unfolding g by (fastforce split: prod.splits)+
  obtain m2 where f: "panthera_fill_boot_args abi ?s1 args stc mm sz d version = Some m2"
    using fill_boot_args_returns [OF assms(1) ok(5,4,2,3)] by blast
  obtain st2 m3 w3 where x: "ExitBootServices fw h key (m2, w1) = (st2, m3, w3)" by (metis prod.exhaust)
  have "refusals w3 < n" if "EFI_ERROR st2" using left [OF x that] Suc.prems(1) by simp
  then show ?case
    using Suc.prems(2) Suc.IH [of "s\<lparr>bmem := m3, fw_state := w3\<rparr>" st2] enter_kernel_jumps [of fw code "s\<lparr>bmem := m3, fw_state := w3\<rparr>"]
    by (simp add: panthera_refresh_memory_map_def g ok(1) f x State_Monad.get_def EFI_ERROR_def [of EFI_SUCCESS])
qed simp

text \<open>
  C35. Leaving the boot services retries as it should: with a firmware that gives a sound memory map
  and refuses the key at most three times, the loop of four attempts ends by jumping to the handoff
  code with the boot arguments, the kernel entry and the stack top of the loader's state.
\<close>

theorem exit_reaches_kernel:
  assumes "abi_ok abi bits args"
    and "exit_firmware fw abi image_handle args memory_map (gMemoryMapCapacity s) refusals"
    and "refusals (fw_state s) < 4"
  shows "fst (run_state (panthera_exit_boot_services_and_enter_kernel fw abi image_handle system_table_copy args memory_map) s) =
    Handoff (gHandoffCodeBase s) (ucast (gBootArgsBase s)) (ucast (gKernelEntryBase s))
      (ucast (gHandoffStackBase s + PANTHERA_HANDOFF_STACK_SIZE))"
  using exit_attempts_jump [OF assms refl] by (simp add: panthera_exit_boot_services_and_enter_kernel_def)

text \<open>A firmware that refuses as often as its state says.\<close>

definition stubborn_firmware :: "nat firmware" where
  "stubborn_firmware = \<lparr>OutputString = None, AllocatePages = None, AllocatePool = None, FreePool = None,
     GetMemoryMap = (\<lambda>cap mm (m, w). ((EFI_SUCCESS, 96, 7, 48, 1), m, w)),
     HandleProtocol = None, LocateProtocol = (\<lambda>g x. ((EFI_NOT_FOUND, 0), x)), Stall = None,
     ExitBootServices = (\<lambda>h key (m, w). if w = 0 \<and> key = 7 then (EFI_SUCCESS, m, w) else (EFI_NOT_FOUND, m, w - 1)),
     OpenVolume = (\<lambda>h x. ((EFI_NOT_FOUND, 0), x)), Open = (\<lambda>r p a b x. ((EFI_NOT_FOUND, 0), x)),
     Close = (\<lambda>h x. (EFI_SUCCESS, x)), Read = (\<lambda>h n b x. ((EFI_NOT_FOUND, 0), x)),
     GetInfo = (\<lambda>h g n b x. ((EFI_NOT_FOUND, 0), x)), read_tsc = (\<lambda>x. (0, x)),
     outb = (\<lambda>p v x. ((), x)), outw = (\<lambda>p v x. ((), x))\<rparr>"

theorem exit_reaches_kernel_witness:
  "fst (run_state (panthera_exit_boot_services_and_enter_kernel stubborn_firmware demo_abi 1 0x2800 0x1000 0x3000)
      ((initial_boot 3)\<lparr>gHandoffCodeBase := 0x7000, gBootArgsBase := 0x1000, gKernelEntryBase := 0x200000,
         gHandoffStackBase := 0x8000\<rparr>)) = Handoff 0x7000 0x1000 0x200000 0xc000"
proof -
  have "disjoint_ranges 0x1000 (args_size demo_abi) 0x3000 (unat (96 :: u64) + unat (48 :: u64))"
    by (rule disjoint_rangesI) (simp_all add: demo_abi_def)
  then have "exit_firmware stubborn_firmware demo_abi 1 0x1000 0x3000 cap id" for cap
    using demo_descriptor_local by (auto simp: exit_firmware_def stubborn_firmware_def EFI_ERROR_def)
  from exit_reaches_kernel [OF demo_abi_ok this, of "(initial_boot 3)\<lparr>gHandoffCodeBase := 0x7000, gBootArgsBase := 0x1000,
      gKernelEntryBase := 0x200000, gHandoffStackBase := 0x8000\<rparr>" "0x2800"]
  show ?thesis by (simp add: initial_boot_def)
qed

section \<open>The handoff code\<close>

text \<open>
  The handoff code is the assembled template with the address of its descriptor table: when the
  pages are granted and the pointer's field lies in the template, the code at the recorded base
  equals the template byte by byte except for the eight bytes of the pointer, which hold the base
  plus the table's offset, and nothing outside the code changes after the allocation.
\<close>

theorem handoff_code_contents:
  assumes "run_state (panthera_allocate_buffer_pages fw (of_nat (length (template_bytes tmpl)))) s = ((EFI_SUCCESS, base), s1)"
    and "unat (gdtr_offset tmpl) + 10 \<le> length (template_bytes tmpl)" and "length (template_bytes tmpl) < 2 ^ 64"
  shows "\<exists>s'. run_state (panthera_prepare_handoff_code fw tmpl) s = (EFI_SUCCESS, s') \<and>
    gHandoffCodeBase s' = base \<and> unat (gHandoffCodeSize s') = length (template_bytes tmpl) \<and>
    rd64 (bmem s') (base + (gdtr_offset tmpl + 2)) = base + gdt_offset tmpl \<and>
    (\<forall>i < length (template_bytes tmpl). i < unat (gdtr_offset tmpl) + 2 \<or> unat (gdtr_offset tmpl) + 10 \<le> i \<longrightarrow>
       bmem s' (base + of_nat i) = template_bytes tmpl ! i) \<and>
    mem_eq_off base (length (template_bytes tmpl)) (bmem s1) (bmem s')"
proof -
  let ?t = "template_bytes tmpl" and ?k = "unat (gdtr_offset tmpl) + 2"
  define a where "a = base + (gdtr_offset tmpl + 2)"
  have k: "unat (gdtr_offset tmpl + 2) = ?k" using assms(2,3) by (simp add: unat_word_ariths)
  define m where "m = wr64 (wr_bytes (panthera_zero_memory base (of_nat (length ?t)) (bmem s1)) base ?t) a (base + gdt_offset tmpl)"
  have sz: "unat (of_nat (length ?t) :: u64) = length ?t" using assms(3) by (simp add: unat_of_nat take_bit_nat_eq_self)
  have "wr_bytes (panthera_zero_memory base (of_nat (length ?t)) (bmem s1)) base ?t = wr_bytes (bmem s1) base ?t"
    using assms(3) by (intro ext) (simp add: wr_bytes_apply zero_memory_apply sz)
  moreover have "a = base + of_nat ?k" unfolding a_def k [symmetric] by simp
  ultimately have m: "m = wr_bytes (bmem s1) base (overwrite ?t ?k (le_split 8 (base + gdt_offset tmpl)))"
    using wr_bytes_overwrite [of ?k "le_split 8 (base + gdt_offset tmpl)" ?t "bmem s1" base] assms(2,3)
    by (simp add: m_def wr64_def)
  have run: "run_state (panthera_prepare_handoff_code fw tmpl) s =
      (EFI_SUCCESS, s1\<lparr>gHandoffCodeBase := base, bmem := m, gHandoffCodeSize := of_nat (length ?t)\<rparr>)"
    using assms(1) by (simp add: panthera_prepare_handoff_code_def Let_def EFI_ERROR_def m_def a_def add.assoc)
  have "rd64 m a = base + gdt_offset tmpl" by (simp add: m_def rd64_wr64_same)
  then show ?thesis
    using assms(2,3) sz
    by (intro exI [of _ "s1\<lparr>gHandoffCodeBase := base, bmem := m, gHandoffCodeSize := of_nat (length ?t)\<rparr>"])
      (auto simp: run a_def [symmetric] m mem_eq_off_def wr_bytes_apply in_range_def unat_of_nat take_bit_nat_eq_self nth_overwrite)
qed

definition demo_template :: handoff_template where
  "demo_template = \<lparr>template_bytes = map of_nat [1..<33], gdtr_offset = 8, gdt_offset = 24\<rparr>"

theorem handoff_code_contents_witness:
  "\<exists>s'. run_state (panthera_prepare_handoff_code (stubborn_firmware\<lparr>AllocatePages := Some (\<lambda>t k n a x. ((EFI_SUCCESS, 0x7000), x))\<rparr>)
       demo_template) (initial_boot 0) = (EFI_SUCCESS, s') \<and>
     rd64 (bmem s') 0x700a = 0x7018 \<and> bmem s' 0x7004 = 5"
proof -
  let ?fw = "stubborn_firmware\<lparr>AllocatePages := Some (\<lambda>t k n a x. ((EFI_SUCCESS, 0x7000), x))\<rparr>"
  have alloc: "run_state (panthera_allocate_buffer_pages ?fw (of_nat (length (template_bytes demo_template)))) (initial_boot 0) =
      ((EFI_SUCCESS, 0x7000), initial_boot 0)"
    by (simp add: panthera_allocate_buffer_pages_def panthera_allocate_pages_def EFI_ERROR_def initial_boot_def)
  have sizes: "length (template_bytes demo_template) = 32" "gdtr_offset demo_template = 8" "gdt_offset demo_template = 24"
    "template_bytes demo_template ! 4 = 5"
    by (simp_all add: demo_template_def)
  from handoff_code_contents [OF alloc] obtain s' where s':
    "run_state (panthera_prepare_handoff_code ?fw demo_template) (initial_boot 0) = (EFI_SUCCESS, s')"
    "rd64 (bmem s') (0x7000 + (8 + 2)) = 0x7000 + 24"
    "\<And>i. i < 32 \<Longrightarrow> i < 10 \<or> 18 \<le> i \<Longrightarrow> bmem s' (0x7000 + of_nat i) = template_bytes demo_template ! i"
    by (auto simp: sizes)
  show ?thesis using s'(1,2) s'(3) [of 4] by (simp add: sizes)
qed

end
