(* ===== verification/Xpc_Object.thy ===== *)
theory Xpc_Object
  imports Panthera_Prelude "HOL-Library.Monad_Syntax" "HOL-Library.Multiset"
begin

text \<open>
  The XPC object model of \<open>userland/libsystem/build/sources/libxpc_impl.c\<close>: reference counted objects
  on a heap. Addresses are natural numbers, 0 is \<open>NULL\<close> and 1 to 6 are the static singletons. The
  heap maps the address of an allocated object to it; freed addresses are not given out again, so
  that a use after free, a double free and a \<open>NULL\<close> dereference all are the value \<open>None\<close>, as is not
  returning. Which of the coming allocations fail is a list in the state, empty when all succeed.
  Buffers an object owns alone (strings, data, key and slot arrays) are part of the object.
  The lemmas show that reference counting is sound: when every count equals the number of references,
  releasing a reference returns, keeps the counts exact and frees exactly what nothing refers to.
\<close>

section \<open>Objects\<close>

type_synonym ref = nat
type_synonym cstring = "u8 list"

abbreviation NULL :: nat where "NULL \<equiv> 0"
abbreviation MACH_PORT_NULL :: u32 where "MACH_PORT_NULL \<equiv> 0"

record xpc_connection =
  send_port :: u32
  recv_port :: u32
  target_queue :: nat
  event_handler :: nat
  recv_source :: nat
  service_name :: "cstring option"
  pending_msg :: ref
  is_listener :: bool
  is_active :: bool
  remote_pid :: u32

text \<open>The union of \<open>xpc_object_s\<close> with the tag that selects its member. A double is its bit pattern,
  data may have a length without bytes, and the arrays of a container are as long as its capacity.\<close>

datatype xpc_body =
    XNull | XBool bool | XInt64 u64 | XUint64 u64 | XDouble u64
  | XString cstring | XData u64 "u8 list option"
  | XDictionary "cstring option list" "ref list" nat
  | XArray "ref list" nat
  | XMachSend u32 | XMachRecv u32 | XConnection xpc_connection | XError

record xpc_object_s =
  refcount :: u32
  reply_port :: u32
  body :: xpc_body

fun tag :: "xpc_body \<Rightarrow> u32" where
  "tag XNull = 0x1000" | "tag (XBool _) = 0x2000" | "tag (XInt64 _) = 0x3000" | "tag (XUint64 _) = 0x4000"
| "tag (XDouble _) = 0x5000" | "tag (XString _) = 0x6000" | "tag (XData _ _) = 0x7000"
| "tag (XDictionary _ _ _) = 0x8000" | "tag (XArray _ _) = 0x9000" | "tag (XMachSend _) = 0xb000"
| "tag (XMachRecv _) = 0xc000" | "tag (XConnection _) = 0xd000" | "tag XError = 0xf000"

abbreviation xpc_bool_true_obj :: ref where "xpc_bool_true_obj \<equiv> 1"
abbreviation xpc_bool_false_obj :: ref where "xpc_bool_false_obj \<equiv> 2"
abbreviation xpc_null_obj :: ref where "xpc_null_obj \<equiv> 3"
abbreviation xpc_error_interrupted_obj :: ref where "xpc_error_interrupted_obj \<equiv> 4"
abbreviation xpc_error_invalid_obj :: ref where "xpc_error_invalid_obj \<equiv> 5"
abbreviation xpc_error_termination_obj :: ref where "xpc_error_termination_obj \<equiv> 6"

definition xpc_is_singleton :: "ref \<Rightarrow> bool" where
  "xpc_is_singleton r \<longleftrightarrow> r = xpc_bool_true_obj \<or> r = xpc_bool_false_obj \<or> r = xpc_null_obj \<or>
     r = xpc_error_interrupted_obj \<or> r = xpc_error_invalid_obj \<or> r = xpc_error_termination_obj"

definition singleton_body :: "ref \<Rightarrow> xpc_body" where
  "singleton_body r = (if r = xpc_bool_true_obj then XBool True else if r = xpc_bool_false_obj then XBool False
     else if r = xpc_null_obj then XNull else XError)"

section \<open>The heap\<close>

record 'w xpc =
  objects :: "ref \<rightharpoonup> xpc_object_s"
  brk :: ref
  failures :: "bool list"
  world :: 'w

definition initial_xpc :: "'w \<Rightarrow> 'w xpc" where
  "initial_xpc w = \<lparr>objects = Map.empty, brk = 7, failures = [], world = w\<rparr>"

definition deref :: "'w xpc \<Rightarrow> ref \<Rightarrow> xpc_object_s option" where
  "deref s r = (if xpc_is_singleton r then Some \<lparr>refcount = 0x7fffffff, reply_port = 0, body = singleton_body r\<rparr>
     else objects s r)"

text \<open>A read through a pointer that was tested against \<open>NULL\<close>: the body, or \<open>None\<close> for \<open>NULL\<close>; the outer
  \<open>None\<close> is a fault.\<close>

definition read_body :: "'w xpc \<Rightarrow> ref \<Rightarrow> xpc_body option option" where
  "read_body s r = (if r = NULL then Some None else do { ob \<leftarrow> deref s r; Some (Some (body ob)) })"

definition put_object :: "ref \<Rightarrow> xpc_object_s \<Rightarrow> 'w xpc \<Rightarrow> 'w xpc" where
  "put_object r ob s = s\<lparr>objects := (objects s)(r \<mapsto> ob)\<rparr>"

definition set_body :: "ref \<Rightarrow> xpc_body \<Rightarrow> 'w xpc \<Rightarrow> 'w xpc option" where
  "set_body r b s = do { ob \<leftarrow> objects s r; Some (put_object r (ob\<lparr>body := b\<rparr>) s) }"

definition try_alloc :: "'w xpc \<Rightarrow> bool \<times> 'w xpc" where
  "try_alloc s = (case failures s of [] \<Rightarrow> (True, s) | f # fs \<Rightarrow> (\<not> f, s\<lparr>failures := fs\<rparr>))"

definition xpc_alloc :: "xpc_body \<Rightarrow> 'w xpc \<Rightarrow> ref \<times> 'w xpc" where
  "xpc_alloc b s = (case try_alloc s of
     (False, s1) \<Rightarrow> (NULL, s1)
   | (True, s1) \<Rightarrow> (brk s1, (put_object (brk s1) \<lparr>refcount = 1, reply_port = MACH_PORT_NULL, body = b\<rparr> s1)
                      \<lparr>brk := Suc (brk s1)\<rparr>))"

section \<open>Lifecycle\<close>

text \<open>The calls into the dispatch, block and Mach libraries that destroying a connection makes.\<close>

record 'w xpc_env =
  dispatch_retain :: "nat \<Rightarrow> 'w \<Rightarrow> 'w"
  dispatch_release :: "nat \<Rightarrow> 'w \<Rightarrow> 'w"
  dispatch_source_cancel :: "nat \<Rightarrow> 'w \<Rightarrow> 'w"
  mach_port_deallocate :: "u32 \<Rightarrow> 'w \<Rightarrow> 'w"
  mach_port_drop_receive :: "u32 \<Rightarrow> 'w \<Rightarrow> 'w"
  Block_release :: "nat \<Rightarrow> 'w \<Rightarrow> 'w"

definition xpc_retain :: "ref \<Rightarrow> 'w xpc \<Rightarrow> 'w xpc option" where
  "xpc_retain r s = (if r = NULL \<or> xpc_is_singleton r then Some s
     else do { ob \<leftarrow> objects s r; Some (put_object r (ob\<lparr>refcount := refcount ob + 1\<rparr>) s) })"

text \<open>Releasing and destroying call each other. What remains to be done is a list of releases, of
  calls into the environment and of the \<open>free\<close> that ends the destruction of an object.\<close>

datatype 'w work = Release ref | Effect "'w \<Rightarrow> 'w" | Free ref

definition connection_work :: "'w xpc_env \<Rightarrow> xpc_connection \<Rightarrow> 'w work list" where
  "connection_work env c =
     (if recv_source c \<noteq> 0 then [Effect (dispatch_source_cancel env (recv_source c)),
        Effect (dispatch_release env (recv_source c))] else []) @
     (if send_port c \<noteq> MACH_PORT_NULL then [Effect (mach_port_deallocate env (send_port c))] else []) @
     (if recv_port c \<noteq> MACH_PORT_NULL then [Effect (mach_port_drop_receive env (recv_port c))] else []) @
     (if event_handler c \<noteq> 0 then [Effect (Block_release env (event_handler c))] else []) @
     (if pending_msg c \<noteq> NULL then [Release (pending_msg c)] else []) @
     (if target_queue c \<noteq> 0 then [Effect (dispatch_release env (target_queue c))] else [])"

definition xpc_object_destroy :: "'w xpc_env \<Rightarrow> ref \<Rightarrow> xpc_body \<Rightarrow> 'w work list" where
  "xpc_object_destroy env r b =
     (case b of XDictionary keys values n \<Rightarrow> map Release (take n values)
      | XArray values n \<Rightarrow> map Release (take n values)
      | XConnection c \<Rightarrow> connection_work env c
      | _ \<Rightarrow> []) @ [Free r]"

partial_function (option) run_work :: "'w xpc_env \<Rightarrow> 'w work list \<Rightarrow> 'w xpc \<Rightarrow> 'w xpc option" where
  "run_work env ws s = (case ws of
     [] \<Rightarrow> Some s
   | w # rest \<Rightarrow> (case w of
       Release r \<Rightarrow>
         if r = NULL \<or> xpc_is_singleton r then run_work env rest s
         else (case objects s r of
           None \<Rightarrow> None
         | Some ob \<Rightarrow>
             let ob' = ob\<lparr>refcount := refcount ob - 1\<rparr>; s' = put_object r ob' s
             in if sint (refcount ob') \<le> 0 then run_work env (xpc_object_destroy env r (body ob') @ rest) s'
                else run_work env rest s')
     | Effect f \<Rightarrow> run_work env rest (s\<lparr>world := f (world s)\<rparr>)
     | Free r \<Rightarrow> if objects s r = None then None
                 else run_work env rest (s\<lparr>objects := (objects s)(r := None)\<rparr>)))"

definition xpc_release :: "'w xpc_env \<Rightarrow> ref \<Rightarrow> 'w xpc \<Rightarrow> 'w xpc option" where
  "xpc_release env r s = run_work env [Release r] s"

section \<open>Scalars\<close>

definition xpc_get_type :: "'w xpc \<Rightarrow> ref \<Rightarrow> u32 option option" where
  "xpc_get_type s r = do {
     b \<leftarrow> read_body s r;
     Some (case b of None \<Rightarrow> None
       | Some b \<Rightarrow> (case b of XMachSend _ \<Rightarrow> None | XMachRecv _ \<Rightarrow> None | _ \<Rightarrow> Some (tag b))) }"

definition xpc_null_create :: ref where "xpc_null_create = xpc_null_obj"

definition xpc_bool_create :: "bool \<Rightarrow> ref" where
  "xpc_bool_create v = (if v then xpc_bool_true_obj else xpc_bool_false_obj)"

definition xpc_bool_get_value :: "'w xpc \<Rightarrow> ref \<Rightarrow> bool option" where
  "xpc_bool_get_value s r = do { b \<leftarrow> read_body s r; Some (case b of Some (XBool v) \<Rightarrow> v | _ \<Rightarrow> False) }"

definition xpc_int64_create :: "u64 \<Rightarrow> 'w xpc \<Rightarrow> ref \<times> 'w xpc" where
  "xpc_int64_create v s = xpc_alloc (XInt64 v) s"

definition xpc_int64_get_value :: "'w xpc \<Rightarrow> ref \<Rightarrow> u64 option" where
  "xpc_int64_get_value s r = do { b \<leftarrow> read_body s r; Some (case b of Some (XInt64 v) \<Rightarrow> v | _ \<Rightarrow> 0) }"

definition xpc_uint64_create :: "u64 \<Rightarrow> 'w xpc \<Rightarrow> ref \<times> 'w xpc" where
  "xpc_uint64_create v s = xpc_alloc (XUint64 v) s"

definition xpc_uint64_get_value :: "'w xpc \<Rightarrow> ref \<Rightarrow> u64 option" where
  "xpc_uint64_get_value s r = do { b \<leftarrow> read_body s r; Some (case b of Some (XUint64 v) \<Rightarrow> v | _ \<Rightarrow> 0) }"

definition xpc_double_create :: "u64 \<Rightarrow> 'w xpc \<Rightarrow> ref \<times> 'w xpc" where
  "xpc_double_create v s = xpc_alloc (XDouble v) s"

definition xpc_double_get_value :: "'w xpc \<Rightarrow> ref \<Rightarrow> u64 option" where
  "xpc_double_get_value s r = do { b \<leftarrow> read_body s r; Some (case b of Some (XDouble v) \<Rightarrow> v | _ \<Rightarrow> 0) }"

text \<open>An object whose first buffer cannot be allocated is freed again.\<close>

definition free_object :: "ref \<Rightarrow> 'w xpc \<Rightarrow> 'w xpc" where
  "free_object r s = s\<lparr>objects := (objects s)(r := None)\<rparr>"

definition alloc_with_buffer :: "xpc_body \<Rightarrow> 'w xpc \<Rightarrow> ref \<times> 'w xpc" where
  "alloc_with_buffer b s = (case xpc_alloc b s of (r, s1) \<Rightarrow>
     if r = NULL then (NULL, s1)
     else (case try_alloc s1 of (ok, s2) \<Rightarrow> if ok then (r, s2) else (NULL, free_object r s2)))"

definition xpc_string_create :: "cstring option \<Rightarrow> 'w xpc \<Rightarrow> ref \<times> 'w xpc" where
  "xpc_string_create string s = (case string of None \<Rightarrow> (NULL, s) | Some t \<Rightarrow> alloc_with_buffer (XString t) s)"

definition xpc_string_get_length :: "'w xpc \<Rightarrow> ref \<Rightarrow> nat option" where
  "xpc_string_get_length s r = do { b \<leftarrow> read_body s r; Some (case b of Some (XString t) \<Rightarrow> length t | _ \<Rightarrow> 0) }"

definition xpc_string_get_string_ptr :: "'w xpc \<Rightarrow> ref \<Rightarrow> cstring option option" where
  "xpc_string_get_string_ptr s r = do { b \<leftarrow> read_body s r; Some (case b of Some (XString t) \<Rightarrow> Some t | _ \<Rightarrow> None) }"

text \<open>The copy of the bytes reads as many as the caller claims; fewer are a fault.\<close>

definition xpc_data_create :: "u8 list option \<Rightarrow> u64 \<Rightarrow> 'w xpc \<Rightarrow> (ref \<times> 'w xpc) option" where
  "xpc_data_create bytes len s = (case bytes of
     Some bs \<Rightarrow>
       if len > 0 then (case alloc_with_buffer (XData len (Some (take (unat len) bs))) s of (r, s1) \<Rightarrow>
         if r = NULL \<or> unat len \<le> length bs then Some (r, s1) else None)
       else Some (xpc_alloc (XData len None) s)
   | None \<Rightarrow> Some (xpc_alloc (XData len None) s))"

definition xpc_data_get_length :: "'w xpc \<Rightarrow> ref \<Rightarrow> u64 option" where
  "xpc_data_get_length s r = do { b \<leftarrow> read_body s r; Some (case b of Some (XData n _) \<Rightarrow> n | _ \<Rightarrow> 0) }"

definition xpc_data_get_bytes_ptr :: "'w xpc \<Rightarrow> ref \<Rightarrow> u8 list option option" where
  "xpc_data_get_bytes_ptr s r = do { b \<leftarrow> read_body s r; Some (case b of Some (XData _ bs) \<Rightarrow> bs | _ \<Rightarrow> None) }"

section \<open>Comparison and hash\<close>

text \<open>The comparison of two doubles: not-a-number differs from everything, the two zeros are equal.\<close>

definition double_eq :: "u64 \<Rightarrow> u64 \<Rightarrow> bool" where
  "double_eq a b \<longleftrightarrow> a AND mask 63 \<le> 0x7ff0000000000000 \<and> b AND mask 63 \<le> 0x7ff0000000000000 \<and>
     (a = b \<or> (a AND mask 63 = 0 \<and> b AND mask 63 = 0))"

text \<open>\<open>memcmp\<close> of no bytes is equal whatever the pointers are; of bytes behind \<open>NULL\<close> it is a fault.\<close>

definition data_eq :: "u64 \<Rightarrow> u8 list option \<Rightarrow> u8 list option \<Rightarrow> bool option" where
  "data_eq n p q = (if n = 0 then Some True else do { bs \<leftarrow> p; cs \<leftarrow> q; Some (bs = cs) })"

definition xpc_equal :: "'w xpc \<Rightarrow> ref \<Rightarrow> ref \<Rightarrow> bool option" where
  "xpc_equal s a b = (if a = b then Some True
     else if a = NULL \<or> b = NULL then Some False
     else do {
       oa \<leftarrow> deref s a;
       ob \<leftarrow> deref s b;
       (case (body oa, body ob) of
          (XNull, XNull) \<Rightarrow> Some True
        | (XBool x, XBool y) \<Rightarrow> Some (x = y)
        | (XInt64 x, XInt64 y) \<Rightarrow> Some (x = y)
        | (XUint64 x, XUint64 y) \<Rightarrow> Some (x = y)
        | (XDouble x, XDouble y) \<Rightarrow> Some (double_eq x y)
        | (XString x, XString y) \<Rightarrow> Some (x = y)
        | (XData n p, XData k q) \<Rightarrow> if n = k then data_eq n p q else Some False
        | _ \<Rightarrow> Some False) })"

fun hash_string :: "u64 \<Rightarrow> cstring \<Rightarrow> u64" where
  "hash_string h [] = h"
| "hash_string h (c # cs) = hash_string (h * 31 + ucast c) cs"

definition xpc_hash :: "'w xpc \<Rightarrow> ref \<Rightarrow> u64 option" where
  "xpc_hash s r = (if r = NULL then Some 0
     else do {
       ob \<leftarrow> deref s r;
       let h = ucast (tag (body ob));
       Some (case body ob of XInt64 v \<Rightarrow> h XOR v | XUint64 v \<Rightarrow> h XOR v | XString t \<Rightarrow> hash_string h t
             | _ \<Rightarrow> h XOR of_nat r) })"

definition xpc_strerror :: "int \<Rightarrow> string" where
  "xpc_strerror error = (if error = 0 then ''success'' else if error = 1 then ''connection interrupted''
     else if error = 2 then ''connection invalid'' else if error = 3 then ''termination imminent''
     else ''unknown xpc error'')"

section \<open>Counting references\<close>

definition owned :: "ref \<Rightarrow> bool" where
  "owned r \<longleftrightarrow> r \<noteq> NULL \<and> \<not> xpc_is_singleton r"

fun slots :: "xpc_body \<Rightarrow> ref list" where
  "slots (XDictionary keys vs n) = filter owned (take n vs)"
| "slots (XArray vs n) = filter owned (take n vs)"
| "slots (XConnection c) = filter owned [pending_msg c]"
| "slots _ = []"

fun released :: "'w work list \<Rightarrow> ref multiset" where
  "released [] = {#}"
| "released (Release r # ws) = (if owned r then {#r#} else {#}) + released ws"
| "released (_ # ws) = released ws"

fun freed :: "'w work list \<Rightarrow> ref list" where
  "freed [] = []"
| "freed (Free r # ws) = r # freed ws"
| "freed (_ # ws) = freed ws"

text \<open>The references an object holds; an operation that has released a slot before it overwrites it
  names the new references beforehand.\<close>

definition held :: "(ref \<rightharpoonup> ref list) \<Rightarrow> (ref \<rightharpoonup> xpc_object_s) \<Rightarrow> ref \<Rightarrow> ref multiset" where
  "held ov H r = (case ov r of Some rs \<Rightarrow> mset rs | None \<Rightarrow> (case H r of Some ob \<Rightarrow> mset (slots (body ob)) | None \<Rightarrow> {#}))"

abbreviation living :: "'w xpc \<Rightarrow> 'w work list \<Rightarrow> ref set" where
  "living s ws \<equiv> dom (objects s) - set (freed ws)"

definition all_refs :: "(ref \<rightharpoonup> ref list) \<Rightarrow> 'w xpc \<Rightarrow> 'w work list \<Rightarrow> ref multiset \<Rightarrow> ref multiset" where
  "all_refs ov s ws ext = (\<Sum>r \<in> living s ws. held ov (objects s) r) + released ws + ext"

definition exact_count :: "nat \<Rightarrow> xpc_object_s \<Rightarrow> bool" where
  "exact_count n ob \<longleftrightarrow> 0 < n \<and> sint (refcount ob) = int n"

text \<open>Every count is exact and positive: \<open>ext\<close> are the references the program holds, \<open>ws\<close> is the work in
  progress. No reference leads to an object that is being freed.\<close>

definition accounts :: "(ref \<rightharpoonup> ref list) \<Rightarrow> 'w xpc \<Rightarrow> 'w work list \<Rightarrow> ref multiset \<Rightarrow> bool" where
  "accounts ov s ws ext \<longleftrightarrow> finite (dom (objects s)) \<and> 7 \<le> brk s \<and> (\<forall>r \<in> dom (objects s). owned r \<and> r < brk s) \<and>
     distinct (freed ws) \<and> set (freed ws) \<subseteq> dom (objects s) \<and> dom ov \<subseteq> set_mset ext \<and>
     set_mset (all_refs ov s ws ext) \<subseteq> living s ws \<and>
     (\<forall>r ob. objects s r = Some ob \<longrightarrow> r \<notin> set (freed ws) \<longrightarrow> exact_count (count (all_refs ov s ws ext) r) ob)"

abbreviation accounted :: "'w xpc \<Rightarrow> ref multiset \<Rightarrow> bool" where
  "accounted s ext \<equiv> accounts Map.empty s [] ext"

text \<open>Releasing changes no body and creates nothing.\<close>

definition kept :: "'w xpc \<Rightarrow> 'w xpc \<Rightarrow> bool" where
  "kept s s' \<longleftrightarrow> brk s' = brk s \<and> failures s' = failures s \<and>
     (\<forall>r ob'. objects s' r = Some ob' \<longrightarrow> (\<exists>ob. objects s r = Some ob \<and> body ob' = body ob \<and> reply_port ob' = reply_port ob))"

lemma kept_refl [simp]: "kept s s"
  by (simp add: kept_def)

lemma kept_trans: "kept s t \<Longrightarrow> kept t u \<Longrightarrow> kept s u"
  by (fastforce simp: kept_def)

lemma released_append [simp]: "released (xs @ ys) = released xs + released ys"
  by (induction xs rule: released.induct) simp_all

lemma freed_append [simp]: "freed (xs @ ys) = freed xs @ freed ys"
  by (induction xs rule: freed.induct) simp_all

lemma released_map [simp]: "released (map Release rs) = mset (filter owned rs)"
  by (induction rs) simp_all

lemma freed_map [simp]: "freed (map Release rs) = []"
  by (induction rs) simp_all

lemma released_destroy: "released (xpc_object_destroy env r b) = mset (slots b)"
  by (cases b) (auto simp: xpc_object_destroy_def connection_work_def owned_def)

lemma freed_destroy: "freed (xpc_object_destroy env r b) = [r]"
  by (cases b) (auto simp: xpc_object_destroy_def connection_work_def)

lemma held_put: "body ob' = body ob \<Longrightarrow> H r = Some ob \<Longrightarrow> held ov (H(r \<mapsto> ob')) = held ov H"
  by (rule ext) (simp add: held_def split: option.split)

lemma sint_dec: "0 < sint (w :: u32) \<Longrightarrow> sint (w - 1) = sint w - 1"
  using sint_greater_eq [of w] sint_less [of w] by (simp add: sint_word_ariths signed_take_bit_int_eq_self)

lemma sint_inc: "sint (w :: u32) < 2 ^ 31 - 1 \<Longrightarrow> sint (w + 1) = sint w + 1"
  using sint_greater_eq [of w] by (simp add: sint_word_ariths signed_take_bit_int_eq_self)

lemma all_refs_put:
  assumes "objects s r = Some ob" and "body ob' = body ob"
  shows "all_refs ov (put_object r ob' s) ws ext = all_refs ov s ws ext"
proof -
  have "living (put_object r ob' s) ws = living s ws" using assms(1) by (auto simp: put_object_def)
  then show ?thesis using assms by (simp add: all_refs_def put_object_def held_put)
qed

lemma accounts_skip: "\<not> owned r \<Longrightarrow> accounts ov s (Release r # ws) ext \<longleftrightarrow> accounts ov s ws ext"
  by (simp add: accounts_def all_refs_def)

lemma accounts_effect: "accounts ov s (Effect f # ws) ext \<longleftrightarrow> accounts ov (s\<lparr>world := f (world s)\<rparr>) ws ext"
  by (simp add: accounts_def all_refs_def)

lemma accounts_free:
  assumes "accounts ov s (Free r # ws) ext"
  shows "accounts ov (s\<lparr>objects := (objects s)(r := None)\<rparr>) ws ext"
proof -
  let ?s' = "s\<lparr>objects := (objects s)(r := None)\<rparr>"
  have r: "r \<notin> set (freed ws)" using assms by (simp add: accounts_def)
  have liv: "living ?s' ws = living s (Free r # ws)" by auto
  have "(\<Sum>x \<in> living ?s' ws. held ov (objects ?s') x) = (\<Sum>x \<in> living s (Free r # ws). held ov (objects s) x)"
    unfolding liv by (rule sum.cong) (auto simp: held_def split: option.split)
  then have "all_refs ov ?s' ws ext = all_refs ov s (Free r # ws) ext" by (simp add: all_refs_def)
  then show ?thesis using assms r unfolding accounts_def liv by (auto split: if_splits)
qed

lemma accounts_live:
  assumes "accounts ov s (Release r # ws) ext" and "owned r"
  obtains ob where "objects s r = Some ob" "r \<notin> set (freed ws)"
    "exact_count (count (all_refs ov s (Release r # ws) ext) r) ob"
proof -
  have "r \<in># all_refs ov s (Release r # ws) ext" using assms(2) by (simp add: all_refs_def)
  then have "r \<in> living s (Release r # ws)" using assms(1) unfolding accounts_def by blast
  then show thesis using assms(1) that unfolding accounts_def by (auto simp: dom_def)
qed

lemma accounts_count:
  "accounts ov s ws ext \<Longrightarrow> objects s r = Some ob \<Longrightarrow> r \<notin> set (freed ws) \<Longrightarrow> exact_count (count (all_refs ov s ws ext) r) ob"
  by (simp add: accounts_def)

lemma exact_count_dec:
  "exact_count (Suc n) ob \<Longrightarrow> exact_count n (ob\<lparr>refcount := refcount ob - 1\<rparr>) \<longleftrightarrow> 0 < sint (refcount ob - 1)"
  by (simp add: exact_count_def sint_dec)

lemma accounts_release:
  assumes "accounts ov s (Release r # ws) ext" and "owned r" and "objects s r = Some ob"
    and "0 < sint (refcount ob - 1)"
  shows "accounts ov (put_object r (ob\<lparr>refcount := refcount ob - 1\<rparr>) s) ws ext"
proof -
  let ?s' = "put_object r (ob\<lparr>refcount := refcount ob - 1\<rparr>) s"
  have refs: "all_refs ov s (Release r # ws) ext = add_mset r (all_refs ov ?s' ws ext)"
    using assms(2) all_refs_put [OF assms(3), of "ob\<lparr>refcount := refcount ob - 1\<rparr>"] by (simp add: all_refs_def)
  have dom: "dom (objects ?s') = dom (objects s)" using assms(3) by (auto simp: put_object_def)
  have "exact_count (count (all_refs ov ?s' ws ext) x) ox"
    if "objects ?s' x = Some ox" "x \<notin> set (freed ws)" for x ox
  proof (cases "x = r")
    case True
    then have "exact_count (Suc (count (all_refs ov ?s' ws ext) r)) ob"
      using accounts_count [OF assms(1,3)] that(2) unfolding refs by simp
    then show ?thesis using True that(1) assms(4) exact_count_dec by (fastforce simp: put_object_def)
  next
    case False
    then show ?thesis using accounts_count [OF assms(1), of x ox] that unfolding refs by (simp add: put_object_def)
  qed
  then show ?thesis
    using assms(1) unfolding accounts_def refs dom by (auto simp: put_object_def)
qed

lemma accounts_destroy:
  assumes acc: "accounts ov s (Release r # ws) ext" and r: "owned r" and ob: "objects s r = Some ob"
    and zero: "sint (refcount ob - 1) \<le> 0"
  shows "accounts ov (put_object r (ob\<lparr>refcount := refcount ob - 1\<rparr>) s) (xpc_object_destroy env r (body ob) @ ws) ext"
proof -
  let ?ob = "ob\<lparr>refcount := refcount ob - 1\<rparr>" and ?d = "xpc_object_destroy env r (body ob)"
  let ?s' = "put_object r ?ob s"
  have nf: "r \<notin> set (freed ws)" and ex: "exact_count (count (all_refs ov s (Release r # ws) ext) r) ob"
    using accounts_live [OF acc r] ob by auto
  have one: "count (all_refs ov s (Release r # ws) ext) r = 1"
    using ex zero sint_dec [of "refcount ob"] unfolding exact_count_def by linarith
  then have "r \<notin># ext" using r by (auto simp: all_refs_def not_in_iff)
  then have ov: "ov r = None" using acc by (auto simp: accounts_def)
  have dom: "dom (objects ?s') = dom (objects s)" using ob by (auto simp: put_object_def)
  have fin: "finite (living s ws)" using acc by (simp add: accounts_def)
  have liv: "living s ws = insert r (living ?s' (?d @ ws))" "r \<notin> living ?s' (?d @ ws)"
    using ob nf by (auto simp: dom freed_destroy put_object_def)
  have "held ov (objects ?s') = held ov (objects s)" using ob by (simp add: put_object_def held_put)
  then have refs: "all_refs ov s (Release r # ws) ext = add_mset r (all_refs ov ?s' (?d @ ws) ext)"
    using r fin liv ob ov unfolding all_refs_def freed.simps liv(1)
    by (simp add: released_destroy held_def)
  have gone: "r \<notin># all_refs ov ?s' (?d @ ws) ext" using one unfolding refs by (simp add: not_in_iff)
  have "exact_count (count (all_refs ov ?s' (?d @ ws) ext) x) ox"
    if "objects ?s' x = Some ox" "x \<notin> set (freed (?d @ ws))" for x ox
    using accounts_count [OF acc, of x ox] that unfolding refs by (simp add: put_object_def freed_destroy)
  then show ?thesis
    using acc nf gone ob unfolding accounts_def refs dom
    by (auto simp: freed_destroy put_object_def)
qed

section \<open>Releasing ends\<close>

definition work_left :: "'w xpc_env \<Rightarrow> 'w xpc \<Rightarrow> 'w work list \<Rightarrow> nat" where
  "work_left env s ws = (\<Sum>r \<in> living s ws. Suc (length (xpc_object_destroy env r (body (the (objects s r)))))) + length ws"

lemma work_left_put:
  assumes "objects s r = Some ob" and "body ob' = body ob"
  shows "work_left env (put_object r ob' s) ws = work_left env s ws"
proof -
  have "living (put_object r ob' s) ws = living s ws" using assms(1) by (auto simp: put_object_def)
  then show ?thesis using assms by (auto simp: work_left_def put_object_def intro!: sum.cong)
qed

lemma work_left_destroy:
  assumes "accounts ov s (Release r # ws) ext" and "owned r" and "objects s r = Some ob"
  shows "work_left env s (xpc_object_destroy env r (body ob) @ ws) < work_left env s (Release r # ws)"
proof -
  let ?d = "xpc_object_destroy env r (body ob)"
  have nf: "r \<notin> set (freed ws)" using accounts_live [OF assms(1,2)] by blast
  then have liv: "living s (Release r # ws) = insert r (living s (?d @ ws))" "r \<notin> living s (?d @ ws)"
    using assms(3) by (auto simp: freed_destroy)
  have "finite (living s (?d @ ws))" using assms(1) by (simp add: accounts_def)
  then show ?thesis using liv(2) assms(3) unfolding work_left_def liv(1) by simp
qed

lemma work_left_free: "work_left env (s\<lparr>objects := (objects s)(r := None)\<rparr>) ws < work_left env s (Free r # ws)"
proof -
  have "living (s\<lparr>objects := (objects s)(r := None)\<rparr>) ws = living s (Free r # ws)" by auto
  then show ?thesis by (auto simp: work_left_def intro!: sum_mono)
qed

lemma kept_put: "objects s r = Some ob \<Longrightarrow> body ob' = body ob \<Longrightarrow> reply_port ob' = reply_port ob \<Longrightarrow> kept s (put_object r ob' s)"
  by (auto simp: kept_def put_object_def)

text \<open>A step of the work: what remains is accounted for, smaller, and leads to the same result.\<close>

definition advances :: "'w xpc_env \<Rightarrow> (ref \<rightharpoonup> ref list) \<Rightarrow> ref multiset \<Rightarrow> 'w work list \<Rightarrow> 'w xpc \<Rightarrow> 'w work list \<Rightarrow> 'w xpc \<Rightarrow> bool" where
  "advances env ov ext ws s ws1 s1 \<longleftrightarrow> run_work env ws s = run_work env ws1 s1 \<and> accounts ov s1 ws1 ext \<and>
     work_left env s1 ws1 < work_left env s ws \<and> kept s s1"

lemma release_advances:
  assumes acc: "accounts ov s (Release r # rest) ext" and r: "owned r"
  shows "\<exists>ws1 s1. advances env ov ext (Release r # rest) s ws1 s1"
proof -
  obtain ob where ob: "objects s r = Some ob" using accounts_live [OF acc r] .
  define s1 where "s1 = put_object r (ob\<lparr>refcount := refcount ob - 1\<rparr>) s"
  let ?d = "xpc_object_destroy env r (body ob)"
  have k: "kept s s1" unfolding s1_def by (rule kept_put [OF ob]) simp_all
  have step: "run_work env (Release r # rest) s =
    (if sint (refcount ob - 1) \<le> 0 then run_work env (?d @ rest) s1 else run_work env rest s1)"
    using r ob by (subst run_work.simps) (simp add: owned_def s1_def Let_def)
  have left: "work_left env s1 v = work_left env s v" for v
    unfolding s1_def by (rule work_left_put [OF ob]) simp
  show ?thesis
  proof (cases "sint (refcount ob - 1) \<le> 0")
    case True
    have "advances env ov ext (Release r # rest) s (?d @ rest) s1"
      using step True k accounts_destroy [OF acc r ob True, of env, folded s1_def] work_left_destroy [OF acc r ob, of env]
      by (simp add: advances_def left)
    then show ?thesis by blast
  next
    case False
    have "work_left env s rest < work_left env s (Release r # rest)" by (simp add: work_left_def)
    then have "advances env ov ext (Release r # rest) s rest s1"
      using step False k accounts_release [OF acc r ob, folded s1_def] by (simp add: advances_def left)
    then show ?thesis by blast
  qed
qed

lemma work_advances:
  assumes acc: "accounts ov s (w # rest) ext"
  shows "\<exists>ws1 s1. advances env ov ext (w # rest) s ws1 s1"
proof (cases w)
  case (Effect f)
  have "advances env ov ext (w # rest) s rest (s\<lparr>world := f (world s)\<rparr>)"
    using acc unfolding advances_def Effect
    by (subst run_work.simps) (simp add: accounts_effect work_left_def kept_def)
  then show ?thesis by blast
next
  case (Free r)
  have "objects s r \<noteq> None" using acc by (auto simp: Free accounts_def)
  then have "advances env ov ext (w # rest) s rest (s\<lparr>objects := (objects s)(r := None)\<rparr>)"
    using accounts_free [OF acc [unfolded Free]] work_left_free [of env s r rest] unfolding advances_def Free
    by (subst run_work.simps) (auto simp: kept_def)
  then show ?thesis by blast
next
  case (Release r)
  show ?thesis
  proof (cases "owned r")
    case True
    then show ?thesis using release_advances acc unfolding Release by blast
  next
    case False
    then have "advances env ov ext (w # rest) s rest s"
      using acc unfolding advances_def Release
      by (subst run_work.simps) (auto simp: owned_def accounts_skip work_left_def)
    then show ?thesis by blast
  qed
qed

lemma run_work_accounts:
  assumes "accounts ov s ws ext"
  shows "\<exists>s'. run_work env ws s = Some s' \<and> accounts ov s' [] ext \<and> kept s s'"
  using assms
proof (induction "work_left env s ws" arbitrary: s ws rule: less_induct)
  case less
  show ?case
  proof (cases ws)
    case Nil
    then show ?thesis using less.prems by (subst run_work.simps) simp
  next
    case (Cons w rest)
    then obtain ws1 s1 where "advances env ov ext ws s ws1 s1" using work_advances less.prems by blast
    then show ?thesis using less.hyps [of s1 ws1] kept_trans unfolding advances_def by metis
  qed
qed

section \<open>Ownership of references\<close>

text \<open>The reference a pointer stands for: none for \<open>NULL\<close> and for the singletons.\<close>

definition own :: "ref \<Rightarrow> ref multiset" where
  "own r = (if owned r then {#r#} else {#})"

text \<open>Bodies of the objects the program refers to are the same before and after.\<close>

definition same_bodies :: "ref set \<Rightarrow> 'w xpc \<Rightarrow> 'w xpc \<Rightarrow> bool" where
  "same_bodies R s s' \<longleftrightarrow> (\<forall>r \<in> R. map_option body (objects s' r) = map_option body (objects s r) \<and>
     map_option reply_port (objects s' r) = map_option reply_port (objects s r))"

lemma ext_alive:
  assumes "accounts ov s ws ext" and "r \<in># ext"
  shows "\<exists>ob. objects s r = Some ob"
proof -
  have "r \<in># all_refs ov s ws ext" using assms(2) by (simp add: all_refs_def)
  then have "r \<in> dom (objects s)" using assms(1) unfolding accounts_def by blast
  then show ?thesis by blast
qed

lemma kept_same:
  assumes "kept s s'" "accounts ov s' ws ext"
  shows "same_bodies (set_mset ext) s s'"
  unfolding same_bodies_def
proof
  fix r
  assume "r \<in># ext"
  then obtain ob where "objects s' r = Some ob" using ext_alive [OF assms(2)] by blast
  then show "map_option body (objects s' r) = map_option body (objects s r) \<and>
      map_option reply_port (objects s' r) = map_option reply_port (objects s r)"
    using assms(1) unfolding kept_def by (metis option.map(2))
qed

lemma accounts_give:
  assumes "accounts ov s ws (own r + ext)" "dom ov \<subseteq> set_mset ext"
  shows "accounts ov s (Release r # ws) ext"
proof -
  have "all_refs ov s (Release r # ws) ext = all_refs ov s ws (own r + ext)"
    by (simp add: all_refs_def own_def)
  then show ?thesis using assms by (simp add: accounts_def)
qed

lemma release_accounts:
  assumes "accounts ov s [] (own r + ext)" "dom ov \<subseteq> set_mset ext"
  shows "\<exists>s'. xpc_release env r s = Some s' \<and> accounts ov s' [] ext \<and> kept s s'"
  using run_work_accounts [OF accounts_give [OF assms]] by (simp add: xpc_release_def)

lemma retain_accounts:
  assumes acc: "accounts ov s ws ext" and live: "owned r \<Longrightarrow> r \<in> living s ws"
    and room: "\<And>ob. objects s r = Some ob \<Longrightarrow> sint (refcount ob) < 2 ^ 31 - 1"
  shows "\<exists>s'. xpc_retain r s = Some s' \<and> accounts ov s' ws (own r + ext) \<and> kept s s'"
proof (cases "owned r")
  case False
  then show ?thesis using acc by (auto simp: xpc_retain_def owned_def own_def)
next
  case True
  then obtain ob where ob: "objects s r = Some ob" "r \<notin> set (freed ws)" using live by auto
  define s' where "s' = put_object r (ob\<lparr>refcount := refcount ob + 1\<rparr>) s"
  have refs: "all_refs ov s' ws (own r + ext) = add_mset r (all_refs ov s ws ext)"
    using True all_refs_put [OF ob(1), of "ob\<lparr>refcount := refcount ob + 1\<rparr>"] by (simp add: s'_def all_refs_def own_def)
  have dom: "dom (objects s') = dom (objects s)" using ob by (auto simp: s'_def put_object_def)
  have "exact_count (count (all_refs ov s' ws (own r + ext)) x) ox"
    if "objects s' x = Some ox" "x \<notin> set (freed ws)" for x ox
  proof (cases "x = r")
    case True
    then show ?thesis
      using accounts_count [OF acc ob] that(1) room [OF ob(1)] unfolding refs
      by (auto simp: s'_def put_object_def exact_count_def sint_inc)
  next
    case False
    then show ?thesis using accounts_count [OF acc, of x ox] that unfolding refs by (simp add: s'_def put_object_def)
  qed
  then have "accounts ov s' ws (own r + ext)"
    using acc ob True unfolding accounts_def refs dom by (auto simp: s'_def put_object_def own_def)
  moreover have "kept s s'" unfolding s'_def by (rule kept_put [OF ob(1)]) simp_all
  ultimately show ?thesis using True ob(1) by (auto simp: xpc_retain_def owned_def s'_def)
qed

text \<open>A new object without slots belongs to the program.\<close>

lemma alloc_accounts:
  assumes acc: "accounted s ext" and b: "slots b = []" and run: "xpc_alloc b s = (r, s')"
  shows "accounted s' (own r + ext) \<and> same_bodies (dom (objects s)) s s' \<and>
    (r \<noteq> NULL \<longrightarrow> owned r \<and> objects s r = None \<and> objects s' r = Some \<lparr>refcount = 1, reply_port = 0, body = b\<rparr>)"
proof -
  obtain ok s1 where t: "try_alloc s = (ok, s1)" by fastforce
  have s1: "objects s1 = objects s" "brk s1 = brk s"
    using t by (auto simp: try_alloc_def split: list.splits)
  have acc1: "accounted s1 ext" using acc unfolding accounts_def all_refs_def s1 by simp
  show ?thesis
  proof (cases ok)
    case False
    then show ?thesis
      using acc1 run t s1 by (simp add: xpc_alloc_def own_def owned_def same_bodies_def)
  next
    case True
    have new: "objects s (brk s) = None" "owned (brk s)" "brk s \<noteq> 0"
      using acc by (auto simp: accounts_def owned_def xpc_is_singleton_def dom_def)
    let ?new = "\<lparr>refcount = 1, reply_port = 0, body = b\<rparr>"
    have r: "r = brk s" and obj: "objects s' = (objects s)(r \<mapsto> ?new)" and brk: "brk s' = Suc (brk s)"
      using run True t s1 by (auto simp: xpc_alloc_def put_object_def)
    have dom: "dom (objects s') = insert r (dom (objects s))" by (simp add: obj)
    have fin: "finite (dom (objects s))" and rd: "r \<notin> dom (objects s)" using acc new(1) r by (auto simp: accounts_def)
    have "(\<Sum>x \<in> dom (objects s). held Map.empty (objects s') x) = (\<Sum>x \<in> dom (objects s). held Map.empty (objects s) x)"
      using rd by (intro sum.cong) (auto simp: held_def obj)
    moreover have "held Map.empty (objects s') r = {#}" using b by (simp add: held_def obj)
    ultimately have refs: "all_refs Map.empty s' [] (own r + ext) = add_mset r (all_refs Map.empty s [] ext)"
      using fin rd new(2) r by (simp add: all_refs_def dom own_def)
    have fresh: "r \<notin># all_refs Map.empty s [] ext" using acc rd unfolding accounts_def by auto
    have "exact_count (count (all_refs Map.empty s' [] (own r + ext)) x) ox" if "objects s' x = Some ox" for x ox
    proof (cases "x = r")
      case True
      then show ?thesis using that fresh unfolding refs by (auto simp: obj exact_count_def not_in_iff)
    next
      case False
      then show ?thesis using accounts_count [OF acc, of x ox] that unfolding refs by (simp add: obj)
    qed
    moreover have "set_mset (all_refs Map.empty s' [] (own r + ext)) \<subseteq> dom (objects s')"
      using acc unfolding refs dom accounts_def by auto
    moreover have "\<forall>x \<in> dom (objects s'). owned x \<and> x < brk s'"
      using acc new(2) r unfolding dom brk accounts_def by (auto intro: less_SucI)
    ultimately have "accounted s' (own r + ext)"
      using acc fin unfolding accounts_def dom brk by simp
    moreover have "same_bodies (dom (objects s)) s s'" using rd by (auto simp: same_bodies_def obj)
    ultimately show ?thesis using new r by (simp add: obj)
  qed
qed

text \<open>
  C7. Releasing a reference is sound: in a state in which every reference count equals the number of
  references to the object, releasing a reference the program holds returns (no fault and no endless
  recursion, whatever the object graph, cycles included), all counts are exact again without that
  reference, no object that is left is without a reference, and the objects the program still
  refers to keep their contents.
\<close>

theorem release_sound:
  assumes "accounted s (own r + ext)"
  shows "\<exists>s'. xpc_release env r s = Some s' \<and> accounted s' ext \<and> same_bodies (set_mset ext) s s' \<and>
    dom (objects s') \<subseteq> dom (objects s)"
proof -
  obtain s' where s': "xpc_release env r s = Some s'" "accounted s' ext" "kept s s'"
    using release_accounts [OF assms] by auto
  then have "dom (objects s') \<subseteq> dom (objects s)" unfolding kept_def by blast
  then show ?thesis using s' kept_same by blast
qed

section \<open>A small heap\<close>

text \<open>An array that holds the same string twice.\<close>

definition quiet_env :: "'w xpc_env" where
  "quiet_env = \<lparr>dispatch_retain = (\<lambda>_ w. w), dispatch_release = (\<lambda>_ w. w), dispatch_source_cancel = (\<lambda>_ w. w),
     mach_port_deallocate = (\<lambda>_ w. w), mach_port_drop_receive = (\<lambda>_ w. w), Block_release = (\<lambda>_ w. w)\<rparr>"

definition array_heap :: "unit xpc" where
  "array_heap = (initial_xpc ())\<lparr>brk := 9, objects :=
     [7 \<mapsto> \<lparr>refcount = 1, reply_port = 0, body = XArray [8, 8, 0, 0] 2\<rparr>,
      8 \<mapsto> \<lparr>refcount = 2, reply_port = 0, body = XString [0x61]\<rparr>]\<rparr>"

lemma array_heap_accounted: "accounted array_heap (own 7 + {#})"
proof -
  have dom: "dom (objects array_heap) = {7, 8}" by (auto simp: array_heap_def)
  have refs: "all_refs Map.empty array_heap [] (own 7 + {#}) = {#8, 8, 7#}"
    unfolding all_refs_def freed.simps dom
    by (simp add: array_heap_def held_def own_def owned_def xpc_is_singleton_def)
  show ?thesis
    unfolding accounts_def refs freed.simps dom
    by (auto simp: array_heap_def owned_def xpc_is_singleton_def exact_count_def own_def split: if_splits)
qed

theorem release_sound_witness:
  "\<exists>s'. xpc_release quiet_env 7 array_heap = Some s' \<and> accounted s' {#} \<and> dom (objects s') \<subseteq> {7, 8}"
proof -
  have "dom (objects array_heap) = {7, 8}" by (auto simp: array_heap_def)
  then show ?thesis using release_sound [OF array_heap_accounted, of quiet_env] by auto
qed

section \<open>Equality and hash\<close>

fun hashed_by_value :: "xpc_body \<Rightarrow> bool" where
  "hashed_by_value (XInt64 _) = True"
| "hashed_by_value (XUint64 _) = True"
| "hashed_by_value (XString _) = True"
| "hashed_by_value _ = False"

text \<open>
  C37. What equality and hash have to do with each other: two objects at different addresses that
  \<open>xpc_equal\<close> finds equal have the same hash exactly when they are integers or strings. Equal data
  and doubles hash differently, because their hash is their address.
\<close>

theorem equal_hash:
  assumes "xpc_equal s a b = Some True" and "a \<noteq> b" and "a < 2 ^ 64" and "b < 2 ^ 64"
  shows "\<exists>x. map_option body (deref s a) = Some x \<and> (xpc_hash s a = xpc_hash s b \<longleftrightarrow> hashed_by_value x)"
proof -
  have "a \<noteq> NULL" "b \<noteq> NULL" using assms(1,2) by (auto simp: xpc_equal_def split: if_splits)
  then obtain oa ob where o: "deref s a = Some oa" "deref s b = Some ob"
    using assms(1,2) by (auto simp: xpc_equal_def split: if_splits bind_splits)
  have "(of_nat a :: u64) \<noteq> of_nat b"
    using assms(2-4) by (simp add: word_unat_eq_iff unat_of_nat take_bit_nat_eq_self)
  then have x: "h XOR of_nat a \<noteq> h XOR (of_nat b :: u64)" for h
    by (metis xor.left_neutral xor.assoc xor_self_eq)
  show ?thesis
    using assms(1,2) o \<open>a \<noteq> NULL\<close> \<open>b \<noteq> NULL\<close> x
    by (cases "body oa"; cases "body ob") (auto simp: xpc_equal_def xpc_hash_def split: if_splits)
qed

definition equal_heap :: "unit xpc" where
  "equal_heap = (initial_xpc ())\<lparr>brk := 9, objects :=
     [7 \<mapsto> \<lparr>refcount = 1, reply_port = 0, body = XData 1 (Some [5])\<rparr>,
      8 \<mapsto> \<lparr>refcount = 1, reply_port = 0, body = XData 1 (Some [5])\<rparr>]\<rparr>"

theorem equal_hash_witness:
  "xpc_equal equal_heap 7 8 = Some True \<and> xpc_hash equal_heap 7 \<noteq> xpc_hash equal_heap 8"
proof -
  have "xpc_equal equal_heap 7 8 = Some True" "map_option body (deref equal_heap 7) = Some (XData 1 (Some [5]))"
    by (simp_all add: xpc_equal_def deref_def equal_heap_def xpc_is_singleton_def data_eq_def)
  then show ?thesis using equal_hash [of equal_heap 7 8] by auto
qed

end
