(* ===== verification/Xpc_Containers.thy ===== *)
theory Xpc_Containers
  imports Xpc_Object
begin

text \<open>
  Dictionaries and arrays of \<open>libxpc_impl.c\<close>. A dictionary has an array of keys and an array of
  values, both as long as its capacity, of which the first ones up to its count are in use; a key
  can be \<open>NULL\<close> when its copy could not be allocated, and comparing with such a key is a fault.
  The lemmas show that a dictionary implements a finite map and an array a list, with the reference
  counts of everything involved exact after each operation.
\<close>

section \<open>Dictionaries\<close>

abbreviation DICT_INITIAL_CAP :: nat where "DICT_INITIAL_CAP \<equiv> 8"

type_synonym dict_slots = "cstring option list \<times> ref list \<times> nat"

fun dict_body :: "dict_slots \<Rightarrow> xpc_body" where
  "dict_body (ks, vs, n) = XDictionary ks vs n"

fun as_dict :: "xpc_body \<Rightarrow> dict_slots option" where
  "as_dict (XDictionary ks vs n) = Some (ks, vs, n)"
| "as_dict _ = None"

text \<open>The pointer test, the tag test and the read of the fields: \<open>None\<close> inside for no dictionary.\<close>

definition read_dict :: "'w xpc \<Rightarrow> ref \<Rightarrow> dict_slots option option" where
  "read_dict s d = do { b \<leftarrow> read_body s d; Some (Option.bind b as_dict) }"

text \<open>The search compares the keys in order with \<open>strcmp\<close>.\<close>

fun find_key :: "cstring \<Rightarrow> cstring option list \<Rightarrow> nat option option" where
  "find_key key [] = Some None"
| "find_key key (None # ks) = None"
| "find_key key (Some k # ks) = (if k = key then Some (Some 0) else map_option (map_option Suc) (find_key key ks))"

fun slots_replace :: "nat \<Rightarrow> ref \<Rightarrow> dict_slots \<Rightarrow> dict_slots" where
  "slots_replace i v (ks, vs, n) = (ks, vs[i := v], n)"

fun slots_remove :: "nat \<Rightarrow> dict_slots \<Rightarrow> dict_slots" where
  "slots_remove i (ks, vs, n) =
     (if i < n - 1 then (ks[i := ks ! (n - 1)], vs[i := vs ! (n - 1)], n - 1) else (ks, vs, n - 1))"

text \<open>Growing doubles the capacity; what is behind the used slots is never read.\<close>

fun dict_grow :: "dict_slots \<Rightarrow> dict_slots" where
  "dict_grow (ks, vs, n) = (ks @ replicate (length ks) None, vs @ replicate (length vs) NULL, n)"

fun slots_push :: "cstring option \<Rightarrow> ref \<Rightarrow> dict_slots \<Rightarrow> dict_slots" where
  "slots_push k v (ks, vs, n) = (ks[n := k], vs[n := v], Suc n)"

text \<open>Both reallocations are used without a test: if one fails the next store goes through \<open>NULL\<close>.\<close>

definition grow_if_full :: "dict_slots \<Rightarrow> 'w xpc \<Rightarrow> (dict_slots \<times> 'w xpc) option" where
  "grow_if_full ds s = (case ds of (ks, vs, n) \<Rightarrow>
     if n \<ge> length ks then
       (case try_alloc s of (ok1, s1) \<Rightarrow> (case try_alloc s1 of (ok2, s2) \<Rightarrow>
          if ok1 \<and> ok2 then Some (dict_grow ds, s2) else None))
     else Some (ds, s))"

definition dict_insert :: "ref \<Rightarrow> cstring \<Rightarrow> ref \<Rightarrow> dict_slots \<Rightarrow> 'w xpc \<Rightarrow> 'w xpc option" where
  "dict_insert d k v ds s = do {
     (ds1, s1) \<leftarrow> grow_if_full ds s;
     let (ok, s2) = try_alloc s1;
     s3 \<leftarrow> set_body d (dict_body (slots_push (if ok then Some k else None) v ds1)) s2;
     xpc_retain v s3 }"

definition xpc_dictionary_set_value ::
  "'w xpc_env \<Rightarrow> ref \<Rightarrow> cstring option \<Rightarrow> ref \<Rightarrow> 'w xpc \<Rightarrow> 'w xpc option" where
  "xpc_dictionary_set_value env d key v s = do {
     ds \<leftarrow> read_dict s d;
     (case (ds, key) of
        (Some (ks, vs, n), Some k) \<Rightarrow> do {
          hit \<leftarrow> find_key k (take n ks);
          (case hit of
             Some i \<Rightarrow>
               if v \<noteq> NULL then do {
                 s1 \<leftarrow> xpc_retain v s;
                 s2 \<leftarrow> xpc_release env (vs ! i) s1;
                 set_body d (dict_body (slots_replace i v (ks, vs, n))) s2 }
               else do {
                 s1 \<leftarrow> xpc_release env (vs ! i) s;
                 set_body d (dict_body (slots_remove i (ks, vs, n))) s1 }
           | None \<Rightarrow> if v = NULL then Some s else dict_insert d k v (ks, vs, n) s) }
      | _ \<Rightarrow> Some s) }"

definition xpc_dictionary_get_value :: "'w xpc \<Rightarrow> ref \<Rightarrow> cstring option \<Rightarrow> ref option" where
  "xpc_dictionary_get_value s d key = do {
     ds \<leftarrow> read_dict s d;
     (case (ds, key) of
        (Some (ks, vs, n), Some k) \<Rightarrow> do {
          hit \<leftarrow> find_key k (take n ks);
          Some (case hit of Some i \<Rightarrow> vs ! i | None \<Rightarrow> NULL) }
      | _ \<Rightarrow> Some NULL) }"

definition xpc_dictionary_get_count :: "'w xpc \<Rightarrow> ref \<Rightarrow> nat option" where
  "xpc_dictionary_get_count s d = do { ds \<leftarrow> read_dict s d; Some (case ds of Some (ks, vs, n) \<Rightarrow> n | None \<Rightarrow> 0) }"

text \<open>The two arrays are allocated before either is tested.\<close>

definition alloc_container :: "xpc_body \<Rightarrow> nat \<Rightarrow> 'w xpc \<Rightarrow> ref \<times> 'w xpc" where
  "alloc_container b arrays s = (case xpc_alloc b s of (r, s1) \<Rightarrow>
     if r = NULL then (NULL, s1)
     else (case (if arrays = 2 then case try_alloc s1 of (ok1, s2) \<Rightarrow> (case try_alloc s2 of (ok2, s3) \<Rightarrow> (ok1 \<and> ok2, s3))
                 else try_alloc s1) of
       (ok, s4) \<Rightarrow> if ok then (r, s4) else (NULL, free_object r s4)))"

text \<open>Creating with entries stores the entry of index \<open>i\<close> in slot \<open>i\<close> and counts the stored ones.\<close>

fun dict_fill :: "ref \<Rightarrow> nat \<Rightarrow> (cstring option \<times> ref) list \<Rightarrow> 'w xpc \<Rightarrow> 'w xpc option" where
  "dict_fill d i [] s = Some s"
| "dict_fill d i ((key, v) # kvs) s = (case key of
     None \<Rightarrow> dict_fill d (Suc i) kvs s
   | Some k \<Rightarrow>
       if v = NULL then dict_fill d (Suc i) kvs s
       else do {
         ds \<leftarrow> read_dict s d;
         (ks, vs, n) \<leftarrow> ds;
         let (ok, s1) = try_alloc s;
         s2 \<leftarrow> set_body d (XDictionary (ks[i := if ok then Some k else None]) (vs[i := v]) n) s1;
         s3 \<leftarrow> xpc_retain v s2;
         s4 \<leftarrow> set_body d (XDictionary (ks[i := if ok then Some k else None]) (vs[i := v]) (Suc n)) s3;
         dict_fill d (Suc i) kvs s4 })"

definition xpc_dictionary_create :: "cstring option list option \<Rightarrow> ref list option \<Rightarrow> nat \<Rightarrow> 'w xpc \<Rightarrow> (ref \<times> 'w xpc) option" where
  "xpc_dictionary_create keys vals n s = (
     let cap = (if n > DICT_INITIAL_CAP then n else DICT_INITIAL_CAP);
         (d, s1) = alloc_container (XDictionary (replicate cap None) (replicate cap NULL) 0) 2 s
     in if d = NULL then Some (NULL, s1)
        else (case (keys, vals) of
          (Some ks, Some vs) \<Rightarrow> if n \<le> length ks \<and> n \<le> length vs
            then do { s2 \<leftarrow> dict_fill d 0 (zip (take n ks) (take n vs)) s1; Some (d, s2) } else None
        | _ \<Rightarrow> Some (d, s1)))"

definition xpc_dictionary_create_reply :: "ref \<Rightarrow> 'w xpc \<Rightarrow> (ref \<times> 'w xpc) option" where
  "xpc_dictionary_create_reply original s = do {
     (reply, s1) \<leftarrow> xpc_dictionary_create None None 0 s;
     if reply = NULL \<or> original = NULL then Some (reply, s1)
     else do {
       orig \<leftarrow> deref s1 original;
       ob \<leftarrow> objects s1 reply;
       Some (reply, case body orig of
         XDictionary _ _ _ \<Rightarrow> put_object reply (ob\<lparr>reply_port := reply_port orig\<rparr>) s1
       | _ \<Rightarrow> s1) } }"

text \<open>The block of \<open>xpc_dictionary_apply\<close> is client code: it may change everything, so the fields are
  read again before each call.\<close>

partial_function (option) dict_apply_from ::
  "(cstring option \<Rightarrow> ref \<Rightarrow> 'w xpc \<Rightarrow> (bool \<times> 'w xpc) option) \<Rightarrow> ref \<Rightarrow> nat \<Rightarrow> 'w xpc \<Rightarrow> (int \<times> 'w xpc) option" where
  "dict_apply_from block d i s = (case read_dict s d of
     None \<Rightarrow> None
   | Some None \<Rightarrow> None
   | Some (Some (ks, vs, n)) \<Rightarrow>
       if i < n then (case block (ks ! i) (vs ! i) s of
           None \<Rightarrow> None
         | Some (go, s1) \<Rightarrow> if go then dict_apply_from block d (Suc i) s1 else Some (0, s1))
       else Some (1, s))"

definition xpc_dictionary_apply ::
  "ref \<Rightarrow> (cstring option \<Rightarrow> ref \<Rightarrow> 'w xpc \<Rightarrow> (bool \<times> 'w xpc) option) option \<Rightarrow> 'w xpc \<Rightarrow> (int \<times> 'w xpc) option" where
  "xpc_dictionary_apply d applier s = do {
     ds \<leftarrow> read_dict s d;
     (case (ds, applier) of
        (Some _, Some block) \<Rightarrow> dict_apply_from block d 0 s
      | _ \<Rightarrow> Some (0, s)) }"

section \<open>Typed setters and getters\<close>

text \<open>A setter hands its new object over: the dictionary retains it and the setter releases it.\<close>

definition set_and_release :: "'w xpc_env \<Rightarrow> ref \<Rightarrow> cstring option \<Rightarrow> ref \<times> 'w xpc \<Rightarrow> 'w xpc option" where
  "set_and_release env d key = (\<lambda>(v, s). do { s1 \<leftarrow> xpc_dictionary_set_value env d key v s; xpc_release env v s1 })"

definition xpc_dictionary_set_bool :: "'w xpc_env \<Rightarrow> ref \<Rightarrow> cstring option \<Rightarrow> bool \<Rightarrow> 'w xpc \<Rightarrow> 'w xpc option" where
  "xpc_dictionary_set_bool env d key v s = xpc_dictionary_set_value env d key (xpc_bool_create v) s"

definition xpc_dictionary_set_int64 :: "'w xpc_env \<Rightarrow> ref \<Rightarrow> cstring option \<Rightarrow> u64 \<Rightarrow> 'w xpc \<Rightarrow> 'w xpc option" where
  "xpc_dictionary_set_int64 env d key v s = set_and_release env d key (xpc_int64_create v s)"

definition xpc_dictionary_set_uint64 :: "'w xpc_env \<Rightarrow> ref \<Rightarrow> cstring option \<Rightarrow> u64 \<Rightarrow> 'w xpc \<Rightarrow> 'w xpc option" where
  "xpc_dictionary_set_uint64 env d key v s = set_and_release env d key (xpc_uint64_create v s)"

definition xpc_dictionary_set_double :: "'w xpc_env \<Rightarrow> ref \<Rightarrow> cstring option \<Rightarrow> u64 \<Rightarrow> 'w xpc \<Rightarrow> 'w xpc option" where
  "xpc_dictionary_set_double env d key v s = set_and_release env d key (xpc_double_create v s)"

definition xpc_dictionary_set_string ::
  "'w xpc_env \<Rightarrow> ref \<Rightarrow> cstring option \<Rightarrow> cstring option \<Rightarrow> 'w xpc \<Rightarrow> 'w xpc option" where
  "xpc_dictionary_set_string env d key val s = set_and_release env d key (xpc_string_create val s)"

definition xpc_dictionary_set_data ::
  "'w xpc_env \<Rightarrow> ref \<Rightarrow> cstring option \<Rightarrow> u8 list option \<Rightarrow> u64 \<Rightarrow> 'w xpc \<Rightarrow> 'w xpc option" where
  "xpc_dictionary_set_data env d key bytes len s = do { vs \<leftarrow> xpc_data_create bytes len s; set_and_release env d key vs }"

definition xpc_dictionary_set_mach_send :: "'w xpc_env \<Rightarrow> ref \<Rightarrow> cstring option \<Rightarrow> u32 \<Rightarrow> 'w xpc \<Rightarrow> 'w xpc option" where
  "xpc_dictionary_set_mach_send env d key p s = (case xpc_alloc (XMachSend p) s of (v, s1) \<Rightarrow>
     if v = NULL then Some s1 else set_and_release env d key (v, s1))"

definition xpc_dictionary_set_mach_recv :: "'w xpc_env \<Rightarrow> ref \<Rightarrow> cstring option \<Rightarrow> u32 \<Rightarrow> 'w xpc \<Rightarrow> 'w xpc option" where
  "xpc_dictionary_set_mach_recv env d key p s = (case xpc_alloc (XMachRecv p) s of (v, s1) \<Rightarrow>
     if v = NULL then Some s1 else set_and_release env d key (v, s1))"

definition xpc_dictionary_get_bool :: "'w xpc \<Rightarrow> ref \<Rightarrow> cstring option \<Rightarrow> bool option" where
  "xpc_dictionary_get_bool s d key = do { v \<leftarrow> xpc_dictionary_get_value s d key; xpc_bool_get_value s v }"

definition xpc_dictionary_get_int64 :: "'w xpc \<Rightarrow> ref \<Rightarrow> cstring option \<Rightarrow> u64 option" where
  "xpc_dictionary_get_int64 s d key = do { v \<leftarrow> xpc_dictionary_get_value s d key; xpc_int64_get_value s v }"

definition xpc_dictionary_get_uint64 :: "'w xpc \<Rightarrow> ref \<Rightarrow> cstring option \<Rightarrow> u64 option" where
  "xpc_dictionary_get_uint64 s d key = do { v \<leftarrow> xpc_dictionary_get_value s d key; xpc_uint64_get_value s v }"

definition xpc_dictionary_get_double :: "'w xpc \<Rightarrow> ref \<Rightarrow> cstring option \<Rightarrow> u64 option" where
  "xpc_dictionary_get_double s d key = do { v \<leftarrow> xpc_dictionary_get_value s d key; xpc_double_get_value s v }"

definition xpc_dictionary_get_string :: "'w xpc \<Rightarrow> ref \<Rightarrow> cstring option \<Rightarrow> cstring option option" where
  "xpc_dictionary_get_string s d key = do { v \<leftarrow> xpc_dictionary_get_value s d key; xpc_string_get_string_ptr s v }"

definition xpc_dictionary_get_data :: "'w xpc \<Rightarrow> ref \<Rightarrow> cstring option \<Rightarrow> (u8 list option \<times> u64) option" where
  "xpc_dictionary_get_data s d key = do {
     v \<leftarrow> xpc_dictionary_get_value s d key;
     b \<leftarrow> read_body s v;
     Some (case b of Some (XData n bs) \<Rightarrow> (bs, n) | _ \<Rightarrow> (None, 0)) }"

definition xpc_dictionary_copy_mach_send :: "'w xpc \<Rightarrow> ref \<Rightarrow> cstring option \<Rightarrow> u32 option" where
  "xpc_dictionary_copy_mach_send s d key = do {
     v \<leftarrow> xpc_dictionary_get_value s d key;
     b \<leftarrow> read_body s v;
     Some (case b of Some (XMachSend p) \<Rightarrow> p | Some (XMachRecv p) \<Rightarrow> p | _ \<Rightarrow> 0) }"

section \<open>Arrays\<close>

abbreviation ARRAY_INITIAL_CAP :: nat where "ARRAY_INITIAL_CAP \<equiv> 8"

fun as_array :: "xpc_body \<Rightarrow> (ref list \<times> nat) option" where
  "as_array (XArray vs n) = Some (vs, n)"
| "as_array _ = None"

definition read_array :: "'w xpc \<Rightarrow> ref \<Rightarrow> (ref list \<times> nat) option option" where
  "read_array s a = do { b \<leftarrow> read_body s a; Some (Option.bind b as_array) }"

fun array_fill :: "ref \<Rightarrow> nat \<Rightarrow> ref list \<Rightarrow> 'w xpc \<Rightarrow> 'w xpc option" where
  "array_fill a i [] s = Some s"
| "array_fill a i (v # rest) s =
     (if v = NULL then array_fill a (Suc i) rest s
      else do {
        cell \<leftarrow> read_array s a;
        (vs, n) \<leftarrow> cell;
        s1 \<leftarrow> set_body a (XArray (vs[i := v]) n) s;
        s2 \<leftarrow> xpc_retain v s1;
        s3 \<leftarrow> set_body a (XArray (vs[i := v]) (Suc n)) s2;
        array_fill a (Suc i) rest s3 })"

definition xpc_array_create :: "ref list option \<Rightarrow> nat \<Rightarrow> 'w xpc \<Rightarrow> (ref \<times> 'w xpc) option" where
  "xpc_array_create vals n s = (
     let cap = (if n > ARRAY_INITIAL_CAP then n else ARRAY_INITIAL_CAP);
         (a, s1) = alloc_container (XArray (replicate cap NULL) 0) 1 s
     in if a = NULL then Some (NULL, s1)
        else (case vals of
          Some vs \<Rightarrow> if n \<le> length vs then do { s2 \<leftarrow> array_fill a 0 (take n vs) s1; Some (a, s2) } else None
        | None \<Rightarrow> Some (a, s1)))"

definition array_grow_if_full :: "ref list \<Rightarrow> nat \<Rightarrow> 'w xpc \<Rightarrow> (ref list \<times> 'w xpc) option" where
  "array_grow_if_full vs n s =
     (if n \<ge> length vs then (case try_alloc s of (ok, s1) \<Rightarrow>
        if ok then Some (vs @ replicate (length vs) NULL, s1) else None)
      else Some (vs, s))"

definition xpc_array_append_value :: "ref \<Rightarrow> ref \<Rightarrow> 'w xpc \<Rightarrow> 'w xpc option" where
  "xpc_array_append_value a v s = do {
     cell \<leftarrow> read_array s a;
     (case cell of
        Some (vs, n) \<Rightarrow>
          if v = NULL then Some s
          else do {
            (vs1, s1) \<leftarrow> array_grow_if_full vs n s;
            s2 \<leftarrow> set_body a (XArray (vs1[n := v]) n) s1;
            s3 \<leftarrow> xpc_retain v s2;
            set_body a (XArray (vs1[n := v]) (Suc n)) s3 }
      | None \<Rightarrow> Some s) }"

definition xpc_array_get_count :: "'w xpc \<Rightarrow> ref \<Rightarrow> nat option" where
  "xpc_array_get_count s a = do { cell \<leftarrow> read_array s a; Some (case cell of Some (vs, n) \<Rightarrow> n | None \<Rightarrow> 0) }"

definition xpc_array_get_value :: "'w xpc \<Rightarrow> ref \<Rightarrow> nat \<Rightarrow> ref option" where
  "xpc_array_get_value s a i = do {
     cell \<leftarrow> read_array s a;
     Some (case cell of Some (vs, n) \<Rightarrow> if i < n then vs ! i else NULL | None \<Rightarrow> NULL) }"

partial_function (option) array_apply_from ::
  "(nat \<Rightarrow> ref \<Rightarrow> 'w xpc \<Rightarrow> (bool \<times> 'w xpc) option) \<Rightarrow> ref \<Rightarrow> nat \<Rightarrow> 'w xpc \<Rightarrow> (int \<times> 'w xpc) option" where
  "array_apply_from block a i s = (case read_array s a of
     None \<Rightarrow> None
   | Some None \<Rightarrow> None
   | Some (Some (vs, n)) \<Rightarrow>
       if i < n then (case block i (vs ! i) s of
           None \<Rightarrow> None
         | Some (go, s1) \<Rightarrow> if go then array_apply_from block a (Suc i) s1 else Some (0, s1))
       else Some (1, s))"

definition xpc_array_apply ::
  "ref \<Rightarrow> (nat \<Rightarrow> ref \<Rightarrow> 'w xpc \<Rightarrow> (bool \<times> 'w xpc) option) option \<Rightarrow> 'w xpc \<Rightarrow> (int \<times> 'w xpc) option" where
  "xpc_array_apply a applier s = do {
     cell \<leftarrow> read_array s a;
     (case (cell, applier) of
        (Some _, Some block) \<Rightarrow> array_apply_from block a 0 s
      | _ \<Rightarrow> Some (0, s)) }"

text \<open>The setters create the new object, release the old one and store the new one, which is \<open>NULL\<close>
  when it could not be created.\<close>

definition array_set :: "'w xpc_env \<Rightarrow> ref \<Rightarrow> nat \<Rightarrow> ('w xpc \<Rightarrow> ref \<times> 'w xpc) \<Rightarrow> 'w xpc \<Rightarrow> 'w xpc option" where
  "array_set env a i create s = do {
     cell \<leftarrow> read_array s a;
     (case cell of
        Some (vs, n) \<Rightarrow>
          if i < n then do {
            let (v, s1) = create s;
            s2 \<leftarrow> xpc_release env (vs ! i) s1;
            set_body a (XArray (vs[i := v]) n) s2 }
          else Some s
      | None \<Rightarrow> Some s) }"

definition xpc_array_set_string :: "'w xpc_env \<Rightarrow> ref \<Rightarrow> nat \<Rightarrow> cstring option \<Rightarrow> 'w xpc \<Rightarrow> 'w xpc option" where
  "xpc_array_set_string env a i val s = array_set env a i (xpc_string_create val) s"

definition xpc_array_set_uint64 :: "'w xpc_env \<Rightarrow> ref \<Rightarrow> nat \<Rightarrow> u64 \<Rightarrow> 'w xpc \<Rightarrow> 'w xpc option" where
  "xpc_array_set_uint64 env a i val s = array_set env a i (xpc_uint64_create val) s"

definition xpc_array_set_int64 :: "'w xpc_env \<Rightarrow> ref \<Rightarrow> nat \<Rightarrow> u64 \<Rightarrow> 'w xpc \<Rightarrow> 'w xpc option" where
  "xpc_array_set_int64 env a i val s = array_set env a i (xpc_int64_create val) s"

definition xpc_array_get_string :: "'w xpc \<Rightarrow> ref \<Rightarrow> nat \<Rightarrow> cstring option option" where
  "xpc_array_get_string s a i = do { v \<leftarrow> xpc_array_get_value s a i; xpc_string_get_string_ptr s v }"

definition xpc_array_get_uint64 :: "'w xpc \<Rightarrow> ref \<Rightarrow> nat \<Rightarrow> u64 option" where
  "xpc_array_get_uint64 s a i = do { v \<leftarrow> xpc_array_get_value s a i; xpc_uint64_get_value s v }"

definition xpc_array_get_int64 :: "'w xpc \<Rightarrow> ref \<Rightarrow> nat \<Rightarrow> u64 option" where
  "xpc_array_get_int64 s a i = do { v \<leftarrow> xpc_array_get_value s a i; xpc_int64_get_value s v }"

section \<open>Slots as a map\<close>

text \<open>The contract of a store of values by key, and what its clients derive from it.\<close>

locale assoc_store =
  fixes inv :: "'d \<Rightarrow> bool" and fits :: "'v \<Rightarrow> bool" and look :: "'d \<Rightarrow> 'k \<Rightarrow> 'v option"
    and put :: "'k \<Rightarrow> 'v \<Rightarrow> 'd \<Rightarrow> 'd" and del :: "'k \<Rightarrow> 'd \<Rightarrow> 'd"
  assumes put_inv: "inv d \<Longrightarrow> fits v \<Longrightarrow> inv (put k v d)"
    and look_put: "inv d \<Longrightarrow> fits v \<Longrightarrow> look (put k v d) = (look d)(k \<mapsto> v)"
    and del_inv: "inv d \<Longrightarrow> inv (del k d)"
    and look_del: "inv d \<Longrightarrow> look (del k d) = (look d)(k := None)"
begin

lemma put_all_inv: "inv d \<Longrightarrow> \<forall>(k, v) \<in> set kvs. fits v \<Longrightarrow> inv (fold (\<lambda>(k, v). put k v) kvs d)"
  by (induction kvs arbitrary: d) (auto simp: put_inv)

lemma look_put_all:
  "inv d \<Longrightarrow> \<forall>(k, v) \<in> set kvs. fits v \<Longrightarrow> look (fold (\<lambda>(k, v). put k v) kvs d) = look d ++ map_of (rev kvs)"
proof (induction kvs arbitrary: d)
  case (Cons kv kvs)
  obtain k v where kv: "kv = (k, v)" by fastforce
  then have "look (fold (\<lambda>(k, v). put k v) kvs (put k v d)) = look (put k v d) ++ map_of (rev kvs)"
    using Cons by (intro Cons.IH) (auto simp: put_inv)
  then show ?case using Cons.prems by (simp add: kv look_put map_add_def fun_eq_iff split: option.splits)
qed simp

lemma del_put: "inv d \<Longrightarrow> fits v \<Longrightarrow> look (del k (put k v d)) = look (del k d)"
  by (simp add: look_put look_del put_inv)

lemma put_put: "inv d \<Longrightarrow> fits v \<Longrightarrow> fits w \<Longrightarrow> look (put k w (put k v d)) = look (put k w d)"
  by (simp add: look_put put_inv)

end

text \<open>The slots in use as a list of entries.\<close>

fun holds :: "dict_slots \<Rightarrow> (cstring \<times> ref) list \<Rightarrow> bool" where
  "holds (ks, vs, n) es \<longleftrightarrow> n = length es \<and> n \<le> length ks \<and> length vs = length ks \<and> 0 < length ks \<and>
     take n ks = map (Some \<circ> fst) es \<and> take n vs = map snd es"

fun entries :: "dict_slots \<Rightarrow> (cstring \<times> ref) list" where
  "entries (ks, vs, n) = zip (map the (take n ks)) (take n vs)"

definition wf_slots :: "dict_slots \<Rightarrow> bool" where
  "wf_slots ds \<longleftrightarrow> holds ds (entries ds) \<and> distinct (map fst (entries ds)) \<and> NULL \<notin> snd ` set (entries ds)"

definition slots_look :: "dict_slots \<Rightarrow> cstring \<Rightarrow> ref option" where
  "slots_look ds k = map_of (entries ds) k"

fun key_at :: "cstring \<Rightarrow> dict_slots \<Rightarrow> nat option" where
  "key_at k (ks, vs, n) = Option.bind (find_key k (take n ks)) id"

definition slots_room :: "dict_slots \<Rightarrow> dict_slots" where
  "slots_room ds = (case ds of (ks, vs, n) \<Rightarrow> if n \<ge> length ks then dict_grow ds else ds)"

definition slots_put :: "cstring \<Rightarrow> ref \<Rightarrow> dict_slots \<Rightarrow> dict_slots" where
  "slots_put k v ds = (case key_at k ds of Some i \<Rightarrow> slots_replace i v ds | None \<Rightarrow> slots_push (Some k) v (slots_room ds))"

definition slots_del :: "cstring \<Rightarrow> dict_slots \<Rightarrow> dict_slots" where
  "slots_del k ds = (case key_at k ds of Some i \<Rightarrow> slots_remove i ds | None \<Rightarrow> ds)"

fun position :: "cstring \<Rightarrow> (cstring \<times> ref) list \<Rightarrow> nat option" where
  "position k [] = None"
| "position k ((k', v) # es) = (if k' = k then Some 0 else map_option Suc (position k es))"

lemma holds_entries: "holds ds es \<Longrightarrow> entries ds = es"
  by (cases ds) (auto simp: comp_def zip_map_fst_snd)

lemma wf_holds: "holds ds es \<Longrightarrow> wf_slots ds \<longleftrightarrow> distinct (map fst es) \<and> NULL \<notin> snd ` set es"
  using holds_entries [of ds es] by (simp add: wf_slots_def)

lemma look_holds: "holds ds es \<Longrightarrow> slots_look ds = map_of es"
  using holds_entries [of ds es] by (simp add: slots_look_def fun_eq_iff)

lemma find_key_position: "find_key k (map (Some \<circ> fst) es) = Some (position k es)"
  by (induction k es rule: position.induct) simp_all

lemma key_at_position: "holds ds es \<Longrightarrow> key_at k ds = position k es"
  by (cases ds) (simp add: find_key_position)

lemma position_Some: "position k es = Some i \<Longrightarrow> i < length es \<and> fst (es ! i) = k \<and> map_of es k = Some (snd (es ! i))"
  by (induction k es arbitrary: i rule: position.induct) (auto split: if_splits)

lemma position_None: "position k es = None \<longleftrightarrow> k \<notin> fst ` set es"
  by (induction k es rule: position.induct) auto

lemma holds_replace:
  assumes "holds ds es" and "i < length es"
  shows "holds (slots_replace i v ds) (es[i := (fst (es ! i), v)])"
proof -
  have "(map (Some \<circ> fst) es)[i := Some (fst (es ! i))] = map (Some \<circ> fst) es"
    using assms(2) by (simp add: list_update_same_conv)
  then show ?thesis using assms by (cases ds) (auto simp: take_update_swap map_update)
qed

lemma holds_grow: "holds ds es \<Longrightarrow> holds (dict_grow ds) es"
  by (cases ds) simp

lemma holds_room:
  assumes "holds ds es"
  shows "holds (slots_room ds) es \<and> length es < length (fst (slots_room ds))"
proof -
  obtain ks vs where ds: "ds = (ks, vs, length es)" using assms by (cases ds) simp
  show ?thesis
  proof (cases "length ks \<le> length es")
    case True
    then have "slots_room ds = dict_grow ds" by (simp add: slots_room_def ds)
    moreover have "length es \<le> length ks" "0 < length ks" using assms by (simp_all add: ds)
    then have "length es < length ks + length ks" by linarith
    ultimately show ?thesis using holds_grow [OF assms] by (simp add: ds)
  next
    case False
    then have "slots_room ds = ds" by (simp add: slots_room_def ds)
    then show ?thesis using False assms by (simp add: ds)
  qed
qed

lemma holds_push: "holds ds es \<Longrightarrow> length es < length (fst ds) \<Longrightarrow> holds (slots_push (Some k) v ds) (es @ [(k, v)])"
  by (cases ds) (auto simp: take_Suc_conv_app_nth)

lemma holds_remove:
  assumes "holds ds es" and "i < length es"
  shows "holds (slots_remove i ds) (butlast (es[i := last es]))"
proof -
  obtain ks vs where ds: "ds = (ks, vs, length es)" using assms(1) by (cases ds) simp
  have t: "take (length es) ks = map (Some \<circ> fst) es" "take (length es) vs = map snd es"
    and len: "length es \<le> length ks" "length vs = length ks" using assms(1) by (simp_all add: ds)
  have nth: "ks ! j = Some (fst (es ! j))" "vs ! j = snd (es ! j)" if "j < length es" for j
    using that arg_cong [OF t(1), of "\<lambda>l. l ! j"] arg_cong [OF t(2), of "\<lambda>l. l ! j"] by simp_all
  have "es \<noteq> []" using assms(2) by auto
  then have l: "last es = es ! (length es - 1)" by (simp add: last_conv_nth)
  have "take (length es - 1) (fst (slots_remove i ds)) = map (Some \<circ> fst) (butlast (es[i := last es]))"
    "take (length es - 1) (fst (snd (slots_remove i ds))) = map snd (butlast (es[i := last es]))"
    using assms(2) len nth l by (auto simp: ds intro!: nth_equalityI simp: nth_butlast nth_list_update)
  then show ?thesis using assms len by (auto simp: ds)
qed

section \<open>The slots implement a map\<close>

lemma wf_cases:
  assumes "wf_slots ds"
  obtains es where "holds ds es" "distinct (map fst es)" "NULL \<notin> snd ` set es"
  using assms that by (auto simp: wf_slots_def)

lemma nth_split: "i < length es \<Longrightarrow> \<exists>as bs. es = as @ es ! i # bs \<and> length as = i"
  by (metis id_take_nth_drop length_take min.absorb4)

lemma map_of_update:
  assumes "i < length es" "distinct (map fst es)"
  shows "map_of (es[i := (fst (es ! i), v)]) = (map_of es)(fst (es ! i) \<mapsto> v)"
proof -
  obtain as bs where es: "es = as @ es ! i # bs" "length as = i" using nth_split [OF assms(1)] by blast
  obtain k w where e: "es ! i = (k, w)" by fastforce
  have es': "es = as @ (k, w) # bs" using es(1) unfolding e .
  have "k \<notin> fst ` set as" using assms(2) unfolding es' by auto
  then have "map_of as k = None" by (simp add: map_of_eq_None_iff)
  moreover have "es[i := (k, v)] = as @ (k, v) # bs" using es(2) list_update_length es' by metis
  ultimately show ?thesis unfolding e by (simp add: es' fun_eq_iff map_add_def split: option.split)
qed

lemma map_fst_update: "i < length es \<Longrightarrow> map fst (es[i := (fst (es ! i), v)]) = map fst es"
  by (simp add: map_update list_update_same_conv)

lemma remove_at:
  assumes "i < length es"
  obtains as bs where "es = as @ es ! i # bs" "mset (butlast (es[i := last es])) = mset (as @ bs)"
proof -
  obtain as bs where es: "es = as @ es ! i # bs" "length as = i" using nth_split [OF assms] by blast
  have "mset (butlast (es[i := last es])) = mset (as @ bs)"
  proof (cases bs rule: rev_cases)
    case Nil
    then have "es[i := last es] = as @ [es ! i]" using es by (metis last_snoc list_update_length)
    then show ?thesis by (simp add: Nil)
  next
    case (snoc cs l)
    then have "last es = l" using es(1) by (metis append_is_Nil_conv last_ConsR last_appendR last_snoc list.distinct(1))
    then have "es[i := last es] = (as @ l # cs) @ [l]" using es snoc by (metis append.assoc append_Cons list_update_length)
    then show ?thesis by (simp add: snoc butlast_append)
  qed
  then show thesis using that es(1) by blast
qed

lemma map_of_remove:
  assumes "i < length es" "distinct (map fst es)"
  shows "map_of (butlast (es[i := last es])) = (map_of es)(fst (es ! i) := None)"
    and "distinct (map fst (butlast (es[i := last es])))"
    and "set (butlast (es[i := last es])) \<subseteq> set es"
    and "mset (map snd es) = add_mset (snd (es ! i)) (mset (map snd (butlast (es[i := last es]))))"
proof -
  let ?r = "butlast (es[i := last es])"
  obtain as bs where es: "es = as @ es ! i # bs" and m: "mset ?r = mset (as @ bs)" using remove_at [OF assms(1)] .
  obtain k w where e: "es ! i = (k, w)" by fastforce
  have es': "es = as @ (k, w) # bs" using es unfolding e .
  have k: "k \<notin> fst ` set as" "k \<notin> fst ` set bs" "distinct (map fst (as @ bs))" using assms(2) unfolding es' by auto
  have "mset (map fst ?r) = mset (map fst (as @ bs))" using m by (metis mset_map)
  then show d: "distinct (map fst ?r)" using k(3) mset_eq_imp_distinct_iff by blast
  have set: "set ?r = set (as @ bs)" using m mset_eq_setD by blast
  then have "map_of ?r = map_of (as @ bs)" using map_of_inject_set [OF d k(3)] by blast
  moreover have "map_of as k = None" "map_of bs k = None" using k by (simp_all add: map_of_eq_None_iff)
  ultimately show "map_of ?r = (map_of es)(fst (es ! i) := None)"
    unfolding e by (simp add: es' fun_eq_iff map_add_def split: option.split)
  have "set (as @ bs) \<subseteq> set es" by (auto simp: es')
  then show "set ?r \<subseteq> set es" using set by simp
  show "mset (map snd es) = add_mset (snd (es ! i)) (mset (map snd ?r))"
    unfolding e mset_map m by (simp add: es')
qed

lemma slots_put_spec:
  assumes "holds ds es" "distinct (map fst es)"
  shows "\<exists>es'. holds (slots_put k v ds) es' \<and> distinct (map fst es') \<and> map_of es' = (map_of es)(k \<mapsto> v) \<and>
    snd ` set es' \<subseteq> insert v (snd ` set es) \<and>
    add_mset v (mset (map snd es)) =
      mset (map snd es') + (case map_of es k of Some w \<Rightarrow> {#w#} | None \<Rightarrow> {#})"
proof (cases "position k es")
  case None
  have "holds (slots_put k v ds) (es @ [(k, v)])"
    using holds_room [OF assms(1)] by (simp add: slots_put_def key_at_position [OF assms(1)] None holds_push)
  moreover have "k \<notin> fst ` set es" using None position_None by blast
  moreover have "map_of es k = None" using \<open>k \<notin> fst ` set es\<close> by (simp add: map_of_eq_None_iff)
  ultimately show ?thesis using assms(2)
    by (intro exI [of _ "es @ [(k, v)]"]) (auto simp: fun_eq_iff map_add_def split: option.split)
next
  case (Some i)
  let ?es = "es[i := (fst (es ! i), v)]"
  have i: "i < length es" "fst (es ! i) = k" "map_of es k = Some (snd (es ! i))" using position_Some [OF Some] by simp_all
  have "holds (slots_put k v ds) ?es"
    using holds_replace [OF assms(1) i(1)] by (simp add: slots_put_def key_at_position [OF assms(1)] Some)
  moreover have "snd ` set ?es \<subseteq> insert v (snd ` set es)" using set_update_subset_insert by fastforce
  moreover have "add_mset v (mset (map snd es)) = add_mset (snd (es ! i)) (mset (map snd ?es))"
    using i(1) by (simp add: map_update mset_update insert_DiffM)
  ultimately show ?thesis
    using assms(2) i map_of_update [OF i(1) assms(2), of v] map_fst_update [OF i(1), of v]
    by (intro exI [of _ ?es]) (simp del: mset_map)
qed

lemma slots_del_spec:
  assumes "holds ds es" "distinct (map fst es)"
  shows "\<exists>es'. holds (slots_del k ds) es' \<and> distinct (map fst es') \<and> map_of es' = (map_of es)(k := None) \<and>
    snd ` set es' \<subseteq> snd ` set es \<and>
    mset (map snd es) = mset (map snd es') + (case map_of es k of Some w \<Rightarrow> {#w#} | None \<Rightarrow> {#})"
proof (cases "position k es")
  case None
  then have "map_of es k = None" by (simp add: position_None map_of_eq_None_iff)
  then show ?thesis using assms by (auto simp: slots_del_def key_at_position None fun_upd_idem)
next
  case (Some i)
  have i: "i < length es" "fst (es ! i) = k" "map_of es k = Some (snd (es ! i))" using position_Some [OF Some] by simp_all
  have "holds (slots_del k ds) (butlast (es[i := last es]))"
    using holds_remove [OF assms(1) i(1)] by (simp add: slots_del_def key_at_position [OF assms(1)] Some)
  then show ?thesis
    using map_of_remove [OF i(1) assms(2)] i
    by (intro exI [of _ "butlast (es[i := last es])"]) (simp add: image_mono del: mset_map)
qed

interpretation dict: assoc_store wf_slots "\<lambda>v. v \<noteq> NULL" slots_look slots_put slots_del
proof unfold_locales
  fix ds k v
  assume wf: "wf_slots ds" and v: "v \<noteq> NULL"
  obtain es where es: "holds ds es" "distinct (map fst es)" "NULL \<notin> snd ` set es" using wf_cases [OF wf] .
  show "wf_slots (slots_put k v ds)" "slots_look (slots_put k v ds) = (slots_look ds)(k \<mapsto> v)"
    using slots_put_spec [OF es(1,2), of k v] es v by (auto simp: wf_holds look_holds)
next
  fix ds k
  assume wf: "wf_slots ds"
  obtain es where es: "holds ds es" "distinct (map fst es)" "NULL \<notin> snd ` set es" using wf_cases [OF wf] .
  show "wf_slots (slots_del k ds)" "slots_look (slots_del k ds) = (slots_look ds)(k := None)"
    using slots_del_spec [OF es(1,2), of k] es by (auto simp: wf_holds look_holds)
qed

section \<open>Operations keep the counts exact\<close>

lemma put_object_same [simp]: "objects s d = Some ob \<Longrightarrow> put_object d ob s = s"
  by (simp add: put_object_def fun_upd_idem)

lemma objects_put [simp]: "objects (put_object d ob s) = (objects s)(d \<mapsto> ob)"
  by (simp add: put_object_def)

text \<open>A change of one object, of the work and of the references the program holds that moves
  references around without creating or losing any keeps the accounts.\<close>

lemma accounts_rewrite:
  assumes acc: "accounts ov s ws ext" and ws: "freed ws = []" "freed ws' = []"
    and ob: "objects s d = Some ob" "refcount ob' = refcount ob"
    and ov: "\<And>x. x \<noteq> d \<Longrightarrow> ov' x = ov x" "dom ov' \<subseteq> set_mset ext'"
    and refs: "held ov' [d \<mapsto> ob'] d + released ws' + ext' = held ov [d \<mapsto> ob] d + released ws + ext"
  shows "accounts ov' (put_object d ob' s) ws' ext'"
proof -
  let ?s' = "put_object d ob' s"
  define A where "A = dom (objects s) - {d}"
  have fin: "finite A" using acc by (simp add: accounts_def A_def)
  have dom: "dom (objects ?s') = insert d A" "dom (objects s) = insert d A" using ob by (auto simp: A_def)
  have dA: "d \<notin> A" by (simp add: A_def)
  have "(\<Sum>x \<in> A. held ov' (objects ?s') x) = (\<Sum>x \<in> A. held ov (objects s) x)"
    by (rule sum.cong) (auto simp: A_def held_def ov split: option.split)
  moreover have "held ov' (objects ?s') d = held ov' [d \<mapsto> ob'] d" "held ov (objects s) d = held ov [d \<mapsto> ob] d"
    using ob by (simp_all add: held_def split: option.split)
  ultimately have all: "all_refs ov' ?s' ws' ext' = all_refs ov s ws ext"
    using fin dA refs unfolding all_refs_def ws dom by (simp add: add.assoc)
  have "exact_count (count (all_refs ov s ws ext) x) ox" if "objects ?s' x = Some ox" for x ox
    using that ob accounts_count [OF acc] ws(1) by (cases "x = d") (auto simp: exact_count_def)
  then show ?thesis
    using acc ov(2) ws dom unfolding accounts_def all by (auto simp: put_object_def)
qed

lemma accounts_shift:
  assumes "accounts ov s ws ext" "freed ws = []" "freed ws' = []" "objects s d = Some ob"
    "\<And>x. x \<noteq> d \<Longrightarrow> ov' x = ov x" "dom ov' \<subseteq> set_mset ext'"
    "held ov' [d \<mapsto> ob] d + released ws' + ext' = held ov [d \<mapsto> ob] d + released ws + ext"
  shows "accounts ov' s ws' ext'"
  using accounts_rewrite [OF assms(1-4) refl assms(5-7)] assms(4) by simp

lemma read_dict_owned:
  assumes "accounts ov s ws ext" "d \<in># ext"
  shows "read_dict s d = Some (Some ds) \<longleftrightarrow> (\<exists>ob. objects s d = Some ob \<and> body ob = dict_body ds)"
proof -
  obtain ob where ob: "objects s d = Some ob" using ext_alive [OF assms] by blast
  then have "owned d" using assms(1) by (auto simp: accounts_def)
  then have "read_dict s d = Some (as_dict (body ob))"
    using ob by (simp add: read_dict_def read_body_def deref_def owned_def)
  moreover have "as_dict b = Some ds \<longleftrightarrow> b = dict_body ds" for b by (cases b; cases ds) auto
  ultimately show ?thesis using ob by auto
qed

lemma slots_dict: "holds ds es \<Longrightarrow> slots (dict_body ds) = filter owned (map snd es)"
  by (cases ds) simp

lemma find_holds: "holds (ks, vs, n) es \<Longrightarrow> find_key k (take n ks) = Some (position k es)"
  by (auto simp: find_key_position)

lemma get_value_look:
  assumes "read_dict s d = Some (Some ds)" "holds ds es"
  shows "xpc_dictionary_get_value s d (Some k) = Some (case map_of es k of Some v \<Rightarrow> v | None \<Rightarrow> NULL)"
proof -
  obtain ks vs where ds: "ds = (ks, vs, length es)" using assms(2) by (cases ds) simp
  have vs: "vs ! i = snd (es ! i)" if "i < length es" for i
    using that assms(2) by (metis ds holds.simps nth_map nth_take)
  show ?thesis
    using assms(1) find_holds [OF assms(2) [unfolded ds]] position_None [of k es]
    by (cases "position k es") (auto simp: xpc_dictionary_get_value_def ds vs map_of_eq_None_iff [symmetric] dest: position_Some)
qed

lemma released_one: "released [Release r] = own r"
  by (simp add: own_def)

lemma held_simps: "held [d \<mapsto> rs] [d \<mapsto> ob] d = mset rs" "held Map.empty [d \<mapsto> ob] d = mset (slots (body ob))"
  by (simp_all add: held_def)

text \<open>Releasing one slot of a container and then storing the new body.\<close>

lemma release_then_store:
  assumes acc: "accounted s ext0" and d: "d \<in># ext" "objects s d = Some ob"
    and refs: "mset (slots b) + own old + ext = mset (slots (body ob)) + ext0"
  shows "\<exists>s1 s' ob1. xpc_release env old s = Some s1 \<and> set_body d b s1 = Some s' \<and> accounted s' ext \<and> kept s s1 \<and>
    objects s1 d = Some ob1 \<and> s' = put_object d (ob1\<lparr>body := b\<rparr>) s1"
proof -
  have "accounts [d \<mapsto> slots b] s [Release old] ext"
    by (rule accounts_shift [OF acc _ _ d(2)]) (use d(1) refs in \<open>simp_all add: held_simps released_one del: released.simps(2)\<close>)
  then obtain s1 where s1: "xpc_release env old s = Some s1" "accounts [d \<mapsto> slots b] s1 [] ext" "kept s s1"
    using run_work_accounts [of _ s _ ext env] unfolding xpc_release_def by blast
  obtain ob1 where ob1: "objects s1 d = Some ob1" using ext_alive [OF s1(2) d(1)] by blast
  have "accounted (put_object d (ob1\<lparr>body := b\<rparr>) s1) ext"
    by (rule accounts_rewrite [OF s1(2) _ _ ob1]) (simp_all add: held_simps)
  then show ?thesis using s1 ob1 by (auto simp: set_body_def)
qed

text \<open>Storing a body with one more slot and then retaining the value in it.\<close>

lemma store_then_retain:
  assumes acc: "accounted s ext" and d: "d \<in># ext" "objects s d = Some ob"
    and refs: "mset (slots b) = mset (slots (body ob)) + own v" and v: "own v \<subseteq># ext"
    and room: "\<And>ob. objects s v = Some ob \<Longrightarrow> sint (refcount ob) < 2 ^ 31 - 1"
  shows "\<exists>s'. xpc_retain v (put_object d (ob\<lparr>body := b\<rparr>) s) = Some s' \<and> accounted s' ext \<and>
    kept (put_object d (ob\<lparr>body := b\<rparr>) s) s'"
proof -
  let ?s1 = "put_object d (ob\<lparr>body := b\<rparr>) s" and ?ov = "[d \<mapsto> slots (body ob)]"
  have acc1: "accounts ?ov ?s1 [] ext"
    by (rule accounts_rewrite [OF acc _ _ d(2)]) (use d(1) in \<open>simp_all add: held_simps\<close>)
  have "owned v \<Longrightarrow> v \<in># ext" using v by (simp add: own_def)
  then have live: "owned v \<Longrightarrow> v \<in> living ?s1 []" using ext_alive [OF acc] by (auto simp: dom_def)
  have room1: "objects ?s1 v = Some ox \<Longrightarrow> sint (refcount ox) < 2 ^ 31 - 1" for ox
    using room d(2) by (cases "v = d") auto
  obtain s' where s': "xpc_retain v ?s1 = Some s'" "accounts ?ov s' [] (own v + ext)" "kept ?s1 s'"
    using retain_accounts [OF acc1 live room1] by blast
  obtain ob' where ob': "objects s' d = Some ob'" using ext_alive [OF s'(2)] d(1) by (auto simp: own_def)
  then have "\<exists>oc. objects ?s1 d = Some oc \<and> body ob' = body oc" using s'(3) unfolding kept_def by blast
  then have b': "body ob' = b" by simp
  have "accounted s' ext"
    by (rule accounts_shift [OF s'(2) _ _ ob']) (simp_all add: held_simps b' refs)
  then show ?thesis using s' by blast
qed

section \<open>Setting a value\<close>

text \<open>Nothing but \<open>d\<close> changes its body and nothing is created.\<close>

definition kept_but :: "ref \<Rightarrow> 'w xpc \<Rightarrow> 'w xpc \<Rightarrow> bool" where
  "kept_but d s s' \<longleftrightarrow> brk s' = brk s \<and> failures s' = failures s \<and>
     (\<forall>r ob'. r \<noteq> d \<longrightarrow> objects s' r = Some ob' \<longrightarrow>
        (\<exists>ob. objects s r = Some ob \<and> body ob' = body ob \<and> reply_port ob' = reply_port ob))"

lemma kept_imp_but: "kept s s' \<Longrightarrow> kept_but d s s'"
  by (simp add: kept_def kept_but_def)

lemma kept_but_trans: "kept_but d s t \<Longrightarrow> kept_but d t u \<Longrightarrow> kept_but d s u"
  unfolding kept_but_def by metis

lemma kept_but_put: "kept_but d s (put_object d ob s)"
  by (simp add: kept_but_def put_object_def)

text \<open>What an operation on container \<open>d\<close> leaves: exact counts, its new body and all other bodies.\<close>

definition updates :: "ref multiset \<Rightarrow> ref \<Rightarrow> xpc_body \<Rightarrow> 'w xpc \<Rightarrow> 'w xpc \<Rightarrow> bool" where
  "updates ext d b s s' \<longleftrightarrow> accounted s' ext \<and> map_option body (objects s' d) = Some b \<and>
     kept_but d s s'"

lemma kept_fields: "kept s s' \<Longrightarrow> failures s' = failures s" "kept s s' \<Longrightarrow> brk s' = brk s"
  by (simp_all add: kept_def)

lemma kept_body: "kept s s' \<Longrightarrow> objects s d = Some ob \<Longrightarrow> objects s' d = Some ob' \<Longrightarrow> body ob' = body ob \<and> reply_port ob' = reply_port ob"
  by (fastforce simp: kept_def)

lemma kept_but_same:
  assumes "kept_but d s s'" "accounted s' ext"
  shows "same_bodies (set_mset ext - {d}) s s'"
  unfolding same_bodies_def
proof
  fix x
  assume x: "x \<in> set_mset ext - {d}"
  then obtain ox where "objects s' x = Some ox" using ext_alive [OF assms(2)] by blast
  then show "map_option body (objects s' x) = map_option body (objects s x) \<and>
      map_option reply_port (objects s' x) = map_option reply_port (objects s x)"
    using x assms(1) unfolding kept_but_def by (metis DiffD2 insertI1 option.map(2))
qed

lemma release_store_updates:
  assumes acc: "accounted s ext0" and d: "d \<in># ext" "objects s d = Some ob"
    and refs: "mset (slots b) + own old + ext = mset (slots (body ob)) + ext0"
  shows "\<exists>s1 s'. xpc_release env old s = Some s1 \<and> set_body d b s1 = Some s' \<and> updates ext d b s s'"
proof -
  obtain s1 s' ob1 where s1: "xpc_release env old s = Some s1" "set_body d b s1 = Some s'" "accounted s' ext" "kept s s1"
    "objects s1 d = Some ob1" "s' = put_object d (ob1\<lparr>body := b\<rparr>) s1"
    using release_then_store [OF acc d refs] by blast
  have "kept_but d s s'" unfolding s1(6) by (rule kept_but_trans [OF kept_imp_but [OF s1(4)] kept_but_put])
  then show ?thesis using s1 by (auto simp: updates_def)
qed

lemma store_retain_updates:
  assumes acc: "accounted s ext" and d: "d \<in># ext" "objects s d = Some ob"
    and refs: "mset (slots b) = mset (slots (body ob)) + own v" and v: "own v \<subseteq># ext"
    and room: "\<And>ob. objects s v = Some ob \<Longrightarrow> sint (refcount ob) < 2 ^ 31 - 1"
  shows "\<exists>s1 s'. set_body d b s = Some s1 \<and> xpc_retain v s1 = Some s' \<and> updates ext d b s s'"
proof -
  let ?s1 = "put_object d (ob\<lparr>body := b\<rparr>) s"
  obtain s' where s': "xpc_retain v ?s1 = Some s'" "accounted s' ext" "kept ?s1 s'"
    using store_then_retain [OF acc d refs v room] by blast
  obtain ob' where ob': "objects s' d = Some ob'" using ext_alive [OF s'(2) d(1)] by blast
  have "kept_but d s s'" by (rule kept_but_trans [OF kept_but_put kept_imp_but [OF s'(3)]])
  then show ?thesis
    using s' d(2) kept_body [OF s'(3) _ ob'] ob' by (auto simp: updates_def set_body_def)
qed

abbreviation new_slots :: "cstring \<Rightarrow> ref \<Rightarrow> dict_slots \<Rightarrow> dict_slots" where
  "new_slots k v ds \<equiv> (if v = NULL then slots_del k ds else slots_put k v ds)"

lemma mset_owned: "mset (filter owned xs) = filter_mset owned (mset xs)"
  by simp

lemma own_filter: "own v = filter_mset owned {#v#}"
  by (simp add: own_def)

lemma slots_put_refs:
  assumes "holds ds es" "distinct (map fst es)"
  shows "mset (slots (dict_body (slots_put k v ds))) + (case map_of es k of Some w \<Rightarrow> own w | None \<Rightarrow> {#}) =
    own v + mset (slots (dict_body ds))"
proof -
  obtain es' where es': "holds (slots_put k v ds) es'"
    and m: "add_mset v (mset (map snd es)) = mset (map snd es') + (case map_of es k of Some w \<Rightarrow> {#w#} | None \<Rightarrow> {#})"
    using slots_put_spec [OF assms] by blast
  have "filter_mset owned (add_mset v (mset (map snd es))) =
      filter_mset owned (mset (map snd es')) + (case map_of es k of Some w \<Rightarrow> own w | None \<Rightarrow> {#})"
    unfolding m by (simp add: own_filter split: option.split)
  then show ?thesis by (auto simp: slots_dict [OF es'] slots_dict [OF assms(1)] own_def split: if_splits)
qed

lemma slots_del_refs:
  assumes "holds ds es" "distinct (map fst es)"
  shows "mset (slots (dict_body (slots_del k ds))) + (case map_of es k of Some w \<Rightarrow> own w | None \<Rightarrow> {#}) =
    mset (slots (dict_body ds))"
proof -
  obtain es' where es': "holds (slots_del k ds) es'"
    and m: "mset (map snd es) = mset (map snd es') + (case map_of es k of Some w \<Rightarrow> {#w#} | None \<Rightarrow> {#})"
    using slots_del_spec [OF assms] by blast
  have "filter_mset owned (mset (map snd es)) =
      filter_mset owned (mset (map snd es')) + (case map_of es k of Some w \<Rightarrow> own w | None \<Rightarrow> {#})"
    unfolding m by (simp add: own_filter split: option.split)
  then show ?thesis by (simp add: slots_dict [OF es'] slots_dict [OF assms(1)])
qed

text \<open>The branches of the operation over the entries.\<close>

lemma set_value_branches:
  assumes "read_dict s d = Some (Some ds)" "holds ds es"
  shows "xpc_dictionary_set_value env d (Some k) v s =
    (case position k es of
       Some i \<Rightarrow> do {
         s0 \<leftarrow> (if v = NULL then Some s else xpc_retain v s);
         s1 \<leftarrow> xpc_release env (snd (es ! i)) s0;
         set_body d (dict_body (new_slots k v ds)) s1 }
     | None \<Rightarrow> if v = NULL then Some s else dict_insert d k v ds s)"
proof -
  obtain ks vs where ds: "ds = (ks, vs, length es)" using assms(2) by (cases ds) simp
  have "vs ! i = snd (es ! i)" if "i < length es" for i using that assms(2) by (metis ds holds.simps nth_map nth_take)
  then show ?thesis
    using assms(1) find_holds [OF assms(2) [unfolded ds]] key_at_position [OF assms(2), of k]
    by (cases "position k es") (auto simp: xpc_dictionary_set_value_def slots_put_def slots_del_def ds dest: position_Some)
qed

lemma insert_updates:
  assumes acc: "accounted s ext" and d: "d \<in># ext" "objects s d = Some ob" "body ob = dict_body ds"
    and es: "holds ds es" "distinct (map fst es)" "position k es = None" and v: "own v \<subseteq># ext"
    and room: "\<And>ob. objects s v = Some ob \<Longrightarrow> sint (refcount ob) < 2 ^ 31 - 1" and f: "failures s = []"
  shows "\<exists>s'. dict_insert d k v ds s = Some s' \<and> updates ext d (dict_body (slots_put k v ds)) s s'"
proof -
  let ?b = "dict_body (slots_put k v ds)"
  have none: "map_of es k = None" using es(3) by (simp add: position_None map_of_eq_None_iff)
  have b: "slots_put k v ds = slots_push (Some k) v (slots_room ds)"
    using es(3) by (simp add: slots_put_def key_at_position [OF es(1)])
  have "mset (slots ?b) = mset (slots (body ob)) + own v" using slots_put_refs [OF es(1,2), of k v] none d(3) by simp
  then obtain s1 s' where s': "set_body d ?b s = Some s1" "xpc_retain v s1 = Some s'" "updates ext d ?b s s'"
    using store_retain_updates [OF acc d(1,2) _ v room] by blast
  have "grow_if_full ds s = Some (slots_room ds, s)"
    using f by (cases ds) (simp add: grow_if_full_def slots_room_def try_alloc_def)
  then have "dict_insert d k v ds s = Some s'"
    using s'(1,2) f unfolding dict_insert_def b by (simp add: try_alloc_def)
  then show ?thesis using s'(3) by blast
qed

lemma replace_updates:
  assumes acc: "accounted s ext" and d: "d \<in># ext" "objects s d = Some ob" "body ob = dict_body ds"
    and es: "holds ds es" "distinct (map fst es)" "map_of es k = Some old" and v: "own v \<subseteq># ext"
    and room: "\<And>ob. objects s v = Some ob \<Longrightarrow> sint (refcount ob) < 2 ^ 31 - 1"
  shows "\<exists>s0 s1 s'. xpc_retain v s = Some s0 \<and> xpc_release env old s0 = Some s1 \<and>
    set_body d (dict_body (slots_put k v ds)) s1 = Some s' \<and> updates ext d (dict_body (slots_put k v ds)) s s'"
proof -
  let ?b = "dict_body (slots_put k v ds)"
  have live: "owned v \<Longrightarrow> v \<in> living s []" using v ext_alive [OF acc] by (auto simp: own_def)
  obtain s0 where s0: "xpc_retain v s = Some s0" "accounted s0 (own v + ext)" "kept s s0"
    using retain_accounts [OF acc live room] by blast
  obtain ob0 where ob0: "objects s0 d = Some ob0" using ext_alive [OF s0(2)] d(1) by auto
  have "mset (slots ?b) + own old + ext = mset (slots (body ob0)) + (own v + ext)"
    using slots_put_refs [OF es(1,2), of k v] es(3) d(3) kept_body [OF s0(3) d(2) ob0] by simp
  then obtain s1 s' where s': "xpc_release env old s0 = Some s1" "set_body d ?b s1 = Some s'" "updates ext d ?b s0 s'"
    using release_store_updates [OF s0(2) d(1) ob0] by blast
  have "updates ext d ?b s s'"
    using s'(3) kept_but_trans [OF kept_imp_but [OF s0(3)]] by (auto simp: updates_def)
  then show ?thesis using s0(1) s'(1,2) by blast
qed

lemma set_value_updates:
  assumes acc: "accounted s ext" and d: "d \<in># ext" "objects s d = Some ob" "body ob = dict_body ds"
    and es: "holds ds es" "distinct (map fst es)" and v: "own v \<subseteq># ext"
    and room: "\<And>ob. objects s v = Some ob \<Longrightarrow> sint (refcount ob) < 2 ^ 31 - 1" and f: "failures s = []"
  shows "\<exists>s'. xpc_dictionary_set_value env d (Some k) v s = Some s' \<and> updates ext d (dict_body (new_slots k v ds)) s s'"
proof -
  have "read_dict s d = Some (Some ds)" using read_dict_owned [OF acc d(1)] d(2,3) by blast
  note branches = set_value_branches [OF this es(1), of env k v]
  show ?thesis
  proof (cases "position k es")
    case None
    have "slots_del k ds = ds" using None by (simp add: slots_del_def key_at_position [OF es(1)])
    moreover have "updates ext d (dict_body ds) s s" using acc d by (simp add: updates_def kept_but_def)
    ultimately show ?thesis
      using insert_updates [OF acc d es None v room f] branches by (cases "v = NULL") (simp_all add: None)
  next
    case (Some i)
    have old: "map_of es k = Some (snd (es ! i))" using position_Some [OF Some] by simp
    show ?thesis
    proof (cases "v = NULL")
      case True
      have "mset (slots (dict_body (slots_del k ds))) + own (snd (es ! i)) + ext = mset (slots (body ob)) + ext"
        using slots_del_refs [OF es, of k] old d(3) by simp
      from release_store_updates [OF acc d(1,2) this, of env] show ?thesis using branches by (auto simp: Some True)
    next
      case False
      then show ?thesis using replace_updates [OF acc d es old v room, of env] by (auto simp: branches Some)
    qed
  qed
qed

text \<open>
  C8. A dictionary is a map: for a dictionary the program holds a reference to, whose keys are all
  there and different, and for a value the program holds a reference to or \<open>NULL\<close>, setting returns,
  and afterwards every lookup gives the value set for its key and what it gave before for all other
  keys, where \<open>NULL\<close> removes the key; the reference counts are exact again, with the program holding
  the same references as before, and every other object the program refers to is unchanged.
\<close>

theorem set_value_refines_map:
  assumes "accounted s ext" and "d \<in># ext" and "read_dict s d = Some (Some ds)" and "wf_slots ds"
    and "own v \<subseteq># ext" and "\<forall>ob. objects s v = Some ob \<longrightarrow> sint (refcount ob) < 2 ^ 31 - 1" and "failures s = []"
  shows "\<exists>s' ds'. xpc_dictionary_set_value env d (Some k) v s = Some s' \<and> accounted s' ext \<and>
    read_dict s' d = Some (Some ds') \<and> wf_slots ds' \<and> same_bodies (set_mset ext - {d}) s s' \<and>
    (\<forall>k'. xpc_dictionary_get_value s' d (Some k') = (if k' = k then Some v else xpc_dictionary_get_value s d (Some k')))"
proof -
  obtain es where es: "holds ds es" "distinct (map fst es)" using wf_cases [OF assms(4)] .
  obtain ob where ob: "objects s d = Some ob" "body ob = dict_body ds" using read_dict_owned [OF assms(1,2)] assms(3) by blast
  let ?ds = "new_slots k v ds"
  obtain s' where s': "xpc_dictionary_set_value env d (Some k) v s = Some s'" "updates ext d (dict_body ?ds) s s'"
    using set_value_updates [OF assms(1,2) ob es assms(5) _ assms(7)] assms(6) by blast
  have read: "read_dict s' d = Some (Some ?ds)"
    using s'(2) read_dict_owned [of _ s' _ ext d ?ds] assms(2) unfolding updates_def by auto
  have wf: "wf_slots ?ds" and look: "slots_look ?ds = (slots_look ds)(k := if v = NULL then None else Some v)"
    using assms(4) by (simp_all add: dict.put_inv dict.del_inv dict.look_put dict.look_del)
  obtain es' where es': "holds ?ds es'" using wf_cases [OF wf] .
  have "xpc_dictionary_get_value s' d (Some k') = (if k' = k then Some v else xpc_dictionary_get_value s d (Some k'))" for k'
    using get_value_look [OF read es', of k'] get_value_look [OF assms(3) es(1), of k'] look
    unfolding look_holds [OF es'] look_holds [OF es(1)] by (auto simp: fun_upd_apply)
  then show ?thesis using s' read wf kept_but_same unfolding updates_def by blast
qed

section \<open>The values of a dictionary\<close>

text \<open>What the keys stand for: the bodies of the values.\<close>

definition dict_view :: "'w xpc \<Rightarrow> dict_slots \<Rightarrow> cstring \<Rightarrow> xpc_body option" where
  "dict_view s ds k = Option.bind (slots_look ds k) (\<lambda>v. map_option body (deref s v))"

text \<open>A dictionary at \<open>d\<close> that the program refers to and that does not contain itself.\<close>

definition dict_at :: "'w xpc \<Rightarrow> ref multiset \<Rightarrow> ref \<Rightarrow> dict_slots \<Rightarrow> bool" where
  "dict_at s ext d ds \<longleftrightarrow> accounted s ext \<and> d \<in># ext \<and> read_dict s d = Some (Some ds) \<and> wf_slots ds \<and>
     d \<notin> ran (slots_look ds) \<and> failures s = []"

lemma slot_alive:
  assumes "accounts Map.empty s [] ext" "objects s d = Some ob" "r \<in> set (slots (body ob))"
  shows "\<exists>ox. objects s r = Some ox"
proof -
  have "finite (dom (objects s))" using assms(1) by (simp add: accounts_def)
  moreover have "d \<in> dom (objects s)" using assms(2) by blast
  moreover have "r \<in># held Map.empty (objects s) d" using assms(2,3) by (simp add: held_def)
  ultimately have "r \<in># (\<Sum>x \<in> dom (objects s). held Map.empty (objects s) x)"
    by (metis (no_types, lifting) UnCI set_mset_union sum.remove)
  then have "r \<in># all_refs Map.empty s [] ext" by (simp add: all_refs_def)
  then show ?thesis using assms(1) by (auto simp: accounts_def)
qed

lemma value_alive:
  assumes "accounted s ext" "d \<in># ext" "read_dict s d = Some (Some ds)" "wf_slots ds" "slots_look ds k = Some v" "owned v"
  shows "\<exists>ox. objects s v = Some ox"
proof -
  obtain es where es: "holds ds es" using wf_cases [OF assms(4)] .
  obtain ob where ob: "objects s d = Some ob" "body ob = dict_body ds" using read_dict_owned [OF assms(1,2)] assms(3) by blast
  have "(k, v) \<in> set es" using assms(5) look_holds [OF es] by (simp add: map_of_SomeD)
  then have "v \<in> set (slots (body ob))" using assms(6) ob(2) slots_dict [OF es] by force
  then show ?thesis using slot_alive [OF assms(1) ob(1)] by blast
qed

lemma deref_same:
  assumes "kept_but d s s'" "v \<noteq> d" "v \<noteq> NULL" "owned v \<Longrightarrow> \<exists>ox. objects s' v = Some ox"
  shows "map_option body (deref s' v) = map_option body (deref s v)"
proof (cases "owned v")
  case True
  then obtain ox where ox: "objects s' v = Some ox" using assms(4) by blast
  then obtain oy where "objects s v = Some oy" "body ox = body oy" using assms(1,2) unfolding kept_but_def by blast
  then show ?thesis using True ox by (simp add: deref_def owned_def)
next
  case False
  then show ?thesis using assms(3) by (simp add: owned_def deref_def)
qed

lemma look_nonnull:
  assumes "wf_slots ds" "slots_look ds k = Some v"
  shows "v \<noteq> NULL"
proof -
  obtain es where es: "holds ds es" "NULL \<notin> snd ` set es" using wf_cases [OF assms(1)] .
  then have "(k, v) \<in> set es" using assms(2) look_holds [OF es(1)] by (simp add: map_of_SomeD)
  then show ?thesis using es(2) by force
qed

text \<open>Setting a value the program holds: the view changes at its key.\<close>

lemma set_value_view:
  assumes d: "dict_at s ext d ds" and v: "own v \<subseteq># ext" "v \<noteq> NULL" "v \<noteq> d"
    and room: "\<And>ob. objects s v = Some ob \<Longrightarrow> sint (refcount ob) < 2 ^ 31 - 1"
  shows "\<exists>s' ds'. xpc_dictionary_set_value env d (Some k) v s = Some s' \<and> dict_at s' ext d ds' \<and>
    slots_look ds' k = Some v \<and> dict_view s' ds' = (dict_view s ds)(k := map_option body (deref s v)) \<and> brk s' = brk s \<and>
    kept_but d s s'"
proof -
  have acc: "accounted s ext" "d \<in># ext" "read_dict s d = Some (Some ds)" and wf: "wf_slots ds" and f: "failures s = []"
    and nd: "d \<notin> ran (slots_look ds)" using d by (simp_all add: dict_at_def)
  obtain es where es: "holds ds es" "distinct (map fst es)" using wf_cases [OF wf] .
  obtain ob where ob: "objects s d = Some ob" "body ob = dict_body ds" using read_dict_owned [OF acc(1,2)] acc(3) by blast
  define ds' where "ds' = slots_put k v ds"
  obtain s' where s': "xpc_dictionary_set_value env d (Some k) v s = Some s'" "updates ext d (dict_body ds') s s'"
    using set_value_updates [OF acc(1,2) ob es v(1) room f, of env k] v(2) by (auto simp: ds'_def)
  have up: "accounted s' ext" "kept_but d s s'" using s'(2) by (simp_all add: updates_def)
  have read: "read_dict s' d = Some (Some ds')"
    using s'(2) read_dict_owned [OF up(1) acc(2), of ds'] unfolding updates_def by auto
  have wf': "wf_slots ds'" and look: "slots_look ds' = (slots_look ds)(k \<mapsto> v)"
    using wf v(2) by (simp_all add: ds'_def dict.put_inv dict.look_put)
  have at: "dict_at s' ext d ds'"
    using up read wf' look nd v(3) f acc(2) by (auto simp: dict_at_def kept_but_def ran_def)
  have same: "map_option body (deref s' x) = map_option body (deref s x)"
    if "slots_look ds' k' = Some x" for x k'
  proof (rule deref_same [OF up(2)])
    show "x \<noteq> d" using that look nd v(3) by (auto simp: ran_def split: if_splits)
    show "x \<noteq> NULL" using look_nonnull [OF wf' that] .
    show "\<exists>ox. objects s' x = Some ox" if "owned x" using value_alive [OF up(1) acc(2) read wf' \<open>slots_look ds' k' = Some x\<close> that] .
  qed
  have "dict_view s' ds' = (dict_view s ds)(k := map_option body (deref s v))"
  proof
    fix k'
    show "dict_view s' ds' k' = ((dict_view s ds)(k := map_option body (deref s v))) k'"
      using same [of k'] look by (cases "slots_look ds' k'") (auto simp: dict_view_def split: if_splits)
  qed
  moreover have "brk s' = brk s" using up(2) by (simp add: kept_but_def)
  ultimately show ?thesis using s'(1) at look up(2) by (intro exI [of _ s'] exI [of _ ds']) simp
qed

lemma alloc_no_failure:
  "failures s = [] \<Longrightarrow> xpc_alloc b s =
     (brk s, (put_object (brk s) \<lparr>refcount = 1, reply_port = 0, body = b\<rparr> s)\<lparr>brk := Suc (brk s)\<rparr>)"
  by (simp add: xpc_alloc_def try_alloc_def)

lemma buffer_no_failure: "failures s = [] \<Longrightarrow> alloc_with_buffer b s = xpc_alloc b s"
  by (simp add: alloc_with_buffer_def alloc_no_failure try_alloc_def put_object_def)

lemma dict_at_grow:
  assumes "dict_at s ext d ds" "accounted s' (x + ext)" "same_bodies (dom (objects s)) s s'" "failures s' = []"
  shows "dict_at s' (x + ext) d ds" and "dict_view s' ds = dict_view s ds"
proof -
  have acc: "accounted s ext" "d \<in># ext" "read_dict s d = Some (Some ds)" and wf: "wf_slots ds"
    using assms(1) by (simp_all add: dict_at_def)
  obtain ob where ob: "objects s d = Some ob" "body ob = dict_body ds" using read_dict_owned [OF acc(1,2)] acc(3) by blast
  then have "d \<in> dom (objects s)" by blast
  then have "map_option body (objects s' d) = map_option body (objects s d)" using assms(3) unfolding same_bodies_def by blast
  then have "map_option body (objects s' d) = Some (dict_body ds)" using ob by simp
  then have "read_dict s' d = Some (Some ds)" using read_dict_owned [OF assms(2), of d ds] acc(2) by auto
  then show "dict_at s' (x + ext) d ds" using assms by (auto simp: dict_at_def)
  have "map_option body (deref s' v) = map_option body (deref s v)" if "slots_look ds k = Some v" for v k
    using assms(3) value_alive [OF acc wf that] look_nonnull [OF wf that]
    by (cases "owned v") (auto simp: deref_def same_bodies_def owned_def)
  then show "dict_view s' ds = dict_view s ds" by (auto simp: dict_view_def fun_eq_iff split: bind_split)
qed

lemma dict_at_kept:
  assumes "dict_at s ext0 d ds" "kept s s'" "accounted s' ext" "d \<in># ext"
  shows "dict_at s' ext d ds" and "dict_view s' ds = dict_view s ds"
proof -
  have acc: "accounted s ext0" "d \<in># ext0" "read_dict s d = Some (Some ds)" and wf: "wf_slots ds" and nd: "d \<notin> ran (slots_look ds)"
    using assms(1) by (simp_all add: dict_at_def)
  obtain ob where ob: "objects s d = Some ob" "body ob = dict_body ds" using read_dict_owned [OF acc(1,2)] acc(3) by blast
  obtain ob' where ob': "objects s' d = Some ob'" using ext_alive [OF assms(3,4)] by blast
  then have read: "read_dict s' d = Some (Some ds)"
    using read_dict_owned [OF assms(3,4), of ds] kept_body [OF assms(2) ob(1) ob'] ob(2) by auto
  then show "dict_at s' ext d ds" using assms by (auto simp: dict_at_def kept_def)
  have "map_option body (deref s' v) = map_option body (deref s v)" if "slots_look ds k = Some v" for v k
    using value_alive [OF assms(3,4) read wf that] look_nonnull [OF wf that] that nd
    by (intro deref_same [OF kept_imp_but [OF assms(2), of d]]) (auto simp: ran_def)
  then show "dict_view s' ds = dict_view s ds" by (auto simp: dict_view_def fun_eq_iff split: bind_split)
qed

lemma set_fresh_view:
  assumes d: "dict_at s ext d ds" and b: "slots b = []"
  shows "\<exists>s' ds'. set_and_release env d (Some k) (xpc_alloc b s) = Some s' \<and> dict_at s' ext d ds' \<and>
    dict_view s' ds' = (dict_view s ds)(k \<mapsto> b)"
proof -
  have acc: "accounted s ext" "d \<in># ext" "failures s = []" using d by (simp_all add: dict_at_def)
  obtain v s1 where run: "xpc_alloc b s = (v, s1)" by fastforce
  have v: "v \<noteq> NULL" "failures s1 = []"
    using run acc(3) acc(1) unfolding alloc_no_failure [OF acc(3)] by (auto simp: accounts_def put_object_def)
  note new = alloc_accounts [OF acc(1) b run]
  have nv: "owned v" "objects s v = None" "objects s1 v = Some \<lparr>refcount = 1, reply_port = 0, body = b\<rparr>" using new v(1) by simp_all
  have d1: "dict_at s1 (own v + ext) d ds" "dict_view s1 ds = dict_view s ds"
    using dict_at_grow [OF d, of s1 "own v"] new v(2) by simp_all
  have "v \<noteq> d" using nv(2) ext_alive [OF acc(1,2)] by auto
  then obtain s2 ds' where s2: "xpc_dictionary_set_value env d (Some k) v s1 = Some s2" "dict_at s2 (own v + ext) d ds'"
    "slots_look ds' k = Some v" "dict_view s2 ds' = (dict_view s1 ds)(k := map_option body (deref s1 v))"
    using set_value_view [OF d1(1), of v env k] v(1) nv(3) by auto
  have acc2: "accounted s2 (own v + ext)" using s2(2) by (simp add: dict_at_def)
  obtain s3 where s3: "xpc_release env v s2 = Some s3" "accounted s3 ext" "kept s2 s3"
    using release_accounts [OF acc2, of env] by auto
  have d3: "dict_at s3 ext d ds'" "dict_view s3 ds' = dict_view s2 ds'"
    using dict_at_kept [OF s2(2) s3(3,2) acc(2)] by simp_all
  have "deref s1 v = Some \<lparr>refcount = 1, reply_port = 0, body = b\<rparr>" using nv by (simp add: deref_def owned_def)
  then show ?thesis
    using run s2(1,4) s3(1) d3 d1(2) by (intro exI [of _ s3] exI [of _ ds']) (simp add: set_and_release_def)
qed

text \<open>An empty dictionary and a string, both held by the program.\<close>

definition dict_heap :: "unit xpc" where
  "dict_heap = (initial_xpc ())\<lparr>brk := 9, objects :=
     [7 \<mapsto> \<lparr>refcount = 1, reply_port = 0, body = XDictionary (replicate 8 None) (replicate 8 0) 0\<rparr>,
      8 \<mapsto> \<lparr>refcount = 1, reply_port = 0, body = XString [0x61]\<rparr>]\<rparr>"

lemma dict_heap_accounted: "accounted dict_heap {#7, 8#}"
proof -
  have dom: "dom (objects dict_heap) = {7, 8}" by (auto simp: dict_heap_def)
  have refs: "all_refs Map.empty dict_heap [] {#7, 8#} = {#7, 8#}"
    unfolding all_refs_def freed.simps dom by (simp add: dict_heap_def held_def)
  show ?thesis
    unfolding accounts_def refs freed.simps dom
    by (auto simp: dict_heap_def owned_def xpc_is_singleton_def exact_count_def split: if_splits)
qed

lemma dict_heap_read: "read_dict dict_heap 7 = Some (Some (replicate 8 None, replicate 8 0, 0))"
  by (simp add: read_dict_def read_body_def deref_def dict_heap_def xpc_is_singleton_def)

lemma empty_holds: "0 < n \<Longrightarrow> holds (replicate n None, replicate n 0, 0) []"
  by simp

lemma empty_wf: "0 < n \<Longrightarrow> wf_slots (replicate n None, replicate n 0, 0)"
  using wf_holds [OF empty_holds] by simp

theorem set_value_refines_map_witness:
  "\<exists>s'. xpc_dictionary_set_value quiet_env 7 (Some [0x6b]) 8 dict_heap = Some s' \<and> accounted s' {#7, 8#} \<and>
     xpc_dictionary_get_value s' 7 (Some [0x6b]) = Some 8"
proof -
  have "own 8 \<subseteq># {#7, 8#}" by (simp add: own_def)
  moreover have "\<forall>ob. objects dict_heap 8 = Some ob \<longrightarrow> sint (refcount ob) < 2 ^ 31 - 1" by (simp add: dict_heap_def)
  moreover have "failures dict_heap = []" by (simp add: dict_heap_def initial_xpc_def)
  ultimately show ?thesis
    using set_value_refines_map [OF dict_heap_accounted _ dict_heap_read empty_wf, of 8 quiet_env "[0x6b]"] by auto
qed

section \<open>A key that could not be copied\<close>

lemma find_key_hole: "k \<notin> fst ` set es \<Longrightarrow> find_key k (map (Some \<circ> fst) es @ [None]) = None"
  by (induction es) auto



section \<open>Appending to an array\<close>

lemma read_array_owned:
  assumes "accounts ov s ws ext" "a \<in># ext"
  shows "read_array s a = Some (Some (vs, n)) \<longleftrightarrow> (\<exists>ob. objects s a = Some ob \<and> body ob = XArray vs n)"
proof -
  obtain ob where ob: "objects s a = Some ob" using ext_alive [OF assms] by blast
  then have "owned a" using assms(1) by (auto simp: accounts_def)
  then have "read_array s a = Some (as_array (body ob))"
    using ob by (simp add: read_array_def read_body_def deref_def owned_def)
  moreover have "as_array b = Some (vs, n) \<longleftrightarrow> b = XArray vs n" for b by (cases b) auto
  ultimately show ?thesis using ob by auto
qed

text \<open>
  C36. Appending to an array the program holds a reference to: the value, held by the program too, is
  found behind the old elements, which keep their places, the count is one more, the capacity grows
  when needed, and the reference counts are exact again.
\<close>

theorem array_append_get:
  assumes acc: "accounted s ext" and a: "a \<in># ext" and read: "read_array s a = Some (Some (vs, n))"
    and n: "n \<le> length vs" "0 < length vs" and v: "own v \<subseteq># ext" "v \<noteq> NULL"
    and room: "\<forall>ob. objects s v = Some ob \<longrightarrow> sint (refcount ob) < 2 ^ 31 - 1" and f: "failures s = []"
  shows "\<exists>s'. xpc_array_append_value a v s = Some s' \<and> accounted s' ext \<and> xpc_array_get_count s' a = Some (Suc n) \<and>
    (\<forall>i. xpc_array_get_value s' a i = (if i = n then Some v else xpc_array_get_value s a i))"
proof -
  obtain ob where ob: "objects s a = Some ob" "body ob = XArray vs n" using read_array_owned [OF acc a] read by blast
  define ws where "ws = (if n \<ge> length vs then vs @ replicate (length vs) NULL else vs)"
  have ws: "n < length ws" "take n ws = take n vs" "array_grow_if_full vs n s = Some (ws, s)"
    using n f by (auto simp: ws_def array_grow_if_full_def try_alloc_def)
  let ?b = "XArray (ws[n := v]) n" and ?b' = "XArray (ws[n := v]) (Suc n)"
  let ?s1 = "put_object a (ob\<lparr>body := ?b\<rparr>) s"
  have acc1: "accounted ?s1 ext"
    by (rule accounts_rewrite [OF acc _ _ ob(1)]) (simp_all add: held_simps ob(2) ws)
  have live: "owned v \<Longrightarrow> v \<in> living ?s1 []" using v(1) ext_alive [OF acc] by (auto simp: own_def)
  have room1: "objects ?s1 v = Some ox \<Longrightarrow> sint (refcount ox) < 2 ^ 31 - 1" for ox
    using room ob(1) by (cases "v = a") auto
  obtain s2 where s2: "xpc_retain v ?s1 = Some s2" "accounted s2 (own v + ext)" "kept ?s1 s2"
    using retain_accounts [OF acc1 live room1] by blast
  obtain ob2 where ob2: "objects s2 a = Some ob2" using ext_alive [OF s2(2)] a by auto
  have b2: "body ob2 = ?b" using kept_body [OF s2(3) _ ob2] by simp
  let ?s3 = "put_object a (ob2\<lparr>body := ?b'\<rparr>) s2"
  have acc3: "accounted ?s3 ext"
    by (rule accounts_rewrite [OF s2(2) _ _ ob2])
      (use ws(1) in \<open>simp_all add: held_simps b2 take_Suc_conv_app_nth own_def\<close>)
  have read3: "read_array ?s3 a = Some (Some (ws[n := v], Suc n))" using read_array_owned [OF acc3 a] by simp
  have run: "xpc_array_append_value a v s = Some ?s3"
    using read v(2) ws(3) ob(1) ob2 s2(1) by (simp add: xpc_array_append_value_def set_body_def)
  have "ws[n := v] ! i = vs ! i" if "i < n" for i
    using that ws(2) by (metis nat_neq_iff nth_list_update_neq nth_take)
  then have "xpc_array_get_value ?s3 a i = (if i = n then Some v else xpc_array_get_value s a i)" for i
    using read read3 ws(1) by (auto simp: xpc_array_get_value_def)
  then show ?thesis using run acc3 read3 by (auto simp: xpc_array_get_count_def)
qed

theorem array_append_get_witness:
  "\<exists>s'. xpc_array_append_value 7 xpc_bool_true_obj array_heap = Some s' \<and> accounted s' {#7#} \<and>
     xpc_array_get_count s' 7 = Some 3 \<and> xpc_array_get_value s' 7 2 = Some xpc_bool_true_obj"
proof -
  have own7: "own 7 + {#} = {#7#}" by (simp add: own_def owned_def xpc_is_singleton_def)
  have "read_array array_heap 7 = Some (Some ([8, 8, 0, 0], 2))"
    by (simp add: read_array_def read_body_def deref_def array_heap_def xpc_is_singleton_def)
  moreover have "own 1 \<subseteq># {#7#}" "objects array_heap 1 = None" "failures array_heap = []"
    by (simp_all add: own_def owned_def xpc_is_singleton_def array_heap_def initial_xpc_def)
  ultimately show ?thesis
    using array_append_get [OF array_heap_accounted [unfolded own7], of 7 "[8, 8, 0, 0]" 2 1] by auto
qed

end
