(* ===== verification/Xpc_Wire.thy ===== *)
theory Xpc_Wire
  imports Xpc_Containers
begin

text \<open>
  The flat form of a dictionary in a message (\<open>xpc_serialize_dict\<close> and \<open>xpc_deserialize_dict\<close> of
  \<open>libxpc_impl.c\<close>). The writer fills a buffer whose size it computed before; a store outside the
  buffer is a fault. The reader works on the bytes of the array it is given a pointer to; a read
  outside the array is a fault. Lengths are 32-bit words and wrap around as in the code.
  The lemmas show that reading back what was written gives an equal dictionary, and for which
  messages the reader leaves its buffer.
\<close>

section \<open>Writing\<close>

abbreviation XPC_WIRE_MAGIC :: u32 where "XPC_WIRE_MAGIC \<equiv> 0x58504321"
abbreviation XPC_WIRE_VERSION :: u32 where "XPC_WIRE_VERSION \<equiv> 1"

definition xpc_pad4 :: "u32 \<Rightarrow> u32" where
  "xpc_pad4 n = (n + 3) AND NOT 3"

fun xpc_wire_type :: "xpc_body \<Rightarrow> u32" where
  "xpc_wire_type (XString _) = 1" | "xpc_wire_type (XInt64 _) = 2" | "xpc_wire_type (XUint64 _) = 3"
| "xpc_wire_type (XDouble _) = 4" | "xpc_wire_type (XBool _) = 5" | "xpc_wire_type (XData _ _) = 6"
| "xpc_wire_type XNull = 7" | "xpc_wire_type _ = 0"

definition key_len :: "cstring \<Rightarrow> u32" where
  "key_len k = of_nat (length k) + 1"

fun val_len :: "xpc_body \<Rightarrow> u32" where
  "val_len (XString t) = of_nat (length t) + 1"
| "val_len (XInt64 _) = 8" | "val_len (XUint64 _) = 8" | "val_len (XDouble _) = 8"
| "val_len (XBool _) = 1" | "val_len (XData n _) = ucast n" | "val_len _ = 0"

text \<open>The first pass adds up the sizes; the sum for one entry is a 32-bit one.\<close>

fun wire_total :: "'w xpc \<Rightarrow> (cstring option \<times> ref) list \<Rightarrow> u64 \<Rightarrow> u64 option" where
  "wire_total s [] sz = Some sz"
| "wire_total s ((key, v) # kvs) sz = do {
     ob \<leftarrow> deref s v;
     if xpc_wire_type (body ob) = 0 then wire_total s kvs sz
     else do {
       k \<leftarrow> key;
       wire_total s kvs (sz + ucast (4 + 4 + xpc_pad4 (key_len k) + 4 + xpc_pad4 (val_len (body ob)))) } }"

fun wire_count :: "'w xpc \<Rightarrow> (cstring option \<times> ref) list \<Rightarrow> u32 \<Rightarrow> u32 option" where
  "wire_count s [] c = Some c"
| "wire_count s ((key, v) # kvs) c = do {
     ob \<leftarrow> deref s v;
     wire_count s kvs (if xpc_wire_type (body ob) = 0 then c else c + 1) }"

definition poke :: "u8 list \<Rightarrow> nat \<Rightarrow> u8 list \<Rightarrow> u8 list option" where
  "poke buf p bs = (if p + length bs \<le> length buf then Some (overwrite buf p bs) else None)"

text \<open>The bytes the value's \<open>memcpy\<close> copies: for data as many as its length, whatever was computed before.\<close>

fun val_bytes :: "xpc_body \<Rightarrow> u8 list option" where
  "val_bytes (XString t) = Some (take (unat (val_len (XString t))) (t @ [0]))"
| "val_bytes (XInt64 v) = Some (le_split 8 v)"
| "val_bytes (XUint64 v) = Some (le_split 8 v)"
| "val_bytes (XDouble v) = Some (le_split 8 v)"
| "val_bytes (XBool b) = Some [if b then 1 else 0]"
| "val_bytes (XData n p) = (if n > 0 then do { bs \<leftarrow> p; if unat n \<le> length bs then Some (take (unat n) bs) else None }
     else Some [])"
| "val_bytes _ = Some []"

definition write_entry :: "cstring \<Rightarrow> xpc_body \<Rightarrow> nat \<Rightarrow> u8 list \<Rightarrow> (nat \<times> u8 list) option" where
  "write_entry k b p buf = do {
     b1 \<leftarrow> poke buf p (le_split 4 (xpc_wire_type b));
     b2 \<leftarrow> poke b1 (p + 4) (le_split 4 (xpc_pad4 (key_len k)));
     b3 \<leftarrow> poke b2 (p + 8) (take (unat (key_len k)) (k @ [0]));
     let q = p + 8 + unat (xpc_pad4 (key_len k));
     b4 \<leftarrow> poke b3 q (le_split 4 (val_len b));
     bs \<leftarrow> val_bytes b;
     b5 \<leftarrow> poke b4 (q + 4) bs;
     Some (q + 4 + unat (xpc_pad4 (val_len b)), b5) }"

fun write_entries :: "'w xpc \<Rightarrow> (cstring option \<times> ref) list \<Rightarrow> nat \<Rightarrow> u8 list \<Rightarrow> u8 list option" where
  "write_entries s [] p buf = Some buf"
| "write_entries s ((key, v) # kvs) p buf = do {
     ob \<leftarrow> deref s v;
     if xpc_wire_type (body ob) = 0 then write_entries s kvs p buf
     else do {
       k \<leftarrow> key;
       (p', buf') \<leftarrow> write_entry k (body ob) p buf;
       write_entries s kvs p' buf' } }"

definition xpc_serialize_dict :: "ref \<Rightarrow> 'w xpc \<Rightarrow> (u8 list option \<times> 'w xpc) option" where
  "xpc_serialize_dict d s = do {
     ds \<leftarrow> read_dict s d;
     (case ds of
        None \<Rightarrow> Some (None, s)
      | Some (ks, vs, n) \<Rightarrow> do {
          let kvs = zip (take n ks) (take n vs);
          sz \<leftarrow> wire_total s kvs 16;
          (case try_alloc s of (ok, s1) \<Rightarrow>
             if \<not> ok then Some (None, s1)
             else do {
               entry_count \<leftarrow> wire_count s kvs 0;
               buf \<leftarrow> poke (replicate (unat sz) 0) 0
                 (le_split 4 XPC_WIRE_MAGIC @ le_split 4 XPC_WIRE_VERSION @ le_split 4 entry_count @
                  le_split 4 (ucast (sz - 16) :: u32));
               buf' \<leftarrow> write_entries s kvs 16 buf;
               Some (Some buf', s1) }) }) }"

section \<open>Reading\<close>

definition peek :: "u8 list \<Rightarrow> nat \<Rightarrow> nat \<Rightarrow> u8 list option" where
  "peek buf p n = (if p + n \<le> length buf then Some (take n (drop p buf)) else None)"

definition peek32 :: "u8 list \<Rightarrow> nat \<Rightarrow> u32 option" where
  "peek32 buf p = map_option le_join (peek buf p 4)"

definition peek64 :: "u8 list \<Rightarrow> nat \<Rightarrow> u64 option" where
  "peek64 buf p = map_option le_join (peek buf p 8)"

definition peek_string :: "u8 list \<Rightarrow> nat \<Rightarrow> cstring option" where
  "peek_string buf p = (if 0 \<in> set (drop p buf) then Some (takeWhile (\<lambda>c. c \<noteq> 0) (drop p buf)) else None)"

text \<open>The setter reads its key up to the terminator, when it compares or copies it.\<close>

definition read_value :: "'w xpc_env \<Rightarrow> ref \<Rightarrow> u8 list \<Rightarrow> u32 \<Rightarrow> nat \<Rightarrow> u32 \<Rightarrow> nat \<Rightarrow> 'w xpc \<Rightarrow> 'w xpc option" where
  "read_value env dict buf kind kp vlen p s =
     (if kind = 1 then do { key \<leftarrow> peek_string buf kp; t \<leftarrow> peek_string buf p; xpc_dictionary_set_string env dict (Some key) (Some t) s }
      else if kind = 2 then do { key \<leftarrow> peek_string buf kp; v \<leftarrow> peek64 buf p; xpc_dictionary_set_int64 env dict (Some key) v s }
      else if kind = 3 then do { key \<leftarrow> peek_string buf kp; v \<leftarrow> peek64 buf p; xpc_dictionary_set_uint64 env dict (Some key) v s }
      else if kind = 4 then do { key \<leftarrow> peek_string buf kp; v \<leftarrow> peek64 buf p; xpc_dictionary_set_double env dict (Some key) v s }
      else if kind = 5 then do { key \<leftarrow> peek_string buf kp; c \<leftarrow> peek buf p 1; xpc_dictionary_set_bool env dict (Some key) (c \<noteq> [0]) s }
      else if kind = 6 then do { key \<leftarrow> peek_string buf kp; xpc_dictionary_set_data env dict (Some key) (Some (drop p buf)) (ucast vlen) s }
      else if kind = 7 then do { key \<leftarrow> peek_string buf kp; xpc_dictionary_set_value env dict (Some key) xpc_null_obj s }
      else Some s)"

fun read_entries :: "'w xpc_env \<Rightarrow> ref \<Rightarrow> u8 list \<Rightarrow> nat \<Rightarrow> nat \<Rightarrow> nat \<Rightarrow> 'w xpc \<Rightarrow> 'w xpc option" where
  "read_entries env dict buf len 0 p s = Some s"
| "read_entries env dict buf len (Suc left) p s =
     (if p + 12 \<le> len then do {
        kind \<leftarrow> peek32 buf p;
        key_plen \<leftarrow> peek32 buf (p + 4);
        let q = p + 8 + unat key_plen;
        if q > len then Some s
        else if q + 4 > len then Some s
        else do {
          vlen \<leftarrow> peek32 buf q;
          if q + 4 + unat (xpc_pad4 vlen) > len then Some s
          else do {
            s1 \<leftarrow> read_value env dict buf kind (p + 8) vlen (q + 4) s;
            read_entries env dict buf len left (q + 4 + unat (xpc_pad4 vlen)) s1 } } }
      else Some s)"

definition xpc_deserialize_dict :: "'w xpc_env \<Rightarrow> u8 list option \<Rightarrow> nat \<Rightarrow> 'w xpc \<Rightarrow> (ref \<times> 'w xpc) option" where
  "xpc_deserialize_dict env buffer len s = (case buffer of
     None \<Rightarrow> Some (NULL, s)
   | Some buf \<Rightarrow>
       if len < 16 then Some (NULL, s)
       else do {
         magic \<leftarrow> peek32 buf 0;
         version \<leftarrow> peek32 buf 4;
         n \<leftarrow> peek32 buf 8;
         if magic \<noteq> XPC_WIRE_MAGIC \<or> version \<noteq> XPC_WIRE_VERSION then Some (NULL, s)
         else do {
           (dict, s1) \<leftarrow> xpc_dictionary_create None None 0 s;
           if dict = NULL then Some (NULL, s1)
           else do {
             s2 \<leftarrow> read_entries env dict buf len (unat n) 16 s1;
             Some (dict, s2) } } })"

section \<open>The layout of a message\<close>

definition pad :: "nat \<Rightarrow> nat" where
  "pad n = (n + 3) div 4 * 4"

definition padded :: "u8 list \<Rightarrow> u8 list" where
  "padded bs = bs @ replicate (pad (length bs) - length bs) 0"

fun vbytes :: "xpc_body \<Rightarrow> u8 list" where
  "vbytes (XString t) = t @ [0]"
| "vbytes (XInt64 v) = le_split 8 v" | "vbytes (XUint64 v) = le_split 8 v" | "vbytes (XDouble v) = le_split 8 v"
| "vbytes (XBool b) = [if b then 1 else 0]"
| "vbytes (XData n p) = (case p of Some bs \<Rightarrow> bs | None \<Rightarrow> [])"
| "vbytes _ = []"

definition enc_entry :: "cstring \<times> xpc_body \<Rightarrow> u8 list" where
  "enc_entry = (\<lambda>(k, b). le_split 4 (xpc_wire_type b) @ le_split 4 (of_nat (pad (length k + 1)) :: u32) @ padded (k @ [0]) @
     le_split 4 (of_nat (length (vbytes b)) :: u32) @ padded (vbytes b))"

text \<open>Values that are what their constructors make: strings without a terminator inside, data with as
  many bytes as its length.\<close>

fun wire_ok :: "xpc_body \<Rightarrow> bool" where
  "wire_ok (XString t) \<longleftrightarrow> 0 \<notin> set t"
| "wire_ok (XData n p) \<longleftrightarrow> (case p of Some bs \<Rightarrow> 0 < n \<and> length bs = unat n | None \<Rightarrow> n = 0)"
| "wire_ok _ \<longleftrightarrow> True"

lemma pad_ge: "n \<le> pad n"
  unfolding pad_def by presburger

lemma length_padded [simp]: "length (padded bs) = pad (length bs)"
  using pad_ge [of "length bs"] by (simp add: padded_def)

lemma length_enc: "length (enc_entry (k, b)) = 12 + pad (length k + 1) + pad (length (vbytes b))"
  by (simp add: enc_entry_def)

lemma pad4_mask: "xpc_pad4 n = (n + 3) AND NOT (mask 2)"
  by (simp add: xpc_pad4_def mask_eq_exp_minus_1)

lemma pad_less: "n + 3 < 2 ^ 32 \<Longrightarrow> pad n < 2 ^ 32"
  unfolding pad_def by (meson div_times_less_eq_dividend le_less_trans)

lemma unat_pad4: "n + 3 < 2 ^ 32 \<Longrightarrow> unat (xpc_pad4 (of_nat n)) = pad n"
  using unat_and_not_mask [of "of_nat n + 3 :: u32" 2] unfolding pad4_mask
  by (simp add: pad_def unat_word_ariths unat_of_nat take_bit_nat_eq_self)

lemma pad4_of_nat: "n + 3 < 2 ^ 32 \<Longrightarrow> xpc_pad4 (of_nat n) = of_nat (pad n)"
  using unat_pad4 [of n] pad_less [of n] by (simp add: word_unat_eq_iff unat_of_nat take_bit_nat_eq_self)

lemma key_len_of_nat: "key_len k = of_nat (length k + 1)"
  by (simp add: key_len_def)

lemma val_bytes_ok:
  assumes "wire_ok b" "length (vbytes b) < 2 ^ 32"
  shows "val_bytes b = Some (vbytes b)" and "xpc_wire_type b \<noteq> 0 \<Longrightarrow> val_len b = of_nat (length (vbytes b))"
proof -
  show "val_bytes b = Some (vbytes b)"
  proof (cases b)
    case (XString t)
    have "unat (val_len b) = length t + 1" using assms(2) by (simp add: XString unat_word_ariths unat_of_nat take_bit_nat_eq_self)
    then show ?thesis by (simp add: XString)
  qed (use assms in \<open>auto split: option.splits\<close>)
  show "val_len b = of_nat (length (vbytes b))" if "xpc_wire_type b \<noteq> 0"
  proof (cases b)
    case (XData n p)
    then show ?thesis using assms by (auto split: option.splits simp: word_unat_eq_iff unsigned_ucast_eq unsigned_take_bit_eq)
  qed (use that in simp_all)
qed

lemma poke_end:
  "length bs \<le> r \<Longrightarrow> poke (pre @ replicate r 0) (length pre) bs = Some ((pre @ bs) @ replicate (r - length bs) 0)"
  by (simp add: poke_def overwrite_def)

lemma pad_zeros:
  assumes "pad (length bs) \<le> r"
  shows "xs @ bs @ replicate (r - length bs) 0 = xs @ padded bs @ replicate (r - pad (length bs)) 0"
proof -
  have "r - length bs = (pad (length bs) - length bs) + (r - pad (length bs))" using assms pad_ge [of "length bs"] by simp
  then show ?thesis by (simp add: padded_def replicate_add)
qed

text \<open>A store behind what is written, and one with padding.\<close>

lemma poke_next:
  assumes "length pre = p" "length bs \<le> r"
  shows "poke (pre @ replicate r 0) p bs = Some ((pre @ bs) @ replicate (r - length bs) 0)"
  using assms by (auto simp: poke_def overwrite_def)

lemma poke_padded:
  assumes "length pre = p" "pad (length bs) \<le> r"
  shows "poke (pre @ replicate r 0) p bs = Some ((pre @ padded bs) @ replicate (r - pad (length bs)) 0)"
  using assms poke_next [of pre p bs r] pad_ge [of "length bs"] pad_zeros [of bs r pre] by simp

lemma write_entry_enc:
  assumes "wire_ok b" "xpc_wire_type b \<noteq> 0" "length (enc_entry (k, b)) \<le> r" "length (enc_entry (k, b)) < 2 ^ 32"
  shows "write_entry k b (length pre) (pre @ replicate r 0) =
    Some (length pre + length (enc_entry (k, b)), (pre @ enc_entry (k, b)) @ replicate (r - length (enc_entry (k, b))) 0)"
proof -
  let ?V = "vbytes b" and ?K = "k @ [0]"
  define P where "P = pad (length k + 1)"
  define w where "w = le_split 4 (xpc_wire_type b)"
  define l where "l = le_split 4 (of_nat (P) :: u32)"
  define v where "v = le_split 4 (of_nat (length ?V) :: u32)"
  have len: "length w = 4" "length l = 4" "length v = 4" by (simp_all add: w_def l_def v_def)
  note sz = assms(3,4) [unfolded length_enc, folded P_def]
  have small: "length k + 1 + 3 < 2 ^ 32" "length ?V + 3 < 2 ^ 32"
    using sz(2) pad_ge [of "length k + 1", folded P_def] pad_ge [of "length ?V"] by simp_all
  have kl: "unat (key_len k) = length k + 1"
    using small(1) unfolding key_len_of_nat by (simp only: unat_of_nat) (simp add: take_bit_nat_eq_self)
  note pl = pad4_of_nat [OF small(1), folded key_len_of_nat P_def] unat_pad4 [OF small(1), folded key_len_of_nat P_def]
  have PK: "pad (Suc (length k)) = P" by (simp add: P_def)
  have vl: "val_bytes b = Some ?V" "val_len b = of_nat (length ?V)" "unat (xpc_pad4 (val_len b)) = pad (length ?V)"
    using val_bytes_ok [OF assms(1)] assms(2) small(2) by (simp_all add: unat_pad4)
  have 1: "poke (pre @ replicate r 0) (length pre) w = Some ((pre @ w) @ replicate (r - 4) 0)"
    using sz len by (subst poke_next) simp_all
  have 2: "poke ((pre @ w) @ replicate (r - 4) 0) (length pre + 4) l = Some ((pre @ w @ l) @ replicate (r - 8) 0)"
    using sz len by (subst poke_next) simp_all
  have 3: "poke ((pre @ w @ l) @ replicate (r - 8) 0) (length pre + 8) ?K =
      Some ((pre @ w @ l @ padded ?K) @ replicate (r - 8 - P) 0)"
    using sz len by (subst poke_padded) (simp_all add: PK)
  have 4: "poke ((pre @ w @ l @ padded ?K) @ replicate (r - 8 - P) 0) (length pre + 8 + P) v =
      Some ((pre @ w @ l @ padded ?K @ v) @ replicate (r - 12 - P) 0)"
    using sz len by (subst poke_next) (simp_all add: PK)
  have 5: "poke ((pre @ w @ l @ padded ?K @ v) @ replicate (r - 12 - P) 0) (length pre + 8 + P + 4) ?V =
      Some ((pre @ w @ l @ padded ?K @ v @ padded ?V) @ replicate (r - 12 - P - pad (length ?V)) 0)"
    using sz len by (subst poke_padded) (simp_all add: PK)
  have enc: "enc_entry (k, b) = w @ l @ padded ?K @ v @ padded ?V" by (simp add: enc_entry_def w_def l_def v_def P_def)
  have lenc: "length (enc_entry (k, b)) = 12 + P + pad (length ?V)" by (simp only: length_enc P_def)
  have K: "take (length k + 1) ?K = ?K" by simp
  show ?thesis
    unfolding write_entry_def lenc w_def [symmetric] kl pl(1) pl(2) [unfolded pl(1)] vl(1,2) vl(3) [unfolded vl(2)] Let_def K l_def [symmetric] v_def [symmetric] 1 bind.bind_lunit 2 3 4 5
    by (simp add: enc diff_diff_left add.commute add.left_commute)
qed

section \<open>What is written\<close>

fun wire_items :: "'w xpc \<Rightarrow> (cstring \<times> ref) list \<Rightarrow> (cstring \<times> xpc_body) list" where
  "wire_items s [] = []"
| "wire_items s ((k, v) # es) = (case deref s v of
     Some ob \<Rightarrow> (if xpc_wire_type (body ob) = 0 then [] else [(k, body ob)]) @ wire_items s es
   | None \<Rightarrow> wire_items s es)"

abbreviation encs :: "(cstring \<times> xpc_body) list \<Rightarrow> u8 list" where
  "encs items \<equiv> concat (map enc_entry items)"

definition wire_ready :: "'w xpc \<Rightarrow> (cstring \<times> ref) list \<Rightarrow> bool" where
  "wire_ready s es \<longleftrightarrow> (\<forall>(k, v) \<in> set es. 0 \<notin> set k \<and> (\<exists>ob. deref s v = Some ob \<and> wire_ok (body ob))) \<and>
     16 + length (encs (wire_items s es)) < 2 ^ 32"

abbreviation keyed :: "(cstring \<times> ref) list \<Rightarrow> (cstring option \<times> ref) list" where
  "keyed es \<equiv> map (\<lambda>(k, v). (Some k, v)) es"

lemma wire_ready_Cons:
  assumes "wire_ready s ((k, v) # es)"
  obtains ob where "deref s v = Some ob" "wire_ok (body ob)" "0 \<notin> set k" "wire_ready s es"
    "length (encs (wire_items s ((k, v) # es))) =
       (if xpc_wire_type (body ob) = 0 then 0 else length (enc_entry (k, body ob))) + length (encs (wire_items s es))"
  using assms unfolding wire_ready_def by fastforce

lemma entry_size_word:
  assumes "wire_ok b" "xpc_wire_type b \<noteq> 0" "length (enc_entry (k, b)) < 2 ^ 32"
  shows "(ucast (4 + 4 + xpc_pad4 (key_len k) + 4 + xpc_pad4 (val_len b)) :: u64) = of_nat (length (enc_entry (k, b)))"
proof -
  note sz = assms(3) [unfolded length_enc]
  have small: "length k + 1 + 3 < 2 ^ 32" "length (vbytes b) + 3 < 2 ^ 32"
    using sz pad_ge [of "length k + 1"] pad_ge [of "length (vbytes b)"] by simp_all
  have vl: "val_len b = of_nat (length (vbytes b))" using val_bytes_ok(2) [OF assms(1) _ assms(2)] small(2) by simp
  have "4 + 4 + xpc_pad4 (key_len k) + 4 + xpc_pad4 (val_len b) = of_nat (length (enc_entry (k, b)))"
    unfolding key_len_of_nat vl pad4_of_nat [OF small(1)] pad4_of_nat [OF small(2)] length_enc by simp
  then show ?thesis
    using assms(3) by (simp add: word_unat_eq_iff unsigned_ucast_eq unsigned_take_bit_eq unat_of_nat take_bit_nat_eq_self)
qed

lemma wire_total_items:
  "wire_ready s es \<Longrightarrow> wire_total s (keyed es) t = Some (t + of_nat (length (encs (wire_items s es))))"
proof (induction es arbitrary: t)
  case (Cons e es)
  obtain k v where e: "e = (k, v)" by fastforce
  obtain ob where ob: "deref s v = Some ob" "wire_ok (body ob)" "wire_ready s es"
    "length (encs (wire_items s (e # es))) =
       (if xpc_wire_type (body ob) = 0 then 0 else length (enc_entry (k, body ob))) + length (encs (wire_items s es))"
    using wire_ready_Cons Cons.prems unfolding e by metis
  have "length (encs (wire_items s (e # es))) < 2 ^ 32" using Cons.prems by (simp add: wire_ready_def)
  then have "xpc_wire_type (body ob) \<noteq> 0 \<Longrightarrow>
      (ucast (4 + 4 + xpc_pad4 (key_len k) + 4 + xpc_pad4 (val_len (body ob))) :: u64) = of_nat (length (enc_entry (k, body ob)))"
    using ob(4) by (intro entry_size_word [OF ob(2)]) auto
  then show ?case unfolding ob(4) by (simp add: e ob(1) Cons.IH [OF ob(3)] add.assoc)
qed simp

lemma wire_count_items:
  "wire_ready s es \<Longrightarrow> wire_count s (keyed es) c = Some (c + of_nat (length (wire_items s es)))"
proof (induction es arbitrary: c)
  case (Cons e es)
  obtain k v where e: "e = (k, v)" by fastforce
  obtain ob where ob: "deref s v = Some ob" "wire_ready s es" using wire_ready_Cons Cons.prems unfolding e by metis
  then show ?case using Cons.IH [OF ob(2)] by (auto simp: e)
qed simp

lemma write_entries_items:
  assumes "wire_ready s es" "length (encs (wire_items s es)) \<le> r"
  shows "write_entries s (keyed es) (length pre) (pre @ replicate r 0) =
    Some (pre @ encs (wire_items s es) @ replicate (r - length (encs (wire_items s es))) 0)"
  using assms
proof (induction es arbitrary: pre r)
  case (Cons e es)
  obtain k v where e: "e = (k, v)" by fastforce
  obtain ob where ob: "deref s v = Some ob" "wire_ok (body ob)" "wire_ready s es"
    and sz: "length (encs (wire_items s (e # es))) =
       (if xpc_wire_type (body ob) = 0 then 0 else length (enc_entry (k, body ob))) + length (encs (wire_items s es))"
    using wire_ready_Cons Cons.prems(1) unfolding e by metis
  have lim: "length (encs (wire_items s (e # es))) < 2 ^ 32" using Cons.prems(1) by (simp add: wire_ready_def)
  show ?case
  proof (cases "xpc_wire_type (body ob) = 0")
    case True
    then show ?thesis using Cons.IH [OF ob(3)] Cons.prems(2) by (simp add: e ob(1))
  next
    case False
    let ?x = "enc_entry (k, body ob)"
    have "write_entry k (body ob) (length pre) (pre @ replicate r 0) =
        Some (length (pre @ ?x), (pre @ ?x) @ replicate (r - length ?x) 0)"
      using write_entry_enc [OF ob(2) False] Cons.prems(2) lim False unfolding sz by simp
    moreover have "write_entries s (keyed es) (length (pre @ ?x)) ((pre @ ?x) @ replicate (r - length ?x) 0) =
        Some ((pre @ ?x) @ encs (wire_items s es) @ replicate (r - length ?x - length (encs (wire_items s es))) 0)"
      using Cons.prems(2) False unfolding sz by (intro Cons.IH [OF ob(3)]) simp
    ultimately show ?thesis using False by (simp add: e ob(1))
  qed
qed simp

abbreviation wire_header :: "nat \<Rightarrow> nat \<Rightarrow> u8 list" where
  "wire_header n sz \<equiv> le_split 4 XPC_WIRE_MAGIC @ le_split 4 XPC_WIRE_VERSION @ le_split 4 (of_nat n :: u32) @ le_split 4 (of_nat sz :: u32)"

lemma holds_keyed:
  assumes "holds (ks, vs, n) es"
  shows "zip (take n ks) (take n vs) = keyed es"
proof -
  have "take n ks = map (Some \<circ> fst) es" "take n vs = map snd es" using assms by auto
  then show ?thesis by (simp add: zip_map_map zip_same_conv_map case_prod_beta comp_def)
qed

lemma serialize_items:
  assumes "read_dict s d = Some (Some ds)" "holds ds es" "failures s = []" "wire_ready s es"
  shows "xpc_serialize_dict d s =
    Some (Some (wire_header (length (wire_items s es)) (length (encs (wire_items s es))) @ encs (wire_items s es)), s)"
proof -
  let ?n = "length (encs (wire_items s es))"
  define h where "h = wire_header (length (wire_items s es)) ?n"
  obtain ks vs where ds: "ds = (ks, vs, length es)" using assms(2) by (cases ds) simp
  have kvs: "zip (take (length es) ks) (take (length es) vs) = keyed es" using holds_keyed assms(2) unfolding ds by blast
  have n: "16 + ?n < 2 ^ 32" using assms(4) by (simp add: wire_ready_def)
  then have sz: "unat (16 + of_nat ?n :: u64) = 16 + ?n"
    by (simp add: unat_word_ariths unat_of_nat take_bit_nat_eq_self)
  have hl: "length h = 16" by (simp add: h_def)
  have c: "(ucast (of_nat ?n :: u64) :: u32) = of_nat ?n" by (simp add: ucast_of_nat_32 is_down_def)
  have "poke (replicate (16 + ?n) 0) 0 h = Some (h @ replicate ?n 0)"
    using poke_next [of "[]" 0 h "16 + ?n"] hl by simp
  moreover have "write_entries s (keyed es) 16 (h @ replicate ?n 0) = Some (h @ encs (wire_items s es))"
    using write_entries_items [OF assms(4), of ?n h] hl by simp
  ultimately show ?thesis
    using assms(1,3) wire_total_items [OF assms(4), of 16] wire_count_items [OF assms(4), of 0]
    by (simp add: xpc_serialize_dict_def ds kvs Let_def try_alloc_def sz c h_def)
qed

section \<open>What is read\<close>

lemma create_empty:
  assumes "accounted s ext" "failures s = []"
  shows "\<exists>d s1. xpc_dictionary_create None None 0 s = Some (d, s1) \<and> d \<noteq> NULL \<and> owned d \<and>
    dict_at s1 (own d + ext) d (replicate 8 None, replicate 8 NULL, 0) \<and> same_bodies (dom (objects s)) s s1 \<and> objects s d = None"
proof -
  let ?b = "XDictionary (replicate 8 None) (replicate 8 NULL) 0"
  obtain d s1 where a: "xpc_alloc ?b s = (d, s1)" by fastforce
  have d: "d \<noteq> NULL" "failures s1 = []"
    using a assms unfolding alloc_no_failure [OF assms(2)] by (auto simp: accounts_def put_object_def)
  note new = alloc_accounts [OF assms(1) _ a]
  have nd: "accounted s1 (own d + ext)" "same_bodies (dom (objects s)) s s1" "owned d" "objects s d = None"
    "objects s1 d = Some \<lparr>refcount = 1, reply_port = 0, body = ?b\<rparr>"
    using new d(1) by simp_all
  have run: "xpc_dictionary_create None None 0 s = Some (d, s1)"
    using a d by (simp add: xpc_dictionary_create_def alloc_container_def try_alloc_def Let_def)
  have "slots_look (replicate 8 None, replicate 8 NULL, 0) = Map.empty" by (simp add: slots_look_def fun_eq_iff)
  moreover have "read_dict s1 d = Some (Some (replicate 8 None, replicate 8 NULL, 0))"
    using nd(3,5) by (simp add: read_dict_def read_body_def deref_def owned_def)
  ultimately have "dict_at s1 (own d + ext) d (replicate 8 None, replicate 8 NULL, 0)"
    using nd d(2) empty_wf [of 8] by (simp add: dict_at_def own_def)
  then show ?thesis using run d nd by blast
qed

lemma peek_mid: "length pre = p \<Longrightarrow> length x = n \<Longrightarrow> peek (pre @ x @ post) p n = Some x"
  by (auto simp: peek_def)

lemma peek32_mid: "length pre = p \<Longrightarrow> peek32 (pre @ le_split 4 (w :: u32) @ post) p = Some w"
  by (simp add: peek32_def peek_mid codec_simps)

lemma peek64_mid: "length pre = p \<Longrightarrow> peek64 (pre @ le_split 8 (w :: u64) @ post) p = Some w"
  by (simp add: peek64_def peek_mid codec_simps)

lemma peek_string_mid: "length pre = p \<Longrightarrow> 0 \<notin> set t \<Longrightarrow> peek_string (pre @ (t @ [0]) @ post) p = Some t"
  by (auto simp: peek_string_def takeWhile_append)

lemma set_singleton_view:
  assumes d: "dict_at s ext d ds" and v: "xpc_is_singleton v"
  shows "\<exists>s' ds'. xpc_dictionary_set_value env d (Some k) v s = Some s' \<and> dict_at s' ext d ds' \<and>
    dict_view s' ds' = (dict_view s ds)(k \<mapsto> singleton_body v)"
proof -
  have acc: "accounted s ext" "d \<in># ext" using d by (simp_all add: dict_at_def)
  then have "owned d" using ext_alive [OF acc] by (auto simp: accounts_def)
  then have nv: "v \<noteq> d" "v \<noteq> NULL" "own v = {#}" using v by (auto simp: owned_def own_def xpc_is_singleton_def)
  have "objects s v = None" using acc(1) v by (auto simp: accounts_def owned_def)
  then show ?thesis using set_value_view [OF d, of v env k] nv v by (auto simp: deref_def)
qed

text \<open>Each kind of value is set as it was.\<close>

lemma read_value_view:
  assumes d: "dict_at s ext d ds" and b: "wire_ok b" "xpc_wire_type b \<noteq> 0" "length (vbytes b) < 2 ^ 32"
    and key: "peek_string buf kp = Some k" and buf: "buf = pre @ vbytes b @ post" "length pre = p"
  shows "\<exists>s' ds'. read_value env d buf (xpc_wire_type b) kp (of_nat (length (vbytes b))) p s = Some s' \<and>
    dict_at s' ext d ds' \<and> dict_view s' ds' = (dict_view s ds)(k \<mapsto> b)"
proof -
  have f: "failures s = []" using d by (simp add: dict_at_def)
  note fresh = set_fresh_view [OF d, of b env k]
  show ?thesis
  proof (cases b)
    case (XString t)
    then have "peek_string buf p = Some t" using buf b(1) peek_string_mid [of pre p t post] by simp
    then show ?thesis using fresh key f
      by (simp add: XString read_value_def xpc_dictionary_set_string_def xpc_string_create_def buffer_no_failure)
  next
    case (XData n q)
    show ?thesis
    proof (cases q)
      case None
      then show ?thesis using fresh key b(1)
        by (simp add: XData read_value_def xpc_dictionary_set_data_def xpc_data_create_def)
    next
      case (Some bs)
      have n: "0 < n" "length bs = unat n" using b(1) by (simp_all add: XData Some)
      have "(ucast (of_nat (unat n) :: u32) :: u64) = n"
        using b(3) n(2) by (simp add: XData Some word_unat_eq_iff unsigned_ucast_eq unsigned_take_bit_eq unat_of_nat take_bit_nat_eq_self)
      moreover have "take (unat n) (drop p buf) = bs" "unat n \<le> length (drop p buf)" using buf n(2) by (auto simp: XData Some)
      ultimately show ?thesis using fresh key f n
        by (simp add: XData Some read_value_def xpc_dictionary_set_data_def xpc_data_create_def buffer_no_failure split: prod.split)
    qed
  next
    case (XBool v)
    have "peek buf p 1 = Some [if v then 1 else 0]" using buf peek_mid [of pre p "[if v then 1 else 0]" 1 post] by (simp add: XBool)
    moreover have "singleton_body (xpc_bool_create v) = XBool v" "xpc_is_singleton (xpc_bool_create v)"
      by (simp_all add: xpc_bool_create_def singleton_body_def xpc_is_singleton_def)
    ultimately show ?thesis using set_singleton_view [OF d, of "xpc_bool_create v" env k] key
      by (cases v) (simp_all add: XBool read_value_def xpc_dictionary_set_bool_def)
  next
    case XNull
    then show ?thesis using set_singleton_view [OF d, of xpc_null_obj env k] key
      by (simp add: read_value_def singleton_body_def xpc_is_singleton_def)
  qed (use fresh key b(2) buf peek64_mid [of pre p _ post] in
      \<open>simp_all add: read_value_def xpc_dictionary_set_int64_def xpc_dictionary_set_uint64_def xpc_dictionary_set_double_def
         xpc_int64_create_def xpc_uint64_create_def xpc_double_create_def\<close>)
qed

lemma unat_u32: "n < 2 ^ 32 \<Longrightarrow> unat (of_nat n :: u32) = n"
  by (simp add: unat_of_nat take_bit_nat_eq_self)

lemma read_entry:
  assumes d: "dict_at s ext d ds" and b: "wire_ok b" "xpc_wire_type b \<noteq> 0" and k: "0 \<notin> set k"
    and sz: "length (enc_entry (k, b)) < 2 ^ 32" and buf: "buf = pre @ enc_entry (k, b) @ post" "len = length buf"
  shows "\<exists>s' ds'. dict_at s' ext d ds' \<and> dict_view s' ds' = (dict_view s ds)(k \<mapsto> b) \<and>
    read_entries env d buf len (Suc n) (length pre) s = read_entries env d buf len n (length (pre @ enc_entry (k, b))) s'"
proof -
  let ?V = "vbytes b"
  define P where "P = pad (length k + 1)"
  note sz' = sz [unfolded length_enc, folded P_def]
  have small: "length ?V + 3 < 2 ^ 32" "P < 2 ^ 32" using sz' pad_ge [of "length ?V"] by simp_all
  define z where "z = replicate (P - (length k + 1)) (0 :: u8)"
  define w where "w = le_split 4 (xpc_wire_type b)"
  define l where "l = le_split 4 (of_nat P :: u32)"
  define v where "v = le_split 4 (of_nat (length ?V) :: u32)"
  have K: "padded (k @ [0]) = (k @ [0]) @ z" by (simp add: padded_def z_def P_def)
  have enc: "enc_entry (k, b) = w @ l @ (k @ [0]) @ z @ v @ padded ?V"
    by (simp add: enc_entry_def w_def l_def v_def K P_def)
  have len: "length w = 4" "length l = 4" "length v = 4" "length ((k @ [0]) @ z) = P"
    using K length_padded [of "k @ [0]"] by (simp_all add: w_def l_def v_def P_def)
  have lenc: "length (enc_entry (k, b)) = 12 + P + pad (length ?V)" by (simp only: length_enc P_def)
  have rd: "peek32 buf (length pre) = Some (xpc_wire_type b)" "peek32 buf (length pre + 4) = Some (of_nat P)"
    "peek32 buf (length pre + 8 + P) = Some (of_nat (length ?V))" "peek_string buf (length pre + 8) = Some k"
    using peek32_mid [of pre "length pre" "xpc_wire_type b" "l @ (k @ [0]) @ z @ v @ padded ?V @ post"]
      peek32_mid [of "pre @ w" "length pre + 4" "of_nat P" "(k @ [0]) @ z @ v @ padded ?V @ post"]
      peek32_mid [of "pre @ w @ l @ (k @ [0]) @ z" "length pre + 8 + P" "of_nat (length ?V)" "padded ?V @ post"]
      peek_string_mid [of "pre @ w @ l" "length pre + 8" k "z @ v @ padded ?V @ post"] len k
    unfolding buf(1) enc by (simp_all add: w_def [symmetric] l_def [symmetric] v_def [symmetric])
  obtain s' ds' where s': "read_value env d buf (xpc_wire_type b) (length pre + 8) (of_nat (length ?V)) (length pre + 8 + P + 4) s = Some s'"
    "dict_at s' ext d ds'" "dict_view s' ds' = (dict_view s ds)(k \<mapsto> b)"
    using read_value_view [OF d b _ rd(4), of "pre @ w @ l @ (k @ [0]) @ z @ v" "replicate (pad (length ?V) - length ?V) 0 @ post" "length pre + 8 + P + 4" env]
      small(1) len by (auto simp: buf(1) enc padded_def)
  have total: "length pre + 12 + P + pad (length ?V) \<le> len" using buf lenc by simp
  have "read_entries env d buf len (Suc n) (length pre) s = read_entries env d buf len n (length pre + 8 + P + 4 + pad (length ?V)) s'"
    using total s'(1) by (simp add: rd unat_u32 [OF small(2)] unat_pad4 [OF small(1)] Let_def)
  then show ?thesis using s'(2,3) lenc by (intro exI [of _ s'] exI [of _ ds']) (simp add: add.assoc add.commute add.left_commute)
qed

lemma read_items:
  assumes "dict_at s ext d ds" "\<forall>(k, b) \<in> set items. wire_ok b \<and> xpc_wire_type b \<noteq> 0 \<and> 0 \<notin> set k"
    and "length (encs items) < 2 ^ 32" "buf = pre @ encs items" "len = length buf"
  shows "\<exists>s' ds'. read_entries env d buf len (length items) (length pre) s = Some s' \<and> dict_at s' ext d ds' \<and>
    dict_view s' ds' = dict_view s ds ++ map_of (rev items)"
  using assms
proof (induction items arbitrary: s ds pre)
  case Nil
  then show ?case by (intro exI [of _ s] exI [of _ ds]) simp
next
  case (Cons i items)
  obtain k b where i: "i = (k, b)" by fastforce
  obtain s1 ds1 where s1: "dict_at s1 ext d ds1" "dict_view s1 ds1 = (dict_view s ds)(k \<mapsto> b)"
    "read_entries env d buf len (Suc (length items)) (length pre) s = read_entries env d buf len (length items) (length (pre @ enc_entry i)) s1"
    using read_entry [OF Cons.prems(1), of b k buf pre "encs items" len env "length items"] Cons.prems by (auto simp: i)
  have "buf = (pre @ enc_entry i) @ encs items" using Cons.prems(4) by simp
  moreover have "length (encs items) < 2 ^ 32" "\<forall>(k, b) \<in> set items. wire_ok b \<and> xpc_wire_type b \<noteq> 0 \<and> 0 \<notin> set k"
    using Cons.prems by simp_all
  ultimately obtain s' ds' where "read_entries env d buf len (length items) (length (pre @ enc_entry i)) s1 = Some s'"
    "dict_at s' ext d ds'" "dict_view s' ds' = dict_view s1 ds1 ++ map_of (rev items)"
    using Cons.IH [OF s1(1) _ _ _ Cons.prems(5)] by blast
  then show ?case using s1 by (intro exI [of _ s'] exI [of _ ds']) (simp add: i map_add_def fun_eq_iff split: option.split)
qed

lemma wire_items_view:
  assumes "wire_ready s es" "distinct (map fst es)"
  shows "map_of (rev (wire_items s es)) k =
    (case map_of es k of Some v \<Rightarrow> (case deref s v of Some ob \<Rightarrow> if xpc_wire_type (body ob) = 0 then None else Some (body ob) | None \<Rightarrow> None)
     | None \<Rightarrow> None)"
  using assms
proof (induction es)
  case (Cons e es)
  obtain k' v where e: "e = (k', v)" by fastforce
  obtain ob where ob: "deref s v = Some ob" "wire_ready s es" using wire_ready_Cons Cons.prems(1) unfolding e by metis
  have "k' \<notin> fst ` set es" using Cons.prems(2) by (simp add: e)
  then have "map_of es k' = None" by (simp add: map_of_eq_None_iff)
  then show ?case using Cons.IH [OF ob(2)] Cons.prems(2) ob(1)
    by (auto simp: e map_add_def split: option.split)
qed simp

lemma wire_items_ok:
  "wire_ready s es \<Longrightarrow> (k, b) \<in> set (wire_items s es) \<Longrightarrow> wire_ok b \<and> xpc_wire_type b \<noteq> 0 \<and> 0 \<notin> set k"
proof (induction es)
  case (Cons e es)
  obtain k' v where e: "e = (k', v)" by fastforce
  obtain ob where ob: "deref s v = Some ob" "wire_ok (body ob)" "0 \<notin> set k'" "wire_ready s es"
    using wire_ready_Cons Cons.prems(1) unfolding e by metis
  show ?case using Cons.IH [OF ob(4)] Cons.prems(2) ob(1-3) by (auto simp: e split: if_splits)
qed simp

lemma length_items_encs: "length items \<le> length (encs items)"
proof (induction items)
  case (Cons i items)
  obtain k b where "i = (k, b)" by fastforce
  then show ?case using Cons length_enc [of k b] by simp
qed simp

lemma deserialize_items:
  assumes acc: "accounted s ext" "failures s = []" and es: "wire_ready s es"
    and buf: "buf = wire_header (length (wire_items s es)) (length (encs (wire_items s es))) @ encs (wire_items s es)"
  shows "\<exists>d' s' ds'. xpc_deserialize_dict env (Some buf) (length buf) s = Some (d', s') \<and> dict_at s' (own d' + ext) d' ds' \<and>
    dict_view s' ds' = map_of (rev (wire_items s es))"
proof -
  let ?n = "length (wire_items s es)" and ?m = "length (encs (wire_items s es))" and ?e = "encs (wire_items s es)"
  obtain d s1 where d: "xpc_dictionary_create None None 0 s = Some (d, s1)" "d \<noteq> NULL"
    "dict_at s1 (own d + ext) d (replicate 8 None, replicate 8 NULL, 0)"
    using create_empty [OF acc] by blast
  have m: "16 + ?m < 2 ^ 32" using es by (simp add: wire_ready_def)
  have n: "?n < 2 ^ 32" using length_items_encs [of "wire_items s es"] m by linarith
  have rd: "peek32 buf 0 = Some XPC_WIRE_MAGIC" "peek32 buf 4 = Some XPC_WIRE_VERSION" "peek32 buf 8 = Some (of_nat ?n)"
    using peek32_mid [of "[]" 0 XPC_WIRE_MAGIC "le_split 4 XPC_WIRE_VERSION @ le_split 4 (of_nat ?n :: u32) @ le_split 4 (of_nat ?m :: u32) @ ?e"]
      peek32_mid [of "le_split 4 XPC_WIRE_MAGIC" 4 XPC_WIRE_VERSION "le_split 4 (of_nat ?n :: u32) @ le_split 4 (of_nat ?m :: u32) @ ?e"]
      peek32_mid [of "le_split 4 XPC_WIRE_MAGIC @ le_split 4 XPC_WIRE_VERSION" 8 "of_nat ?n" "le_split 4 (of_nat ?m :: u32) @ ?e"]
    by (simp_all add: buf)
  have ok: "\<forall>(k, b) \<in> set (wire_items s es). wire_ok b \<and> xpc_wire_type b \<noteq> 0 \<and> 0 \<notin> set k"
    using wire_items_ok [OF es] by blast
  have "length (wire_header ?n ?m) = 16" "length ?e < 2 ^ 32" using m by simp_all
  then obtain s' ds' where s': "read_entries env d buf (length buf) ?n 16 s1 = Some s'" "dict_at s' (own d + ext) d ds'"
    "dict_view s' ds' = dict_view s1 (replicate 8 None, replicate 8 NULL, 0) ++ map_of (rev (wire_items s es))"
    using read_items [OF d(3) ok _ buf refl, of env] by auto
  have "dict_view s1 (replicate 8 None, replicate 8 NULL, 0) = Map.empty" by (simp add: dict_view_def slots_look_def fun_eq_iff)
  then have v: "dict_view s' ds' = map_of (rev (wire_items s es))" using s'(3) by simp
  have "16 \<le> length buf" by (simp add: buf)
  then have "xpc_deserialize_dict env (Some buf) (length buf) s = Some (d, s')"
    using d(1,2) s'(1) n by (simp add: xpc_deserialize_dict_def rd unat_u32)
  then show ?thesis using s'(2) v by blast
qed

text \<open>
  C9. Sending a dictionary and reading it back gives an equal one: for a dictionary the program holds,
  whose values are as their constructors make them and whose flat form is smaller than 4 GiB, writing
  succeeds without a store outside the buffer, and reading the buffer succeeds without a read outside
  it and gives a new dictionary, owned by the program, that has for every key the value of the
  original, except for the kinds of values that are not sent.
\<close>

theorem wire_round_trip:
  assumes "dict_at s ext d ds" and "wire_ready s (entries ds)"
  shows "\<exists>buf d' s' ds'. xpc_serialize_dict d s = Some (Some buf, s) \<and>
    xpc_deserialize_dict env (Some buf) (length buf) s = Some (d', s') \<and> dict_at s' (own d' + ext) d' ds' \<and>
    dict_view s' ds' = (\<lambda>k. case dict_view s ds k of Some b \<Rightarrow> if xpc_wire_type b = 0 then None else Some b | None \<Rightarrow> None)"
proof -
  have at: "accounted s ext" "read_dict s d = Some (Some ds)" "wf_slots ds" "failures s = []"
    using assms(1) by (simp_all add: dict_at_def)
  obtain es where es: "holds ds es" "distinct (map fst es)" using wf_cases [OF at(3)] .
  have ready: "wire_ready s es" using assms(2) holds_entries [OF es(1)] by simp
  note ser = serialize_items [OF at(2) es(1) at(4) ready]
  obtain d' s' ds' where d': "xpc_deserialize_dict env (Some (wire_header (length (wire_items s es)) (length (encs (wire_items s es))) @
      encs (wire_items s es))) (length (wire_header (length (wire_items s es)) (length (encs (wire_items s es))) @ encs (wire_items s es))) s = Some (d', s')"
    "dict_at s' (own d' + ext) d' ds'" "dict_view s' ds' = map_of (rev (wire_items s es))"
    using deserialize_items [OF at(1,4) ready refl, of env] by blast
  have "dict_view s' ds' k = (case dict_view s ds k of Some b \<Rightarrow> if xpc_wire_type b = 0 then None else Some b | None \<Rightarrow> None)" for k
    unfolding d'(3) wire_items_view [OF ready es(2)] by (simp add: dict_view_def look_holds [OF es(1)] split: option.split)
  then show ?thesis using ser d'(1,2) by (intro exI conjI) (assumption | rule ext)+
qed

text \<open>A dictionary with one entry, a number.\<close>

definition wire_heap :: "unit xpc" where
  "wire_heap = (initial_xpc ())\<lparr>brk := 9, objects :=
     [7 \<mapsto> \<lparr>refcount = 1, reply_port = 0, body = XDictionary [Some [0x6b]] [8] 1\<rparr>,
      8 \<mapsto> \<lparr>refcount = 1, reply_port = 0, body = XUint64 5\<rparr>]\<rparr>"

lemma wire_heap_at: "dict_at wire_heap {#7#} 7 ([Some [0x6b]], [8], 1)"
proof -
  have dom: "dom (objects wire_heap) = {7, 8}" by (auto simp: wire_heap_def)
  have refs: "all_refs Map.empty wire_heap [] {#7#} = {#8, 7#}"
    unfolding all_refs_def freed.simps dom by (simp add: wire_heap_def held_def owned_def xpc_is_singleton_def)
  have "accounted wire_heap {#7#}"
    unfolding accounts_def refs freed.simps dom
    by (auto simp: wire_heap_def owned_def xpc_is_singleton_def exact_count_def split: if_splits)
  moreover have "wf_slots ([Some [0x6b]], [8], 1)" by (simp add: wf_slots_def)
  ultimately show ?thesis
    by (simp add: dict_at_def read_dict_def read_body_def deref_def wire_heap_def xpc_is_singleton_def slots_look_def
        initial_xpc_def ran_def)
qed

theorem wire_round_trip_witness:
  "\<exists>buf d' s' ds'. xpc_serialize_dict 7 wire_heap = Some (Some buf, wire_heap) \<and>
     xpc_deserialize_dict quiet_env (Some buf) (length buf) wire_heap = Some (d', s') \<and> dict_view s' ds' [0x6b] = Some (XUint64 5)"
proof -
  have look: "deref wire_heap 8 = Some \<lparr>refcount = 1, reply_port = 0, body = XUint64 5\<rparr>"
    by (simp add: deref_def wire_heap_def xpc_is_singleton_def)
  then have ready: "wire_ready wire_heap (entries ([Some [0x6b]], [8], 1))"
    by (simp add: wire_ready_def enc_entry_def pad_def)
  have view: "dict_view wire_heap ([Some [0x6b]], [8], 1) [0x6b] = Some (XUint64 5)"
    using look by (simp add: dict_view_def slots_look_def)
  obtain buf d' s' ds' where r: "xpc_serialize_dict 7 wire_heap = Some (Some buf, wire_heap)"
    "xpc_deserialize_dict quiet_env (Some buf) (length buf) wire_heap = Some (d', s')"
    "dict_view s' ds' = (\<lambda>k. case dict_view wire_heap ([Some [0x6b]], [8], 1) k of
       Some b \<Rightarrow> if xpc_wire_type b = 0 then None else Some b | None \<Rightarrow> None)"
    using wire_round_trip [OF wire_heap_at ready] by blast
  have "dict_view s' ds' [0x6b] = Some (XUint64 5)" unfolding r(3) view by simp
  then show ?thesis using r(1,2) by blast
qed

section \<open>Messages from anywhere\<close>

text \<open>No four bytes in a row of the message are a length that wraps around when it is padded.\<close>

definition no_wrapping_length :: "u8 list \<Rightarrow> bool" where
  "no_wrapping_length buf \<longleftrightarrow> (\<forall>p w. peek32 buf p = Some w \<longrightarrow> w \<le> 0xfffffffc)"

lemma pad4_ge:
  assumes "w \<le> 0xfffffffc"
  shows "unat w \<le> unat (xpc_pad4 w)"
proof -
  have "unat w + 3 < 2 ^ 32" using assms by (simp add: word_le_nat_alt)
  then have "unat (xpc_pad4 w) = pad (unat w)" using unat_pad4 [of "unat w"] by simp
  then show ?thesis using pad_ge by simp
qed

lemma peek_string_zeros: "kp < length buf \<Longrightarrow> last buf = 0 \<Longrightarrow> \<exists>k. peek_string buf kp = Some k"
  by (metis drop_eq_Nil last_drop last_in_set linorder_not_less peek_string_def)

text \<open>Whatever the type, reading a value that lies before the end of the message keeps the dictionary sound.\<close>

lemma read_value_safe:
  assumes d: "dict_at s ext d ds" and buf: "last buf = 0" "kp < length buf" "p + 8 \<le> length buf" "unat vlen \<le> length (drop p buf)"
  shows "\<exists>s' ds'. read_value env d buf kind kp vlen p s = Some s' \<and> dict_at s' ext d ds'"
proof -
  have f: "failures s = []" using d by (simp add: dict_at_def)
  obtain k where k: "peek_string buf kp = Some k" using peek_string_zeros buf(1,2) by blast
  obtain t where t: "peek_string buf p = Some t" using peek_string_zeros buf(1,3) by fastforce
  obtain v where v: "peek64 buf p = Some v" using buf(3) by (simp add: peek64_def peek_def)
  obtain c where c: "peek buf p 1 = Some c" using buf(3) by (simp add: peek_def)
  have fresh: "\<exists>s' ds'. set_and_release env d (Some k) (xpc_alloc b s) = Some s' \<and> dict_at s' ext d ds'" if "slots b = []" for b
    using set_fresh_view [OF d that] by blast
  have single: "\<exists>s' ds'. xpc_dictionary_set_value env d (Some k) x s = Some s' \<and> dict_at s' ext d ds'" if "xpc_is_singleton x" for x
    using set_singleton_view [OF d that] by blast
  have 1: "\<exists>s' ds'. xpc_dictionary_set_string env d (Some k) (Some t) s = Some s' \<and> dict_at s' ext d ds'"
    using fresh [of "XString t"] f by (simp add: xpc_dictionary_set_string_def xpc_string_create_def buffer_no_failure)
  have 2: "\<exists>s' ds'. xpc_dictionary_set_int64 env d (Some k) v s = Some s' \<and> dict_at s' ext d ds'"
    using fresh [of "XInt64 v"] by (simp add: xpc_dictionary_set_int64_def xpc_int64_create_def)
  have 3: "\<exists>s' ds'. xpc_dictionary_set_uint64 env d (Some k) v s = Some s' \<and> dict_at s' ext d ds'"
    using fresh [of "XUint64 v"] by (simp add: xpc_dictionary_set_uint64_def xpc_uint64_create_def)
  have 4: "\<exists>s' ds'. xpc_dictionary_set_double env d (Some k) v s = Some s' \<and> dict_at s' ext d ds'"
    using fresh [of "XDouble v"] by (simp add: xpc_dictionary_set_double_def xpc_double_create_def)
  have 5: "\<exists>s' ds'. xpc_dictionary_set_bool env d (Some k) x s = Some s' \<and> dict_at s' ext d ds'" for x
    using single [of "xpc_bool_create x"] by (simp add: xpc_dictionary_set_bool_def xpc_bool_create_def xpc_is_singleton_def)
  have 6: "\<exists>s' ds'. xpc_dictionary_set_data env d (Some k) (Some (drop p buf)) (ucast vlen) s = Some s' \<and> dict_at s' ext d ds'"
    using fresh [of "XData (ucast vlen) (Some (take (unat vlen) (drop p buf)))"] fresh [of "XData (ucast vlen) None"] f buf(4)
    by (auto simp: xpc_dictionary_set_data_def xpc_data_create_def buffer_no_failure unsigned_ucast_eq unsigned_take_bit_eq split: prod.split)
  have 7: "\<exists>s' ds'. xpc_dictionary_set_value env d (Some k) xpc_null_obj s = Some s' \<and> dict_at s' ext d ds'"
    by (rule single) (simp add: xpc_is_singleton_def)
  have 0: "\<exists>s' ds'. Some s = Some s' \<and> dict_at s' ext d ds'"
    using d by blast
  show ?thesis
    using 0 1 2 3 4 5 [of "c \<noteq> [0]"] 6 7 unfolding read_value_def k t v c bind.bind_lunit by (simp split: if_splits)
qed

lemma read_entries_safe:
  assumes "dict_at s ext d ds" "last buf = 0" "len + 8 \<le> length buf" "no_wrapping_length buf"
  shows "\<exists>s' ds'. read_entries env d buf len n p s = Some s' \<and> dict_at s' ext d ds'"
  using assms(1)
proof (induction n arbitrary: p s ds)
  case (Suc n)
  show ?case
  proof (cases "p + 12 \<le> len")
    case True
    then obtain kind kl where r: "peek32 buf p = Some kind" "peek32 buf (p + 4) = Some kl"
      using assms(3) by (simp add: peek32_def peek_def)
    define q where "q = p + 8 + unat kl"
    show ?thesis
    proof (cases "q + 4 \<le> len")
      case q: True
      then obtain w where w: "peek32 buf q = Some w" using assms(3) by (simp add: peek32_def peek_def)
      have le: "unat w \<le> unat (xpc_pad4 w)" using assms(4) w pad4_ge unfolding no_wrapping_length_def by blast
      show ?thesis
      proof (cases "q + 4 + unat (xpc_pad4 w) \<le> len")
        case fit: True
        have "p + 8 < length buf" "q + 4 + 8 \<le> length buf" "unat w \<le> length (drop (q + 4) buf)" using assms(3) le fit True by simp_all
        then obtain s1 ds1 where s1: "read_value env d buf kind (p + 8) w (q + 4) s = Some s1" "dict_at s1 ext d ds1"
          using read_value_safe [OF Suc.prems assms(2)] by blast
        then show ?thesis using Suc.IH [OF s1(2)] fit q True by (simp add: r w q_def [symmetric] Let_def)
      next
        case False
        then have "read_entries env d buf len (Suc n) p s = Some s" using q True by (simp add: r w q_def [symmetric] Let_def)
        then show ?thesis using Suc.prems by blast
      qed
    next
      case False
      then have "read_entries env d buf len (Suc n) p s = Some s" using True by (simp add: r q_def [symmetric] Let_def)
      then show ?thesis using Suc.prems by blast
    qed
  next
    case False
    then have "read_entries env d buf len (Suc n) p s = Some s" by simp
    then show ?thesis using Suc.prems by blast
  qed
next
  case 0
  then show ?case by (intro exI [of _ s] exI [of _ ds]) simp
qed

lemma deserialize_sound:
  assumes "accounted s ext" and "failures s = []" and "last buf = 0" and "len + 8 \<le> length buf" and "no_wrapping_length buf"
  shows "\<exists>d s'. xpc_deserialize_dict env (Some buf) len s = Some (d, s') \<and>
    (d = NULL \<and> s' = s \<or> (\<exists>ds. dict_at s' (own d + ext) d ds))"
proof (cases "16 \<le> len")
  case True
  then obtain m v n where r: "peek32 buf 0 = Some m" "peek32 buf 4 = Some v" "peek32 buf 8 = Some n"
    using assms(4) by (simp add: peek32_def peek_def)
  obtain d s1 where d: "xpc_dictionary_create None None 0 s = Some (d, s1)" "d \<noteq> NULL"
    "dict_at s1 (own d + ext) d (replicate 8 None, replicate 8 NULL, 0)"
    using create_empty [OF assms(1,2)] by blast
  obtain s2 ds where s2: "read_entries env d buf len (unat n) 16 s1 = Some s2" "dict_at s2 (own d + ext) d ds"
    using read_entries_safe [OF d(3) assms(3-5)] by blast
  show ?thesis
  proof (cases "m \<noteq> XPC_WIRE_MAGIC \<or> v \<noteq> XPC_WIRE_VERSION")
    case False
    then have "xpc_deserialize_dict env (Some buf) len s = Some (d, s2)"
      using True d(1,2) s2(1) by (simp add: xpc_deserialize_dict_def r)
    then show ?thesis using s2(2) by blast
  qed (use True in \<open>auto simp: xpc_deserialize_dict_def r\<close>)
qed (simp add: xpc_deserialize_dict_def)


text \<open>A message with one number, followed by eight zero bytes.\<close>

definition demo_message :: "u8 list" where
  "demo_message = [0x21, 0x43, 0x50, 0x58, 1, 0, 0, 0, 1, 0, 0, 0, 24, 0, 0, 0,
     3, 0, 0, 0, 4, 0, 0, 0, 0x6b, 0, 0, 0, 8, 0, 0, 0, 5, 0, 0, 0, 0, 0, 0, 0] @ replicate 8 0"

lemma initial_accounted: "accounted (initial_xpc w) {#}"
  by (simp add: accounts_def initial_xpc_def all_refs_def)

lemma demo_message_tame: "no_wrapping_length demo_message"
  unfolding no_wrapping_length_def
proof (intro allI impI)
  fix p and w :: u32 assume w: "peek32 demo_message p = Some w"
  have "\<forall>p \<in> set [0..<45]. (le_join (take 4 (drop p demo_message)) :: u32) \<le> 0xfffffffc" by code_simp
  moreover have "length demo_message = 48" by (simp add: demo_message_def)
  ultimately show "w \<le> 0xfffffffc" using w by (auto simp: peek32_def peek_def split: if_splits)
qed


text \<open>
  C39. A length that wraps around when it is padded passes the test of the reader: for a message whose
  first entry is data with a length of at least \<open>0xfffffffd\<close>, in an array that is shorter than that,
  the reader copies bytes from outside the array.
\<close>

theorem wire_length_wraps:
  assumes "peek32 buf 0 = Some XPC_WIRE_MAGIC" and "peek32 buf 4 = Some XPC_WIRE_VERSION" and "peek32 buf 8 = Some n" and "n > 0"
    and "peek32 buf 16 = Some 6" and "peek32 buf 20 = Some kl" and "peek_string buf 24 = Some k"
    and "peek32 buf (24 + unat kl) = Some w" and "w \<ge> 0xfffffffd" and "28 + unat kl \<le> len" and "length buf < 0xfffffffd"
    and "accounted s ext" and "failures s = []"
  shows "xpc_deserialize_dict env (Some buf) len s = None"
proof -
  obtain d s1 where d: "xpc_dictionary_create None None 0 s = Some (d, s1)" "d \<noteq> NULL" "failures s1 = []" "7 \<le> brk s1"
    using create_empty [OF assms(12,13)] by (auto simp: dict_at_def accounts_def)
  have "w = 0xfffffffd \<or> w = 0xfffffffe \<or> w = 0xffffffff"
    using assms(9) unat_lt2p [of w] by (auto simp: word_le_nat_alt word_unat_eq_iff)
  then have pad: "xpc_pad4 w = 0" by (auto simp: xpc_pad4_def)
  have big: "unat w > length buf" using assms(9,11) by (simp add: word_le_nat_alt)
  then have none: "xpc_data_create (Some (drop p buf)) (ucast w) s1 = None" for p
    using d(3,4) by (simp add: xpc_data_create_def buffer_no_failure alloc_no_failure unsigned_ucast_eq unsigned_take_bit_eq word_less_nat_alt)
  obtain m where m: "unat n = Suc m" using assms(4) by (metis not0_implies_Suc unat_eq_zero word_greater_zero_iff)
  have "read_entries env d buf len (unat n) 16 s1 = None"
    unfolding m using assms(5-8,10) by (simp add: Let_def pad read_value_def none xpc_dictionary_set_data_def)
  then show ?thesis using assms(10) d(1,2) by (simp add: xpc_deserialize_dict_def assms(1-3))
qed

definition wrapping_message :: "u8 list" where
  "wrapping_message = [0x21, 0x43, 0x50, 0x58, 1, 0, 0, 0, 1, 0, 0, 0, 16, 0, 0, 0,
     6, 0, 0, 0, 4, 0, 0, 0, 0x6b, 0, 0, 0, 0xff, 0xff, 0xff, 0xff]"

theorem wire_length_wraps_witness: "xpc_deserialize_dict quiet_env (Some wrapping_message) 32 (initial_xpc ()) = None"
proof -
  have rd: "peek32 wrapping_message 0 = Some XPC_WIRE_MAGIC \<and> peek32 wrapping_message 4 = Some XPC_WIRE_VERSION \<and>
    peek32 wrapping_message 8 = Some 1 \<and> peek32 wrapping_message 16 = Some 6 \<and> peek32 wrapping_message 20 = Some 4 \<and>
    peek_string wrapping_message 24 = Some [0x6b] \<and> peek32 wrapping_message (24 + unat (4 :: u32)) = Some 0xffffffff"
    by code_simp
  show ?thesis
    by (rule wire_length_wraps [where n = 1 and kl = 4 and w = "0xffffffff" and k = "[0x6b]" and ext = "{#}"])
      (use rd initial_accounted in \<open>simp_all add: initial_xpc_def wrapping_message_def\<close>)
qed

end
