(* ===== verification/Xpc_Types.thy ===== *)
theory Xpc_Types
  imports Xpc_Wire
begin

text \<open>
  The types of XPC objects. No operation of \<open>libxpc_impl.c\<close> changes the tag of an object, and an
  address is used for one object only, so that what \<open>xpc_get_type\<close> said of a reference stays true
  while the object lives. The lemmas show this for every operation, with no condition on reference
  counts or allocations.
\<close>

section \<open>Evolution of the heap\<close>

definition below :: "'w xpc \<Rightarrow> bool" where
  "below s \<longleftrightarrow> (\<forall>r ob. objects s r = Some ob \<longrightarrow> r < brk s)"

definition evolves :: "'w xpc \<Rightarrow> 'w xpc \<Rightarrow> bool" where
  "evolves s s' \<longleftrightarrow> (below s \<longrightarrow> below s' \<and> brk s \<le> brk s' \<and>
     (\<forall>r ob'. r < brk s \<longrightarrow> objects s' r = Some ob' \<longrightarrow> (\<exists>ob. objects s r = Some ob \<and> tag (body ob') = tag (body ob))))"

text \<open>What holds between the states before and after the steps that every operation is made of: moving
  on in the world and in the list of failures, counting, and freeing.\<close>

locale heap_relation =
  fixes R :: "'w xpc \<Rightarrow> 'w xpc \<Rightarrow> bool"
  assumes step_refl: "R s s"
    and step_trans: "R s t \<Longrightarrow> R t u \<Longrightarrow> R s u"
    and step_same: "objects s' = objects s \<Longrightarrow> brk s' = brk s \<Longrightarrow> R s s'"
    and step_count: "objects s r = Some ob \<Longrightarrow> R s (put_object r (ob\<lparr>refcount := n\<rparr>) s)"
    and step_free: "R s (s\<lparr>objects := (objects s)(r := None)\<rparr>)"
begin

lemma step_try: "try_alloc s = (ok, s') \<Longrightarrow> R s s'"
  by (auto simp: try_alloc_def intro: step_same split: list.splits)

lemma step_retain: "xpc_retain r s = Some s' \<Longrightarrow> R s s'"
  by (auto simp: xpc_retain_def step_refl step_count split: if_splits bind_splits)

lemma step_work: "run_work env ws s = Some s' \<Longrightarrow> R s s'"
proof (induction rule: run_work.raw_induct [rotated 1, consumes 1])
  case (1 f env ws s s')
  show ?case
  proof (cases ws)
    case (Cons w rest)
    show ?thesis
    proof (cases w)
      case (Release r)
      show ?thesis
      proof (cases "r = NULL \<or> xpc_is_singleton r")
        case False
        obtain ob where ob: "objects s r = Some ob" using 1(2) False by (auto simp: Cons Release split: option.splits)
        then obtain ws1 where "f env ws1 (put_object r (ob\<lparr>refcount := refcount ob - 1\<rparr>) s) = Some s'"
          using 1(2) False by (auto simp: Cons Release Let_def split: if_splits)
        from step_trans [OF step_count [OF ob] 1(1) [OF this]] show ?thesis .
      qed (use 1 in \<open>auto simp: Cons Release\<close>)
    next
      case (Effect g)
      then have run: "f env rest (s\<lparr>world := g (world s)\<rparr>) = Some s'" using 1(2) by (simp add: Cons)
      show ?thesis by (rule step_trans [OF step_same 1(1) [OF run]]) simp_all
    next
      case (Free r)
      then have "f env rest (s\<lparr>objects := (objects s)(r := None)\<rparr>) = Some s'" using 1(2) by (simp add: Cons split: if_splits)
      from step_trans [OF step_free 1(1) [OF this]] show ?thesis .
    qed
  qed (use 1 in \<open>auto simp: step_refl\<close>)
qed

lemma step_release: "xpc_release env r s = Some s' \<Longrightarrow> R s s'"
  by (auto simp: xpc_release_def intro: step_work)

end

lemma evolves_put: "objects s r = Some ob \<Longrightarrow> tag (body ob') = tag (body ob) \<Longrightarrow> evolves s (put_object r ob' s)"
  by (auto simp: evolves_def below_def put_object_def)

lemma evolves_trans [trans]: "evolves s t \<Longrightarrow> evolves t u \<Longrightarrow> evolves s u"
  unfolding evolves_def by (metis order.strict_trans2 order_trans)

interpretation evolution: heap_relation evolves
proof
  fix s t u :: "'w xpc"
  show "evolves s s" by (simp add: evolves_def)
  show "evolves s t \<Longrightarrow> evolves t u \<Longrightarrow> evolves s u" by (rule evolves_trans)
  show "objects t = objects s \<Longrightarrow> brk t = brk s \<Longrightarrow> evolves s t" by (simp add: evolves_def below_def)
qed (auto simp: evolves_put, auto simp: evolves_def below_def)

lemmas evolves_refl [simp, intro] = evolution.step_refl
lemmas evolves_free = evolution.step_free

text \<open>The steps of an operation one after the other, from its last one back: rules with the equation of
  the last step, and rules without.\<close>

named_theorems rewind
named_theorems start

lemma after: "evolves t u \<Longrightarrow> evolves s t \<Longrightarrow> evolves s u"
  by (rule evolves_trans)

declare evolves_refl [start]

lemma evolves_world [THEN after, start]: "evolves s (s\<lparr>world := w\<rparr>)"
  by (rule evolution.step_same) simp_all

lemmas evolves_try = evolution.step_try [THEN after]
lemmas evolves_retain = evolution.step_retain [THEN after]
lemmas evolves_release = evolution.step_release [THEN after]

declare evolves_try [rewind] evolves_retain [rewind] evolves_release [rewind]

lemma evolves_new: "evolves s ((put_object (brk s) ob s)\<lparr>brk := Suc (brk s)\<rparr>)"
  by (auto simp: evolves_def below_def put_object_def less_Suc_eq split: if_splits)

lemma evolves_alloc [THEN after, rewind]:
  assumes "xpc_alloc b s = (r, s')"
  shows "evolves s s'"
proof -
  obtain ok s1 where t: "try_alloc s = (ok, s1)" by fastforce
  then show ?thesis
    using assms evolves_try [OF t evolves_refl] evolves_trans [OF _ evolves_new]
    by (cases ok) (auto simp: xpc_alloc_def)
qed

section \<open>Containers\<close>

definition kind_at :: "'w xpc \<Rightarrow> ref \<Rightarrow> u32 \<Rightarrow> bool" where
  "kind_at s r t \<longleftrightarrow> (\<exists>ob. objects s r = Some ob \<and> tag (body ob) = t)"

text \<open>A new body of the kind the object had when the operation began.\<close>

lemma evolves_store:
  assumes "evolves s s1" "kind_at s r (tag b)" "set_body r b s1 = Some s'"
  shows "evolves s s'"
proof -
  obtain ob ob1 where o: "objects s r = Some ob" "tag (body ob) = tag b" "objects s1 r = Some ob1"
    "s' = put_object r (ob1\<lparr>body := b\<rparr>) s1"
    using assms(2,3) by (auto simp: kind_at_def set_body_def split: bind_splits)
  have "evolves s1 s'" if b: "below s"
  proof -
    have "r < brk s" using b o(1) by (auto simp: below_def)
    then have "tag (body ob1) = tag b" using assms(1) b o by (auto simp: evolves_def)
    then show ?thesis unfolding o(4) using evolves_put [OF o(3)] by simp
  qed
  then show ?thesis using evolves_trans [OF assms(1)] by (auto simp: evolves_def)
qed

lemma read_dict_kind [start]: "read_dict s d = Some (Some ds) \<Longrightarrow> kind_at s d 0x8000"
  by (cases ds) (auto simp: read_dict_def read_body_def deref_def kind_at_def singleton_body_def split: if_splits bind_splits xpc_body.splits elim!: as_dict.elims)

lemma read_array_kind [start]: "read_array s d = Some (Some vs) \<Longrightarrow> kind_at s d 0x9000"
  by (auto simp: read_array_def read_body_def deref_def kind_at_def singleton_body_def split: if_splits bind_splits elim!: as_array.elims)

lemma dict_body_tag [simp]: "tag (dict_body ds) = 0x8000"
  by (cases ds) simp

lemma evolves_store_dict [rewind]: "set_body d (dict_body ds) s1 = Some s' \<Longrightarrow> kind_at s d 0x8000 \<Longrightarrow> evolves s s1 \<Longrightarrow> evolves s s'"
  using evolves_store [of s s1 d "dict_body ds"] by simp

lemma evolves_store_array [rewind]: "set_body a (XArray vs n) s1 = Some s' \<Longrightarrow> kind_at s a 0x9000 \<Longrightarrow> evolves s s1 \<Longrightarrow> evolves s s'"
  using evolves_store [of s s1 a "XArray vs n"] by simp

lemma evolves_grow [THEN after, rewind]: "grow_if_full ds s = Some (ds', s') \<Longrightarrow> evolves s s'"
  by (auto simp: grow_if_full_def split: if_splits prod.splits) (erule rewind | assumption | rule start)+

lemma evolves_insert: "dict_insert d k v ds s = Some s' \<Longrightarrow> kind_at s d 0x8000 \<Longrightarrow> evolves s s'"
  by (auto simp: dict_insert_def simp del: dict_body.simps slots_push.simps split: bind_splits prod.splits)
    (erule rewind | assumption | rule start)+

lemma evolves_set_value [THEN after, rewind]: "xpc_dictionary_set_value env d key v s = Some s' \<Longrightarrow> evolves s s'"
  by (auto simp: xpc_dictionary_set_value_def simp del: dict_body.simps slots_replace.simps slots_remove.simps
      split: bind_splits option.splits if_splits)
    (erule evolves_insert | erule rewind | assumption | rule start)+

lemma evolves_set_and_release [THEN after, rewind]: "set_and_release env d key (v, s) = Some s' \<Longrightarrow> evolves s s'"
  by (auto simp: set_and_release_def split: bind_splits) (erule rewind | assumption | rule start)+

lemma evolves_free_object [THEN after, start]: "evolves s (free_object r s)"
  by (simp add: free_object_def evolves_free)

lemma evolves_buffer [THEN after, rewind]: "alloc_with_buffer b s = (r, s') \<Longrightarrow> evolves s s'"
  by (auto simp: alloc_with_buffer_def split: prod.splits if_splits) (erule rewind | assumption | rule start)+

lemma evolves_scalars [THEN after, rewind]:
  "xpc_int64_create v s = (r, s') \<Longrightarrow> evolves s s'" "xpc_uint64_create v s = (r, s') \<Longrightarrow> evolves s s'"
  "xpc_double_create v s = (r, s') \<Longrightarrow> evolves s s'" "xpc_string_create t s = (r, s') \<Longrightarrow> evolves s s'"
  "xpc_data_create bytes n s = Some (r, s') \<Longrightarrow> evolves s s'"
  by (auto simp: xpc_int64_create_def xpc_uint64_create_def xpc_double_create_def xpc_string_create_def xpc_data_create_def
      intro: rewind split: option.splits if_splits prod.splits)

lemma evolves_container [THEN after, rewind]: "alloc_container b n s = (r, s') \<Longrightarrow> evolves s s'"
  by (auto simp: alloc_container_def split: prod.splits if_splits) (erule rewind | assumption | rule start)+

lemma evolves_setters [THEN after, rewind]:
  "xpc_dictionary_set_bool env d key w s = Some s' \<Longrightarrow> evolves s s'"
  "xpc_dictionary_set_int64 env d key v s = Some s' \<Longrightarrow> evolves s s'"
  "xpc_dictionary_set_uint64 env d key v s = Some s' \<Longrightarrow> evolves s s'"
  "xpc_dictionary_set_double env d key v s = Some s' \<Longrightarrow> evolves s s'"
  "xpc_dictionary_set_string env d key t s = Some s' \<Longrightarrow> evolves s s'"
  "xpc_dictionary_set_data env d key bytes n s = Some s' \<Longrightarrow> evolves s s'"
  "xpc_dictionary_set_mach_send env d key p s = Some s' \<Longrightarrow> evolves s s'"
  "xpc_dictionary_set_mach_recv env d key p s = Some s' \<Longrightarrow> evolves s s'"
proof -
  have *: "evolves s s'" if "set_and_release env d key vs = Some s'" "\<And>v s1. vs = (v, s1) \<Longrightarrow> evolves s s1" for vs
    using that by (cases vs) (auto intro: rewind)
  show "xpc_dictionary_set_bool env d key w s = Some s' \<Longrightarrow> evolves s s'"
    by (auto simp: xpc_dictionary_set_bool_def intro: rewind)
  show "xpc_dictionary_set_int64 env d key v s = Some s' \<Longrightarrow> evolves s s'"
    "xpc_dictionary_set_uint64 env d key v s = Some s' \<Longrightarrow> evolves s s'"
    "xpc_dictionary_set_double env d key v s = Some s' \<Longrightarrow> evolves s s'"
    "xpc_dictionary_set_string env d key t s = Some s' \<Longrightarrow> evolves s s'"
    "xpc_dictionary_set_data env d key bytes n s = Some s' \<Longrightarrow> evolves s s'"
    unfolding xpc_dictionary_set_int64_def xpc_dictionary_set_uint64_def xpc_dictionary_set_double_def
      xpc_dictionary_set_string_def xpc_dictionary_set_data_def
    by (auto elim!: * intro: rewind split: bind_splits)
  show "xpc_dictionary_set_mach_send env d key p s = Some s' \<Longrightarrow> evolves s s'"
    "xpc_dictionary_set_mach_recv env d key p s = Some s' \<Longrightarrow> evolves s s'"
    unfolding xpc_dictionary_set_mach_send_def xpc_dictionary_set_mach_recv_def
    by (auto split: prod.splits if_splits) (erule rewind | rule start)+
qed

lemma evolves_dict_fill [THEN after, rewind]: "dict_fill d i kvs s = Some s' \<Longrightarrow> evolves s s'"
proof (induction kvs arbitrary: i s)
  case (Cons kv kvs)
  obtain key v where kv: "kv = (key, v)" by fastforce
  show ?case
  proof (cases "key = None \<or> v = NULL")
    case False
    then obtain k ks vs n ok s1 s2 s3 s4 where r: "key = Some k" "read_dict s d = Some (Some (ks, vs, n))" "try_alloc s = (ok, s1)"
      "set_body d (dict_body (ks[i := if ok then Some k else None], vs[i := v], n)) s1 = Some s2" "xpc_retain v s2 = Some s3"
      "set_body d (dict_body (ks[i := if ok then Some k else None], vs[i := v], Suc n)) s3 = Some s4" "dict_fill d (Suc i) kvs s4 = Some s'"
      using Cons.prems by (auto simp: kv split: bind_splits option.splits prod.splits)
    then have "evolves s s4" by - (erule rewind | assumption | rule start)+
    then show ?thesis using Cons.IH [OF r(7)] evolves_trans by blast
  qed (use Cons in \<open>auto simp: kv split: option.splits\<close>)
qed auto

lemma evolves_dict_create [THEN after, rewind]: "xpc_dictionary_create keys vals n s = Some (d, s') \<Longrightarrow> evolves s s'"
  by (auto simp: xpc_dictionary_create_def Let_def split: prod.splits if_splits option.splits bind_splits)
    (erule rewind | rule start)+

lemma evolves_create_reply [THEN after, rewind]: "xpc_dictionary_create_reply r s = Some (d, s') \<Longrightarrow> evolves s s'"
  by (auto simp: xpc_dictionary_create_reply_def split: if_splits bind_splits xpc_body.splits)
    (erule rewind | rule start | erule evolves_put [THEN after], simp)+


text \<open>The blocks of the iterations are client code.\<close>

lemma evolves_dict_apply_from:
  "dict_apply_from block d i s = Some y \<Longrightarrow> (\<And>k v s go s'. block k v s = Some (go, s') \<Longrightarrow> evolves s s') \<Longrightarrow> evolves s (snd y)"
proof (induction rule: dict_apply_from.raw_induct [rotated 1, consumes 1])
  case (1 f block d i s y)
  show ?case
  proof (cases "y = (1, s)")
    case False
    then obtain k v go s1 where r: "block k v s = Some (go, s1)" "go \<and> f block d (Suc i) s1 = Some y \<or> y = (0, s1)"
      using 1(2) by (auto split: option.splits if_splits)
    have s1: "evolves s s1" using 1(3) [OF r(1)] .
    show ?thesis
      using r(2)
    proof
      assume "go \<and> f block d (Suc i) s1 = Some y"
      then have "evolves s1 (snd y)" using 1(1) 1(3) by blast
      then show ?thesis using s1 evolves_trans by blast
    qed (use s1 in simp)
  qed simp
qed

section \<open>Arrays\<close>

lemma evolves_array_fill [THEN after, rewind]: "array_fill a i vs s = Some s' \<Longrightarrow> evolves s s'"
proof (induction vs arbitrary: i s)
  case (Cons v vs)
  show ?case
  proof (cases "v = NULL")
    case False
    then obtain ws n s1 s2 s3 where r: "read_array s a = Some (Some (ws, n))" "set_body a (XArray (ws[i := v]) n) s = Some s1"
      "xpc_retain v s1 = Some s2" "set_body a (XArray (ws[i := v]) (Suc n)) s2 = Some s3" "array_fill a (Suc i) vs s3 = Some s'"
      using Cons.prems by (auto split: bind_splits)
    then have "evolves s s3" by - (erule rewind | assumption | rule start)+
    then show ?thesis using Cons.IH [OF r(5)] evolves_trans by blast
  qed (use Cons in auto)
qed auto

lemma evolves_array_create [THEN after, rewind]: "xpc_array_create vals n s = Some (a, s') \<Longrightarrow> evolves s s'"
  by (auto simp: xpc_array_create_def Let_def split: prod.splits if_splits option.splits bind_splits)
    (erule rewind | rule start)+

lemma evolves_array_apply_from:
  "array_apply_from block d i s = Some y \<Longrightarrow> (\<And>j v s go s'. block j v s = Some (go, s') \<Longrightarrow> evolves s s') \<Longrightarrow> evolves s (snd y)"
proof (induction rule: array_apply_from.raw_induct [rotated 1, consumes 1])
  case (1 f block d i s y)
  show ?case
  proof (cases "y = (1, s)")
    case False
    then obtain j v go s1 where r: "block j v s = Some (go, s1)" "go \<and> f block d (Suc i) s1 = Some y \<or> y = (0, s1)"
      using 1(2) by (auto split: option.splits if_splits)
    have s1: "evolves s s1" using 1(3) [OF r(1)] .
    show ?thesis
      using r(2)
    proof
      assume "go \<and> f block d (Suc i) s1 = Some y"
      then have "evolves s1 (snd y)" using 1(1) 1(3) by blast
      then show ?thesis using s1 evolves_trans by blast
    qed (use s1 in simp)
  qed simp
qed

lemma evolves_array_grow [THEN after, rewind]: "array_grow_if_full vs n s = Some (ws, s') \<Longrightarrow> evolves s s'"
  by (auto simp: array_grow_if_full_def intro: rewind split: prod.splits if_splits)

lemma evolves_append [THEN after, rewind]: "xpc_array_append_value a v s = Some s' \<Longrightarrow> evolves s s'"
  by (auto simp: xpc_array_append_value_def split: option.splits if_splits bind_splits)
    (erule rewind | assumption | rule start)+

lemma evolves_array_set:
  "(\<And>v s1. create s = (v, s1) \<Longrightarrow> evolves s s1) \<Longrightarrow> array_set env a i create s = Some s' \<Longrightarrow> evolves s s'"
  by (auto simp: array_set_def split: option.splits if_splits bind_splits prod.splits)
    (erule rewind | assumption | rule start)+

lemma evolves_array_setters [THEN after, rewind]:
  "xpc_array_set_string env a i t s = Some s' \<Longrightarrow> evolves s s'"
  "xpc_array_set_uint64 env a i v s = Some s' \<Longrightarrow> evolves s s'"
  "xpc_array_set_int64 env a i v s = Some s' \<Longrightarrow> evolves s s'"
  unfolding xpc_array_set_string_def xpc_array_set_uint64_def xpc_array_set_int64_def
  by (auto elim!: evolves_array_set [rotated] intro: rewind)

section \<open>Messages\<close>

lemma evolves_serialize [THEN after, rewind]: "xpc_serialize_dict d s = Some (flat, s') \<Longrightarrow> evolves s s'"
  by (auto simp: xpc_serialize_dict_def Let_def split: bind_splits option.splits prod.splits if_splits)
    (erule rewind | rule start)+

lemma evolves_read_value [THEN after, rewind]: "read_value env d buf kind kp n p s = Some s' \<Longrightarrow> evolves s s'"
  by (auto simp: read_value_def intro: rewind split: if_splits bind_splits)

lemma evolves_read_entries [THEN after, rewind]: "read_entries env d buf len n p s = Some s' \<Longrightarrow> evolves s s'"
proof (induction n arbitrary: p s)
  case (Suc n)
  then show ?case
    by (auto simp: Let_def split: if_splits bind_splits) (metis evolves_read_value evolves_refl evolves_trans)
qed auto

lemma evolves_deserialize [THEN after, rewind]: "xpc_deserialize_dict env buf n s = Some (d, s') \<Longrightarrow> evolves s s'"
  by (auto simp: xpc_deserialize_dict_def split: if_splits bind_splits option.splits)
    (erule rewind | rule start)+

section \<open>Who refers to a dictionary\<close>

text \<open>No object but \<open>d\<close> itself refers to \<open>d\<close> that did not before. Reading a message into \<open>d\<close> stores
  references in \<open>d\<close> only, so that the new dictionary is referred to by the program alone.\<close>

definition spares :: "ref \<Rightarrow> 'w xpc \<Rightarrow> 'w xpc \<Rightarrow> bool" where
  "spares d s s' \<longleftrightarrow> (\<forall>r ob'. r \<noteq> d \<longrightarrow> objects s' r = Some ob' \<longrightarrow> d \<in> set (slots (body ob')) \<longrightarrow>
     (\<exists>ob. objects s r = Some ob \<and> d \<in> set (slots (body ob))))"

named_theorems sparing

lemma spares_trans: "spares d s t \<Longrightarrow> spares d t u \<Longrightarrow> spares d s u"
  unfolding spares_def by blast

lemma spared: "spares d t u \<Longrightarrow> spares d s t \<Longrightarrow> spares d s u"
  by (rule spares_trans)

interpretation spare: heap_relation "spares d" for d
proof
  fix s t u :: "'w xpc"
  show "spares d s t \<Longrightarrow> spares d t u \<Longrightarrow> spares d s u" by (rule spares_trans)
qed (auto simp: spares_def put_object_def)

lemmas spares_refl [simp, intro] = spare.step_refl
lemmas spares_try [sparing] = spare.step_try [THEN spared]
lemmas spares_retain [sparing] = spare.step_retain [THEN spared]
lemmas spares_release [sparing] = spare.step_release [THEN spared]

lemma spares_store [sparing]: "set_body d b t = Some u \<Longrightarrow> spares d s t \<Longrightarrow> spares d s u"
  by (auto simp: spares_def set_body_def put_object_def split: bind_splits)

lemma spares_alloc:
  assumes "xpc_alloc b s = (r, s')" "slots b = []"
  shows "spares d s s'"
proof -
  obtain ok s1 where t: "try_alloc s = (ok, s1)" by fastforce
  have "spares d s1 s'" using assms t by (cases ok) (auto simp: xpc_alloc_def spares_def put_object_def split: if_splits)
  then show ?thesis using spares_try [OF t spares_refl] spares_trans by blast
qed

lemma spares_set_value [THEN spared, sparing]: "xpc_dictionary_set_value env d key v s = Some s' \<Longrightarrow> spares d s s'"
  by (auto simp: xpc_dictionary_set_value_def dict_insert_def grow_if_full_def
      split: bind_splits option.splits if_splits prod.splits)
    (erule sparing | rule spares_refl)+

lemma spares_set_and_release:
  "set_and_release env d key vs = Some s' \<Longrightarrow> spares d s (snd vs) \<Longrightarrow> spares d s s'"
  by (auto simp: set_and_release_def split: prod.splits bind_splits) (erule sparing | assumption)+

lemma spares_scalars:
  "spares d s (snd (xpc_int64_create v s))" "spares d s (snd (xpc_uint64_create v s))" "spares d s (snd (xpc_double_create v s))"
  by (auto simp: xpc_int64_create_def xpc_uint64_create_def xpc_double_create_def intro: spares_alloc prod.collapse [symmetric])

lemma spares_buffer:
  assumes "slots b = []"
  shows "spares d s (snd (alloc_with_buffer b s))"
proof -
  obtain r s1 ok s2 where t: "xpc_alloc b s = (r, s1)" "try_alloc s1 = (ok, s2)" by fastforce
  have 2: "spares d s s2" using spares_try [OF t(2) spares_alloc [OF t(1) assms]] .
  have "spares d s2 (free_object r s2)" by (simp add: free_object_def spare.step_free)
  then show ?thesis using t 2 spares_alloc [OF t(1) assms] spares_trans by (auto simp: alloc_with_buffer_def)
qed

lemma spares_data: "xpc_data_create bytes n s = Some vs \<Longrightarrow> spares d s (snd vs)"
proof -
  have b: "spares d s (snd (alloc_with_buffer (XData n p) s))" for p
    by (rule spares_buffer) simp
  have a: "spares d s (snd (xpc_alloc (XData n p) s))" for p
    using spares_alloc [of "XData n p" s] by (metis prod.collapse slots.simps(10))
  show "xpc_data_create bytes n s = Some vs \<Longrightarrow> spares d s (snd vs)"
    using a b by (auto simp: xpc_data_create_def split: option.splits if_splits prod.splits)
qed

lemma spares_read_value [THEN spared, sparing]:
  assumes "read_value env d buf kind kp n p s = Some s'"
  shows "spares d s s'"
proof -
  note setters = xpc_dictionary_set_string_def xpc_dictionary_set_int64_def xpc_dictionary_set_uint64_def
    xpc_dictionary_set_double_def xpc_dictionary_set_bool_def xpc_dictionary_set_data_def xpc_string_create_def
  show ?thesis
    using assms spares_scalars spares_data spares_buffer [of "XString _"] spares_set_value [OF _ spares_refl]
    by (auto simp: read_value_def setters split: if_splits bind_splits elim!: spares_set_and_release)
qed

lemma spares_read_entries: "read_entries env d buf len n p s = Some s' \<Longrightarrow> spares d s s'"
proof (induction n arbitrary: p s)
  case (Suc n)
  then show ?case
    by (auto simp: Let_def split: if_splits bind_splits) (metis spares_read_value spares_refl spares_trans)
qed auto

text \<open>A dictionary read from a message has one reference.\<close>

lemma unshared_count:
  assumes acc: "accounted s (own d + ext)" and d: "owned d" "d \<notin># ext" "objects s d = Some ob"
    and slots: "\<And>r ob. objects s r = Some ob \<Longrightarrow> d \<notin> set (slots (body ob))"
  shows "sint (refcount ob) = 1"
proof -
  have "d \<notin># held Map.empty (objects s) r" for r
    using slots by (auto simp: held_def split: option.split)
  then have "count (\<Sum>r \<in> dom (objects s). held Map.empty (objects s) r) d = 0"
    by (simp add: count_sum not_in_iff)
  then have "count (all_refs Map.empty s [] (own d + ext)) d = 1"
    using d(1,2) by (simp add: all_refs_def own_def not_in_iff)
  then show ?thesis using accounts_count [OF acc d(3)] by (simp add: exact_count_def)
qed

lemma dict_slots_ran:
  assumes "wf_slots ds" "r \<in> set (slots (dict_body ds))"
  shows "r \<in> ran (slots_look ds)"
proof -
  obtain es where es: "holds ds es" "distinct (map fst es)" using wf_cases [OF assms(1)] .
  have "r \<in> snd ` set es" using assms(2) by (auto simp: slots_dict [OF es(1)])
  then obtain k where "(k, r) \<in> set es" by force
  then have "slots_look ds k = Some r" using look_holds [OF es(1)] es(2) by simp
  then show ?thesis by (simp add: ranI)
qed

lemma deserialize_cases:
  assumes "xpc_deserialize_dict env buf len s = Some (d, s')" "d \<noteq> NULL"
  obtains bs n s1 where "xpc_dictionary_create None None 0 s = Some (d, s1)" "read_entries env d bs len n 16 s1 = Some s'"
  using assms that by (auto simp: xpc_deserialize_dict_def split: option.splits if_splits bind_splits)

lemma deserialize_unshared:
  assumes acc: "accounted s ext" "failures s = []" and run: "xpc_deserialize_dict env buf len s = Some (d, s')"
    and d: "dict_at s' (own d + ext) d ds" "objects s' d = Some ob"
  shows "sint (refcount ob) = 1"
proof -
  define ob0 where "ob0 = \<lparr>refcount = 1, reply_port = 0, body = XDictionary (replicate 8 None) (replicate 8 NULL) 0\<rparr>"
  define s1 where "s1 = (put_object (brk s) ob0 s)\<lparr>brk := Suc (brk s)\<rparr>"
  have at: "accounted s' (own d + ext)" "d \<in># own d + ext" "read_dict s' d = Some (Some ds)" "wf_slots ds" "d \<notin> ran (slots_look ds)"
    using d(1) by (simp_all add: dict_at_def)
  have "7 \<le> brk s" using acc(1) by (simp add: accounts_def)
  then have new: "xpc_dictionary_create None None 0 s = Some (brk s, s1)" "brk s \<noteq> NULL"
    using acc(2) by (simp_all add: xpc_dictionary_create_def alloc_container_def alloc_no_failure try_alloc_def put_object_def
        ob0_def s1_def)
  have own: "owned d" using at(1) d(2) by (auto simp: accounts_def)
  then have "d \<noteq> NULL" by (simp add: owned_def)
  from deserialize_cases [OF run this] obtain bs n t where "xpc_dictionary_create None None 0 s = Some (d, t)"
    "read_entries env d bs len n 16 t = Some s'" .
  then have r: "read_entries env d bs len n 16 s1 = Some s'" "d = brk s" using new(1) by simp_all
  have none: "objects s d = None" using acc(1) r(2) by (auto simp: accounts_def)
  have first: "d \<notin> set (slots (body ox))" if x: "objects s1 x = Some ox" for x ox
  proof (cases "x = d")
    case False
    then have "objects s x = Some ox" using x r(2) by (simp add: s1_def put_object_def)
    then show ?thesis using slot_alive [OF acc(1)] none by force
  qed (use x r(2) in \<open>auto simp: s1_def ob0_def put_object_def\<close>)
  have "d \<notin> set (slots (body ox))" if x: "objects s' x = Some ox" for x ox
  proof (cases "x = d")
    case True
    then have "body ox = dict_body ds" using read_dict_owned [OF at(1,2), of ds] at(3) x by simp
    then show ?thesis using dict_slots_ran [OF at(4)] at(5) by auto
  next
    case False
    then show ?thesis using spares_read_entries [OF r(1)] first x unfolding spares_def by blast
  qed
  moreover have "d \<notin># ext" using ext_alive [OF acc(1), of d] none by auto
  ultimately show ?thesis using unshared_count [OF at(1) own _ d(2)] by blast
qed

end
