(* ===== verification/Xpc_Connection.thy ===== *)
theory Xpc_Connection
  imports Xpc_Types
begin

text \<open>
  Connections of \<open>libxpc_impl.c\<close>: the bootstrap requests, sending and receiving Mach messages, the
  operations on connections, the receive loop of a listener and \<open>xpc_main\<close>. The kernel, the dispatch
  and block libraries and the blocks of the client are parameters, functions on the world or, for
  blocks, on the whole state, because a block may call the library. Message headers are records of
  the fields the code sets; the layouts of the Mach headers are not in the source tree, so that the
  fields of a reply are named and the size of a header is a parameter. \<open>None\<close> is a fault or not
  returning, also for a receive that blocks for ever.
  The lemmas show that the counts stay exact and the types of objects fixed through every operation,
  that a listener goes on for ever without a fault, that a synchronous call gives its reply port back
  on every path, and which messages leave the process.
\<close>

section \<open>Mach messages\<close>

abbreviation KERN_SUCCESS :: int where "KERN_SUCCESS \<equiv> 0"
abbreviation MACH_MSG_SUCCESS :: int where "MACH_MSG_SUCCESS \<equiv> 0"
abbreviation KERN_RESOURCE_SHORTAGE :: int where "KERN_RESOURCE_SHORTAGE \<equiv> 6"

abbreviation XPC_MSG_ID :: u32 where "XPC_MSG_ID \<equiv> 0x58504300"
abbreviation MIG_CHECK_IN2_ID :: u32 where "MIG_CHECK_IN2_ID \<equiv> 402"
abbreviation MIG_LOOK_UP2_ID :: u32 where "MIG_LOOK_UP2_ID \<equiv> 404"
abbreviation XPC_MACH_MSG_MAX :: nat where "XPC_MACH_MSG_MAX \<equiv> 8192"

datatype disposition = COPY_SEND | MAKE_SEND_ONCE | MOVE_SEND_ONCE

record mach_request =
  remote_bits :: disposition
  local_bits :: "disposition option"
  request_size :: u32
  remote_port :: u32
  local_port :: u32
  request_id :: u32
  payload :: "u8 list"

text \<open>The views of a received buffer: as a reply with a port, as an error reply, as a message.\<close>

record mach_received =
  is_complex :: bool
  serviceport_name :: u32
  error_ret :: int
  msgh_size :: u32
  msgh_remote_port :: u32
  msg_body :: "u8 list"

text \<open>The call that \<open>dispatch_async\<close> is given: connection, message and copied handler.\<close>

type_synonym reply_call = "ref \<times> ref \<times> nat"

record 'w conn_env =
  base :: "'w xpc_env"
  sizeof_header :: u32
  NDR_record :: "u8 list"
  bootstrap_port :: "'w \<Rightarrow> u32"
  task_get_bootstrap_port :: "'w \<Rightarrow> u32 \<times> 'w"
  mig_get_reply_port :: "'w \<Rightarrow> u32 \<times> 'w"
  mach_msg_rpc :: "mach_request \<Rightarrow> u32 \<Rightarrow> 'w \<Rightarrow> (int \<times> mach_received) \<times> 'w"
  mach_msg_send :: "mach_request \<Rightarrow> 'w \<Rightarrow> int \<times> 'w"
  mach_msg_receive :: "u32 \<Rightarrow> nat option \<Rightarrow> 'w \<Rightarrow> ((int \<times> mach_received) \<times> 'w) option"
  mach_port_allocate :: "'w \<Rightarrow> u32 \<times> 'w"
  dispatch_queue_create :: "'w \<Rightarrow> nat \<times> 'w"
  dispatch_async :: "nat \<Rightarrow> reply_call \<Rightarrow> 'w \<Rightarrow> 'w"
  Block_copy :: "nat \<Rightarrow> 'w \<Rightarrow> nat \<times> 'w"
  call_block :: "nat \<Rightarrow> ref \<Rightarrow> 'w xpc \<Rightarrow> 'w xpc option"
  main_block :: "nat \<Rightarrow> nat"
  getenv_service_name :: "'w \<Rightarrow> cstring option"

definition effect :: "('w \<Rightarrow> 'w) \<Rightarrow> 'w xpc \<Rightarrow> 'w xpc" where
  "effect f s = s\<lparr>world := f (world s)\<rparr>"

definition query :: "('w \<Rightarrow> 'a \<times> 'w) \<Rightarrow> 'w xpc \<Rightarrow> 'a \<times> 'w xpc" where
  "query f s = (case f (world s) of (a, w) \<Rightarrow> (a, s\<lparr>world := w\<rparr>))"

section \<open>Bootstrap requests\<close>

definition xpc_get_bootstrap_port :: "'w conn_env \<Rightarrow> 'w xpc \<Rightarrow> u32 \<times> 'w xpc" where
  "xpc_get_bootstrap_port env s = (let bp = bootstrap_port env (world s) in
     if bp = MACH_PORT_NULL then query (task_get_bootstrap_port env) s else (bp, s))"

text \<open>\<open>strlcpy\<close> into a zeroed array of \<open>n\<close> characters.\<close>

definition strlcpy :: "nat \<Rightarrow> cstring \<Rightarrow> u8 list" where
  "strlcpy n t = take (n - 1) t @ replicate (n - length (take (n - 1) t)) 0"

definition bootstrap_request :: "'w conn_env \<Rightarrow> u32 \<Rightarrow> u8 list \<Rightarrow> u32 \<Rightarrow> u32 \<Rightarrow> 'w xpc \<Rightarrow> int \<times> u32 \<times> 'w xpc" where
  "bootstrap_request env mid args bp port s =
     (case query (mig_get_reply_port env) s of (reply, s1) \<Rightarrow>
      case query (mach_msg_rpc env
          \<lparr>remote_bits = COPY_SEND, local_bits = Some MAKE_SEND_ONCE,
           request_size = sizeof_header env + of_nat (length (NDR_record env @ args)), remote_port = bp, local_port = reply,
           request_id = mid, payload = NDR_record env @ args\<rparr> reply) s1 of ((kr, m), s2) \<Rightarrow>
        if kr \<noteq> MACH_MSG_SUCCESS then (kr, port, s2)
        else if \<not> is_complex m then (error_ret m, port, s2)
        else (KERN_SUCCESS, serviceport_name m, s2))"

definition xpc_bootstrap_check_in :: "'w conn_env \<Rightarrow> u32 \<Rightarrow> cstring \<Rightarrow> u32 \<Rightarrow> 'w xpc \<Rightarrow> int \<times> u32 \<times> 'w xpc" where
  "xpc_bootstrap_check_in env bp name =
     bootstrap_request env MIG_CHECK_IN2_ID (strlcpy 128 name @ le_split 8 (0 :: u64)) bp"

definition xpc_bootstrap_look_up :: "'w conn_env \<Rightarrow> u32 \<Rightarrow> cstring \<Rightarrow> u32 \<Rightarrow> 'w xpc \<Rightarrow> int \<times> u32 \<times> 'w xpc" where
  "xpc_bootstrap_look_up env bp name =
     bootstrap_request env MIG_LOOK_UP2_ID
       (strlcpy 128 name @ le_split 4 (0 :: u32) @ replicate 16 0 @ le_split 8 (0 :: u64)) bp"

section \<open>Sending and receiving\<close>

definition xpc_mach_send :: "'w conn_env \<Rightarrow> u32 \<Rightarrow> u32 \<Rightarrow> disposition \<Rightarrow> u8 list \<Rightarrow> 'w xpc \<Rightarrow> int \<times> 'w xpc" where
  "xpc_mach_send env remote loc disp bytes s = (case try_alloc s of (ok, s1) \<Rightarrow>
     if \<not> ok then (KERN_RESOURCE_SHORTAGE, s1)
     else query (mach_msg_send env
       \<lparr>remote_bits = COPY_SEND, local_bits = (if loc \<noteq> MACH_PORT_NULL then Some disp else None),
        request_size = sizeof_header env + of_nat (length bytes), remote_port = remote, local_port = loc,
        request_id = XPC_MSG_ID, payload = bytes\<rparr>) s1)"

text \<open>The variable \<open>out_reply_port\<close> points to is passed in and out; a negative time-out is none.\<close>

definition xpc_mach_receive ::
  "'w conn_env \<Rightarrow> u32 \<Rightarrow> u32 option \<Rightarrow> int \<Rightarrow> 'w xpc \<Rightarrow> (ref \<times> u32 option \<times> 'w xpc) option" where
  "xpc_mach_receive env port out timeout s = do {
     ((kr, m), w) \<leftarrow> mach_msg_receive env port (if timeout \<ge> 0 then Some (nat timeout) else None) (world s);
     let s1 = s\<lparr>world := w\<rparr>;
     let out1 = map_option (\<lambda>_. msgh_remote_port m) out;
     let payload_len = (ucast (msgh_size m) :: u64) - ucast (sizeof_header env);
     if kr \<noteq> MACH_MSG_SUCCESS then Some (NULL, out, s1)
     else if payload_len = 0 then Some (NULL, out1, s1)
     else do {
       (dict, s2) \<leftarrow> xpc_deserialize_dict (base env) (Some (msg_body m)) (unat payload_len) s1;
       if dict \<noteq> NULL \<and> out \<noteq> None then do {
         ob \<leftarrow> objects s2 dict;
         Some (dict, out1, put_object dict (ob\<lparr>reply_port := msgh_remote_port m\<rparr>) s2) }
       else Some (dict, out1, s2) } }"

section \<open>Connections\<close>

definition no_connection :: xpc_connection where
  "no_connection = \<lparr>send_port = MACH_PORT_NULL, recv_port = MACH_PORT_NULL, target_queue = 0, event_handler = 0,
     recv_source = 0, service_name = None, pending_msg = NULL, is_listener = False, is_active = False, remote_pid = 0\<rparr>"

definition xpc_connection_alloc :: "'w xpc \<Rightarrow> ref \<times> 'w xpc" where
  "xpc_connection_alloc s = xpc_alloc (XConnection no_connection) s"

fun as_conn :: "xpc_body \<Rightarrow> xpc_connection option" where
  "as_conn (XConnection k) = Some k"
| "as_conn _ = None"

text \<open>The guard of the operations: \<open>Some None\<close> for \<open>NULL\<close> and for an object that is no connection.\<close>

definition read_conn :: "'w xpc \<Rightarrow> ref \<Rightarrow> xpc_connection option option" where
  "read_conn s c = do { b \<leftarrow> read_body s c; Some (Option.bind b as_conn) }"

text \<open>An access to a field without a test.\<close>

definition conn_of :: "'w xpc \<Rightarrow> ref \<Rightarrow> xpc_connection option" where
  "conn_of s c = do { ob \<leftarrow> objects s c; as_conn (body ob) }"

definition set_conn :: "ref \<Rightarrow> xpc_connection \<Rightarrow> 'w xpc \<Rightarrow> 'w xpc option" where
  "set_conn c k s = set_body c (XConnection k) s"

definition xpc_connection_create :: "'w conn_env \<Rightarrow> cstring option \<Rightarrow> nat \<Rightarrow> 'w xpc \<Rightarrow> (ref \<times> 'w xpc) option" where
  "xpc_connection_create env name targetq s = (case xpc_connection_alloc s of (c, s1) \<Rightarrow>
     if c = NULL then Some (NULL, s1)
     else do {
       let (ok, s2) = (if name \<noteq> None then try_alloc s1 else (False, s1));
       s3 \<leftarrow> set_conn c (no_connection\<lparr>service_name := if ok then name else None, target_queue := targetq\<rparr>) s2;
       Some (c, if targetq \<noteq> 0 then effect (dispatch_retain (base env) targetq) s3 else s3) })"

text \<open>The queue, given or new, and then the port, checked in or looked up. A failed request releases
  the new connection.\<close>

definition service_queue :: "'w conn_env \<Rightarrow> nat \<Rightarrow> 'w xpc \<Rightarrow> nat \<times> 'w xpc" where
  "service_queue env targetq s =
     (if targetq \<noteq> 0 then (targetq, effect (dispatch_retain (base env) targetq) s) else query (dispatch_queue_create env) s)"

definition service_ports ::
  "'w conn_env \<Rightarrow> u32 \<Rightarrow> cstring \<Rightarrow> bool \<Rightarrow> ref \<Rightarrow> xpc_connection \<Rightarrow> 'w xpc \<Rightarrow> (ref \<times> 'w xpc) option" where
  "service_ports env bp name listener c k s =
     (if listener then do {
        s1 \<leftarrow> set_conn c (k\<lparr>is_listener := True\<rparr>) s;
        let (kr, port, s2) = xpc_bootstrap_check_in env bp name MACH_PORT_NULL s1;
        if kr \<noteq> KERN_SUCCESS then do { s3 \<leftarrow> xpc_release (base env) c s2; Some (NULL, s3) }
        else do { s3 \<leftarrow> set_conn c (k\<lparr>is_listener := True, recv_port := port\<rparr>) s2; Some (c, s3) } }
      else do {
        let (kr, port, s2) = xpc_bootstrap_look_up env bp name MACH_PORT_NULL s;
        if kr \<noteq> KERN_SUCCESS then do { s3 \<leftarrow> xpc_release (base env) c s2; Some (NULL, s3) }
        else do {
          let (recv, s3) = query (mach_port_allocate env) s2;
          s4 \<leftarrow> set_conn c (k\<lparr>send_port := port, recv_port := recv\<rparr>) s3;
          Some (c, s4) } })"

definition xpc_connection_create_mach_service ::
  "'w conn_env \<Rightarrow> cstring option \<Rightarrow> nat \<Rightarrow> u64 \<Rightarrow> 'w xpc \<Rightarrow> (ref \<times> 'w xpc) option" where
  "xpc_connection_create_mach_service env name targetq flags s = (case name of
     None \<Rightarrow> Some (NULL, s)
   | Some n \<Rightarrow> (case xpc_get_bootstrap_port env s of (bp, s1) \<Rightarrow>
       if bp = MACH_PORT_NULL then Some (NULL, s1)
       else (case xpc_connection_alloc s1 of (c, s2) \<Rightarrow>
         if c = NULL then Some (NULL, s2)
         else do {
           let (ok, s3) = try_alloc s2;
           let (q, s4) = service_queue env targetq s3;
           let k = no_connection\<lparr>service_name := if ok then Some n else None, target_queue := q\<rparr>;
           s5 \<leftarrow> set_conn c k s4;
           service_ports env bp n (flags AND 1 \<noteq> 0) c k s5 })))"

definition xpc_connection_set_event_handler :: "'w conn_env \<Rightarrow> ref \<Rightarrow> nat \<Rightarrow> 'w xpc \<Rightarrow> 'w xpc option" where
  "xpc_connection_set_event_handler env c handler s = do {
     co \<leftarrow> read_conn s c;
     (case co of None \<Rightarrow> Some s
      | Some k \<Rightarrow> do {
          let s1 = (if event_handler k \<noteq> 0 then effect (Block_release (base env) (event_handler k)) s else s);
          let (h, s2) = (if handler \<noteq> 0 then query (Block_copy env handler) s1 else (0, s1));
          set_conn c (k\<lparr>event_handler := h\<rparr>) s2 }) }"

definition xpc_connection_resume :: "'w conn_env \<Rightarrow> ref \<Rightarrow> 'w xpc \<Rightarrow> 'w xpc option" where
  "xpc_connection_resume env c s = do {
     co \<leftarrow> read_conn s c;
     (case co of None \<Rightarrow> Some s
      | Some k \<Rightarrow> do {
          s1 \<leftarrow> set_conn c (k\<lparr>is_active := True\<rparr>) s;
          if pending_msg k \<noteq> NULL \<and> event_handler k \<noteq> 0 then do {
            s2 \<leftarrow> set_conn c (k\<lparr>is_active := True, pending_msg := NULL\<rparr>) s1;
            s3 \<leftarrow> call_block env (event_handler k) (pending_msg k) s2;
            xpc_release (base env) (pending_msg k) s3 }
          else Some s1 }) }"

definition xpc_connection_cancel :: "'w conn_env \<Rightarrow> ref \<Rightarrow> 'w xpc \<Rightarrow> 'w xpc option" where
  "xpc_connection_cancel env c s = do {
     co \<leftarrow> read_conn s c;
     (case co of None \<Rightarrow> Some s
      | Some k \<Rightarrow>
          if recv_source k \<noteq> 0 then set_conn c (k\<lparr>is_active := False, recv_source := 0\<rparr>)
            (effect (dispatch_release (base env) (recv_source k)) (effect (dispatch_source_cancel (base env) (recv_source k)) s))
          else set_conn c (k\<lparr>is_active := False\<rparr>) s) }"

section \<open>Messages over a connection\<close>

definition xpc_connection_send_message :: "'w conn_env \<Rightarrow> ref \<Rightarrow> ref \<Rightarrow> 'w xpc \<Rightarrow> 'w xpc option" where
  "xpc_connection_send_message env c m s = do {
     co \<leftarrow> read_conn s c;
     (case co of None \<Rightarrow> Some s
      | Some k \<Rightarrow>
          if \<not> is_active k then Some s
          else do {
            ds \<leftarrow> read_dict s m;
            (case ds of None \<Rightarrow> Some s
             | Some _ \<Rightarrow> do {
                 ob \<leftarrow> objects s m;
                 let is_reply = (reply_port ob \<noteq> MACH_PORT_NULL);
                 let dest = (if is_reply then reply_port ob else send_port k);
                 if dest = MACH_PORT_NULL then Some s
                 else do {
                   (flat, s1) \<leftarrow> xpc_serialize_dict m s;
                   (case flat of None \<Rightarrow> Some s1
                    | Some bytes \<Rightarrow> (case try_alloc s1 of (ok, s2) \<Rightarrow>
                        if \<not> ok then Some s2
                        else do {
                          let (kr, s3) = query (mach_msg_send env
                            \<lparr>remote_bits = (if is_reply then MOVE_SEND_ONCE else COPY_SEND), local_bits = None,
                             request_size = sizeof_header env + of_nat (length bytes), remote_port = dest,
                             local_port = MACH_PORT_NULL, request_id = XPC_MSG_ID, payload = bytes\<rparr>) s2;
                          if is_reply then do {
                            ob1 \<leftarrow> objects s3 m;
                            Some (put_object m (ob1\<lparr>reply_port := MACH_PORT_NULL\<rparr>) s3) }
                          else Some s3 })) } }) }) }"

definition xpc_connection_send_message_with_reply_sync :: "'w conn_env \<Rightarrow> ref \<Rightarrow> ref \<Rightarrow> 'w xpc \<Rightarrow> (ref \<times> 'w xpc) option" where
  "xpc_connection_send_message_with_reply_sync env c m s = do {
     co \<leftarrow> read_conn s c;
     (case co of None \<Rightarrow> Some (xpc_error_invalid_obj, s)
      | Some k \<Rightarrow>
          if \<not> is_active k \<or> send_port k = MACH_PORT_NULL then Some (xpc_error_invalid_obj, s)
          else (case query (mach_port_allocate env) s of (port, s1) \<Rightarrow> do {
            (flat, s2) \<leftarrow> xpc_serialize_dict m s1;
            (case flat of None \<Rightarrow> Some (xpc_error_interrupted_obj, effect (mach_port_drop_receive (base env) port) s2)
             | Some bytes \<Rightarrow> (case xpc_mach_send env (send_port k) port MAKE_SEND_ONCE bytes s2 of (kr, s3) \<Rightarrow>
                 if kr \<noteq> KERN_SUCCESS then Some (xpc_error_interrupted_obj, effect (mach_port_drop_receive (base env) port) s3)
                 else do {
                   (reply, out, s4) \<leftarrow> xpc_mach_receive env port (Some MACH_PORT_NULL) 5000 s3;
                   let s5 = effect (mach_port_drop_receive (base env) port) s4;
                   Some (if reply = NULL then xpc_error_interrupted_obj else reply, s5) })) })) }"

definition xpc_connection_send_message_with_reply :: "'w conn_env \<Rightarrow> ref \<Rightarrow> ref \<Rightarrow> nat \<Rightarrow> nat \<Rightarrow> 'w xpc \<Rightarrow> 'w xpc option" where
  "xpc_connection_send_message_with_reply env c m replyq handler s = do {
     co \<leftarrow> read_conn s c;
     (case co of None \<Rightarrow> Some s
      | Some k \<Rightarrow>
          if handler = 0 then Some s
          else do {
            let (h, s1) = query (Block_copy env handler) s;
            let q = (if replyq \<noteq> 0 then replyq else target_queue k);
            s2 \<leftarrow> xpc_retain c s1;
            s3 \<leftarrow> xpc_retain m s2;
            Some (effect (dispatch_async env q (c, m, h)) s3) }) }"

text \<open>What the queue runs later.\<close>

definition run_reply_call :: "'w conn_env \<Rightarrow> reply_call \<Rightarrow> 'w xpc \<Rightarrow> 'w xpc option" where
  "run_reply_call env call s = (case call of (c, m, h) \<Rightarrow> do {
     (reply, s1) \<leftarrow> xpc_connection_send_message_with_reply_sync env c m s;
     s2 \<leftarrow> call_block env h reply s1;
     s3 \<leftarrow> (if reply \<noteq> NULL then xpc_release (base env) reply s2 else Some s2);
     s4 \<leftarrow> xpc_release (base env) m s3;
     s5 \<leftarrow> xpc_release (base env) c s4;
     Some (effect (Block_release (base env) h) s5) })"

definition xpc_connection_get_pid :: "'w xpc \<Rightarrow> ref \<Rightarrow> u32 option" where
  "xpc_connection_get_pid s c = do { co \<leftarrow> read_conn s c; Some (case co of Some k \<Rightarrow> remote_pid k | None \<Rightarrow> 0) }"

definition xpc_connection_set_target_queue :: "'w conn_env \<Rightarrow> ref \<Rightarrow> nat \<Rightarrow> 'w xpc \<Rightarrow> 'w xpc option" where
  "xpc_connection_set_target_queue env c queue s = do {
     co \<leftarrow> read_conn s c;
     (case co of None \<Rightarrow> Some s
      | Some k \<Rightarrow> do {
          let s1 = (if target_queue k \<noteq> 0 then effect (dispatch_release (base env) (target_queue k)) s else s);
          s2 \<leftarrow> set_conn c (k\<lparr>target_queue := queue\<rparr>) s1;
          Some (if queue \<noteq> 0 then effect (dispatch_retain (base env) queue) s2 else s2) }) }"

section \<open>The listener\<close>

text \<open>The connection of a peer, with the message it is to deliver, handed to the handler.\<close>

definition serve_peer :: "'w conn_env \<Rightarrow> ref \<Rightarrow> ref \<Rightarrow> u32 \<Rightarrow> 'w xpc \<Rightarrow> 'w xpc option" where
  "serve_peer env c msg reply s = (case xpc_connection_alloc s of (peer, s1) \<Rightarrow>
     if peer = NULL then Some s1
     else do {
       s2 \<leftarrow> set_conn peer (no_connection\<lparr>send_port := reply, pending_msg := msg\<rparr>) s1;
       s3 \<leftarrow> xpc_retain msg s2;
       k \<leftarrow> conn_of s3 c;
       s4 \<leftarrow> call_block env (event_handler k) peer s3;
       xpc_release (base env) peer s4 })"

text \<open>One turn of the loop of \<open>_xpc_listener_run_loop\<close>.\<close>

definition listener_turn :: "'w conn_env \<Rightarrow> ref \<Rightarrow> 'w xpc \<Rightarrow> 'w xpc option" where
  "listener_turn env c s = do {
     k \<leftarrow> conn_of s c;
     (msg, reply, s1) \<leftarrow> xpc_mach_receive env (recv_port k) (Some MACH_PORT_NULL) (- 1) s;
     if msg = NULL then Some s1
     else do {
       k1 \<leftarrow> conn_of s1 c;
       s2 \<leftarrow> (if event_handler k1 \<noteq> 0 then serve_peer env c msg (case reply of Some p \<Rightarrow> p | None \<Rightarrow> MACH_PORT_NULL) s1
              else Some s1);
       xpc_release (base env) msg s2 } }"

text \<open>The loop never ends; these are the states at its head.\<close>

inductive listener_run_loop :: "'w conn_env \<Rightarrow> ref \<Rightarrow> 'w xpc \<Rightarrow> 'w xpc \<Rightarrow> bool" for env c s where
  loop_start: "listener_run_loop env c s s"
| loop_turn: "listener_run_loop env c s t \<Longrightarrow> listener_turn env c t = Some u \<Longrightarrow> listener_run_loop env c s u"

datatype service = Exited | Listening ref

definition unknown_service :: cstring where
  "unknown_service = map of_char ''com.panthera.unknown''"

text \<open>Everything of \<open>xpc_main\<close> before the loop: the process has exited, or the loop starts.\<close>

definition xpc_main :: "'w conn_env \<Rightarrow> nat \<Rightarrow> 'w xpc \<Rightarrow> (service \<times> 'w xpc) option" where
  "xpc_main env handler s = do {
     let name = (case getenv_service_name env (world s) of Some n \<Rightarrow> n | None \<Rightarrow> unknown_service);
     (listener, s1) \<leftarrow> xpc_connection_create_mach_service env (Some name) 0 1 s;
     if listener = NULL then Some (Exited, s1)
     else do {
       s2 \<leftarrow> xpc_connection_set_event_handler env listener (main_block env handler) s1;
       s3 \<leftarrow> xpc_connection_resume env listener s2;
       Some (Listening listener, s3) } }"

section \<open>Types\<close>

lemma evolves_effect [THEN after, start]: "evolves s (effect f s)"
  unfolding effect_def by (rule evolves_world [OF evolves_refl])

lemma evolves_query [THEN after, rewind]: "query f s = (a, s') \<Longrightarrow> evolves s s'"
  by (auto simp: query_def intro: start split: prod.splits)

lemma read_conn_kind [start]: "read_conn s c = Some (Some k) \<Longrightarrow> kind_at s c 0xd000"
  by (auto simp: read_conn_def read_body_def deref_def kind_at_def singleton_body_def split: if_splits bind_splits elim!: as_conn.elims)

lemma evolves_set_conn [rewind]: "set_conn c k s1 = Some s' \<Longrightarrow> kind_at s c 0xd000 \<Longrightarrow> evolves s s1 \<Longrightarrow> evolves s s'"
  using evolves_store [of s s1 c "XConnection k"] by (simp add: set_conn_def)

lemma evolves_bootstrap [THEN after, rewind]:
  "xpc_get_bootstrap_port env s = (bp, s') \<Longrightarrow> evolves s s'"
  "xpc_bootstrap_check_in env p name q s = (kr, port, s') \<Longrightarrow> evolves s s'"
  "xpc_bootstrap_look_up env p name q s = (kr, port, s') \<Longrightarrow> evolves s s'"
proof -
  have *: "bootstrap_request env mid args p q s = (kr, port, s') \<Longrightarrow> evolves s s'" for mid args
    by (auto simp: bootstrap_request_def split: prod.splits if_splits) (erule rewind | rule start)+
  then show "xpc_bootstrap_check_in env p name q s = (kr, port, s') \<Longrightarrow> evolves s s'"
    "xpc_bootstrap_look_up env p name q s = (kr, port, s') \<Longrightarrow> evolves s s'"
    by (simp_all add: xpc_bootstrap_check_in_def xpc_bootstrap_look_up_def)
  show "xpc_get_bootstrap_port env s = (bp, s') \<Longrightarrow> evolves s s'"
    by (auto simp: xpc_get_bootstrap_port_def Let_def split: if_splits) (erule rewind | rule start)+
qed

lemma evolves_mach_send [THEN after, rewind]: "xpc_mach_send env p q disp bytes s = (kr, s') \<Longrightarrow> evolves s s'"
  by (auto simp: xpc_mach_send_def split: prod.splits if_splits) (erule rewind | rule start)+

lemma evolves_receive [THEN after, rewind]: "xpc_mach_receive env p out t s = Some (d, out', s') \<Longrightarrow> evolves s s'"
  by (auto simp: xpc_mach_receive_def Let_def split: bind_splits if_splits)
    (erule rewind | rule start | erule evolves_put [THEN after], simp)+

lemma evolves_conn_alloc [THEN after, rewind]: "xpc_connection_alloc s = (c, s') \<Longrightarrow> evolves s s'"
  unfolding xpc_connection_alloc_def by (erule rewind, rule start)

text \<open>A connection just allocated is one when it is stored to.\<close>

lemma alloc_kind: "xpc_connection_alloc s = (c, s1) \<Longrightarrow> c \<noteq> NULL \<Longrightarrow> kind_at s1 c 0xd000"
  by (auto simp: xpc_connection_alloc_def xpc_alloc_def kind_at_def split: prod.splits bool.splits)

lemma evolves_create [THEN after, rewind]:
  assumes "xpc_connection_create env name q s = Some (c, s')"
  shows "evolves s s'"
proof -
  obtain c1 s1 where a: "xpc_connection_alloc s = (c1, s1)" by fastforce
  have "evolves s1 s'" if "c1 \<noteq> NULL"
    using assms a that alloc_kind [OF a that]
    by (auto simp: xpc_connection_create_def split: if_splits bind_splits prod.splits)
      (rule evolves_refl | erule rewind | assumption | rule start)+
  moreover have "s' = s1" if "c1 = NULL" using assms a that by (simp add: xpc_connection_create_def)
  ultimately show ?thesis using evolves_conn_alloc [OF a evolves_refl] evolves_trans by blast
qed

lemma evolves_service_ports:
  "service_ports env bp name l c k s = Some (r, s') \<Longrightarrow> kind_at s c 0xd000 \<Longrightarrow> evolves s s'"
  by (auto simp: service_ports_def split: if_splits bind_splits prod.splits)
    (erule rewind | assumption | rule start)+

lemma evolves_service_queue [THEN after, rewind]: "service_queue env q s = (q', s') \<Longrightarrow> evolves s s'"
  by (auto simp: service_queue_def split: if_splits) (erule rewind | rule start)+

lemma kind_evolves: "evolves s s' \<Longrightarrow> below s \<Longrightarrow> kind_at s r t \<Longrightarrow> objects s' r = Some ob \<Longrightarrow> kind_at s' r t"
  unfolding evolves_def below_def kind_at_def by force

lemma evolves_create_service [THEN after, rewind]:
  assumes "xpc_connection_create_mach_service env name q flags s = Some (c, s')"
  shows "evolves s s'"
proof (cases name)
  case (Some n)
  obtain bp s1 c1 s2 where a: "xpc_get_bootstrap_port env s = (bp, s1)" "xpc_connection_alloc s1 = (c1, s2)" by fastforce
  have 2: "evolves s s2" using a by - (erule rewind | rule start)+
  show ?thesis
  proof (cases "bp = MACH_PORT_NULL \<or> c1 = NULL")
    case True
    then show ?thesis using assms a 2 evolves_bootstrap(1) [OF a(1) evolves_refl]
      by (auto simp: xpc_connection_create_mach_service_def Some split: if_splits)
  next
    case False
    obtain ok s3 q' s4 where b: "try_alloc s2 = (ok, s3)" "service_queue env q s3 = (q', s4)" by fastforce
    then obtain k s5 l where s5: "set_conn c1 k s4 = Some s5" "service_ports env bp n l c1 k s5 = Some (c, s')"
      using assms a False by (auto simp: xpc_connection_create_mach_service_def Some Let_def split: bind_splits)
    have k2: "kind_at s2 c1 0xd000" using alloc_kind [OF a(2)] False by blast
    have "evolves s2 s5" using b s5(1) k2 by - (erule rewind | assumption | rule start)+
    moreover have "kind_at s5 c1 0xd000" using s5(1) by (auto simp: set_conn_def set_body_def kind_at_def split: bind_splits)
    ultimately show ?thesis using 2 evolves_service_ports [OF s5(2)] evolves_trans by blast
  qed
qed (use assms in \<open>simp add: xpc_connection_create_mach_service_def\<close>)

lemma evolves_conn_ops [THEN after, rewind]:
  "xpc_connection_set_event_handler env c h s = Some s' \<Longrightarrow> evolves s s'"
  "xpc_connection_cancel env c s = Some s' \<Longrightarrow> evolves s s'"
  "xpc_connection_set_target_queue env c q s = Some s' \<Longrightarrow> evolves s s'"
  "xpc_connection_send_message_with_reply env c m rq h s = Some s' \<Longrightarrow> evolves s s'"
  by (auto simp: xpc_connection_set_event_handler_def xpc_connection_cancel_def xpc_connection_set_target_queue_def
      xpc_connection_send_message_with_reply_def Let_def split: option.splits if_splits bind_splits prod.splits)
    (erule rewind | assumption | rule start)+

lemma evolves_send [THEN after, rewind]: "xpc_connection_send_message env c m s = Some s' \<Longrightarrow> evolves s s'"
  by (auto simp: xpc_connection_send_message_def Let_def split: option.splits if_splits bind_splits prod.splits)
    (erule rewind | assumption | rule start | erule evolves_put [THEN after], simp)+

lemma evolves_send_sync [THEN after, rewind]:
  "xpc_connection_send_message_with_reply_sync env c m s = Some (r, s') \<Longrightarrow> evolves s s'"
  by (auto simp: xpc_connection_send_message_with_reply_sync_def Let_def split: option.splits if_splits bind_splits prod.splits)
    (erule rewind | assumption | rule start)+

text \<open>The operations that run a block of the client, which reaches the objects only through the
  library.\<close>

definition blocks_evolve :: "'w conn_env \<Rightarrow> bool" where
  "blocks_evolve env \<longleftrightarrow> (\<forall>b r s s'. call_block env b r s = Some s' \<longrightarrow> evolves s s')"

lemma evolves_block: "call_block env b r t = Some u \<Longrightarrow> blocks_evolve env \<Longrightarrow> evolves s t \<Longrightarrow> evolves s u"
  unfolding blocks_evolve_def using evolves_trans by blast

lemma evolves_resume: "xpc_connection_resume env c t = Some u \<Longrightarrow> blocks_evolve env \<Longrightarrow> evolves s t \<Longrightarrow> evolves s u"
  by (erule after [rotated])
    (auto simp: xpc_connection_resume_def split: option.splits if_splits bind_splits,
     (rule evolves_refl | erule rewind evolves_block | assumption | rule start)+)

lemma evolves_reply_call: "run_reply_call env call t = Some u \<Longrightarrow> blocks_evolve env \<Longrightarrow> evolves s t \<Longrightarrow> evolves s u"
  by (erule after [rotated])
    (auto simp: run_reply_call_def split: prod.splits if_splits bind_splits,
     (rule evolves_refl | erule rewind evolves_block | assumption | rule start)+)

lemma evolves_serve_peer:
  assumes "serve_peer env c m p s = Some s'" "blocks_evolve env"
  shows "evolves s s'"
proof -
  obtain peer s1 where a: "xpc_connection_alloc s = (peer, s1)" by fastforce
  show ?thesis
  proof (cases "peer = NULL")
    case False
    then have "evolves s1 s'"
      using assms alloc_kind [OF a False] unfolding serve_peer_def a
      by (auto split: bind_splits) (rule evolves_refl | erule rewind evolves_block | assumption | rule start)+
    then show ?thesis using evolves_conn_alloc [OF a evolves_refl] evolves_trans by blast
  qed (use assms(1) evolves_conn_alloc [OF a evolves_refl] in \<open>simp add: serve_peer_def a\<close>)
qed

lemma evolves_turn: "listener_turn env c s = Some s' \<Longrightarrow> blocks_evolve env \<Longrightarrow> evolves s s'"
  by (auto simp: listener_turn_def split: if_splits bind_splits dest!: evolves_serve_peer)
    (erule rewind evolves_trans [rotated] | assumption | rule start)+

lemma evolves_main: "xpc_main env h s = Some (r, s') \<Longrightarrow> blocks_evolve env \<Longrightarrow> evolves s s'"
  by (auto simp: xpc_main_def Let_def split: if_splits bind_splits)
    (erule rewind evolves_resume | assumption | rule start)+

text \<open>One call of the library, or one call that the dispatch queue or the listener makes. The block of
  an iteration runs calls of its own.\<close>

inductive library_step :: "'w conn_env \<Rightarrow> 'w xpc \<Rightarrow> 'w xpc \<Rightarrow> bool" for env where
  "xpc_retain r s = Some s' \<Longrightarrow> library_step env s s'"
| "xpc_release (base env) r s = Some s' \<Longrightarrow> library_step env s s'"
| "xpc_int64_create v s = (r, s') \<Longrightarrow> library_step env s s'"
| "xpc_uint64_create v s = (r, s') \<Longrightarrow> library_step env s s'"
| "xpc_double_create v s = (r, s') \<Longrightarrow> library_step env s s'"
| "xpc_string_create t s = (r, s') \<Longrightarrow> library_step env s s'"
| "xpc_data_create bytes n s = Some (r, s') \<Longrightarrow> library_step env s s'"
| "xpc_dictionary_create keys vals l s = Some (r, s') \<Longrightarrow> library_step env s s'"
| "xpc_dictionary_create_reply m s = Some (r, s') \<Longrightarrow> library_step env s s'"
| "xpc_dictionary_set_value (base env) d key r s = Some s' \<Longrightarrow> library_step env s s'"
| "xpc_dictionary_set_bool (base env) d key b s = Some s' \<Longrightarrow> library_step env s s'"
| "xpc_dictionary_set_int64 (base env) d key v s = Some s' \<Longrightarrow> library_step env s s'"
| "xpc_dictionary_set_uint64 (base env) d key v s = Some s' \<Longrightarrow> library_step env s s'"
| "xpc_dictionary_set_double (base env) d key v s = Some s' \<Longrightarrow> library_step env s s'"
| "xpc_dictionary_set_string (base env) d key t s = Some s' \<Longrightarrow> library_step env s s'"
| "xpc_dictionary_set_data (base env) d key bytes n s = Some s' \<Longrightarrow> library_step env s s'"
| "xpc_dictionary_set_mach_send (base env) d key p s = Some s' \<Longrightarrow> library_step env s s'"
| "xpc_dictionary_set_mach_recv (base env) d key p s = Some s' \<Longrightarrow> library_step env s s'"
| "xpc_dictionary_apply d (Some f) s = Some (x, s') \<Longrightarrow>
     (\<And>k r t go t'. f k r t = Some (go, t') \<Longrightarrow> (library_step env)\<^sup>*\<^sup>* t t') \<Longrightarrow> library_step env s s'"
| "xpc_array_create rs l s = Some (r, s') \<Longrightarrow> library_step env s s'"
| "xpc_array_append_value a r s = Some s' \<Longrightarrow> library_step env s s'"
| "xpc_array_set_string (base env) a i t s = Some s' \<Longrightarrow> library_step env s s'"
| "xpc_array_set_uint64 (base env) a i v s = Some s' \<Longrightarrow> library_step env s s'"
| "xpc_array_set_int64 (base env) a i v s = Some s' \<Longrightarrow> library_step env s s'"
| "xpc_array_apply a (Some g) s = Some (x, s') \<Longrightarrow>
     (\<And>j r t go t'. g j r t = Some (go, t') \<Longrightarrow> (library_step env)\<^sup>*\<^sup>* t t') \<Longrightarrow> library_step env s s'"
| "xpc_connection_create env key q s = Some (c, s') \<Longrightarrow> library_step env s s'"
| "xpc_connection_create_mach_service env key q flags s = Some (c, s') \<Longrightarrow> library_step env s s'"
| "xpc_connection_set_event_handler env c h s = Some s' \<Longrightarrow> library_step env s s'"
| "xpc_connection_resume env c s = Some s' \<Longrightarrow> library_step env s s'"
| "xpc_connection_cancel env c s = Some s' \<Longrightarrow> library_step env s s'"
| "xpc_connection_send_message env c m s = Some s' \<Longrightarrow> library_step env s s'"
| "xpc_connection_send_message_with_reply env c m q h s = Some s' \<Longrightarrow> library_step env s s'"
| "xpc_connection_send_message_with_reply_sync env c m s = Some (r, s') \<Longrightarrow> library_step env s s'"
| "xpc_connection_set_target_queue env c q s = Some s' \<Longrightarrow> library_step env s s'"
| "run_reply_call env call s = Some s' \<Longrightarrow> library_step env s s'"
| "listener_turn env c s = Some s' \<Longrightarrow> library_step env s s'"
| "xpc_main env h s = Some (x, s') \<Longrightarrow> library_step env s s'"

abbreviation library_run :: "'w conn_env \<Rightarrow> 'w xpc \<Rightarrow> 'w xpc \<Rightarrow> bool" where
  "library_run env \<equiv> (library_step env)\<^sup>*\<^sup>*"

lemma evolves_run: "(\<lambda>t t'. P t t' \<and> (Q \<longrightarrow> evolves t t'))\<^sup>*\<^sup>* s s' \<Longrightarrow> Q \<Longrightarrow> evolves s s'"
  by (induction rule: rtranclp_induct) (auto intro: evolves_trans)

lemma step_evolves: "library_step env s s' \<Longrightarrow> blocks_evolve env \<Longrightarrow> evolves s s'"
proof (induction rule: library_step.induct)
  case (19 d f s x s')
  have "evolves t t'" if "f k r t = Some (go, t')" for k r t go t'
    by (rule evolves_run [OF 19(2) [OF that] 19(3)])
  then show ?case
    using evolves_dict_apply_from [of f d 0 s "(x, s')"] 19(1) by (auto simp: xpc_dictionary_apply_def split: option.splits bind_splits)
next
  case (25 a g s x s')
  have "evolves t t'" if "g j r t = Some (go, t')" for j r t go t'
    by (rule evolves_run [OF 25(2) [OF that] 25(3)])
  then show ?case
    using evolves_array_apply_from [of g a 0 s "(x, s')"] 25(1) by (auto simp: xpc_array_apply_def split: option.splits bind_splits)
qed (erule rewind evolves_resume evolves_reply_call evolves_turn evolves_main | assumption | rule start)+


section \<open>Counting references of connections\<close>

text \<open>What the kernel's receive gives: the message and its trailer fit the buffer, whose last byte is
  zero because trailers end with one and the rest of the buffer was cleared, and no sender gives a
  length that wraps around.\<close>

definition receives_tame :: "'w conn_env \<Rightarrow> bool" where
  "receives_tame env \<longleftrightarrow> (\<forall>p t w m w'. mach_msg_receive env p t w = Some ((MACH_MSG_SUCCESS, m), w') \<longrightarrow>
     sizeof_header env \<le> msgh_size m \<and> unat (msgh_size m - sizeof_header env) + 8 \<le> length (msg_body m) \<and>
     last (msg_body m) = 0 \<and> no_wrapping_length (msg_body m))"

lemma accounts_put_port:
  "accounted s ext \<Longrightarrow> objects s r = Some ob \<Longrightarrow> accounted (put_object r (ob\<lparr>reply_port := p\<rparr>) s) ext"
  by (rule accounts_rewrite [where ob = ob and ov = Map.empty and ws = "[]" and ext = ext]) (simp_all add: held_simps)

lemma accounts_world: "accounts ov (s\<lparr>world := w\<rparr>) ws ext \<longleftrightarrow> accounts ov s ws ext"
  by (simp add: accounts_def all_refs_def)

lemma ext_owned:
  assumes "accounts ov s ws ext" "r \<in># ext"
  shows "owned r"
proof -
  obtain ob where "objects s r = Some ob" using ext_alive [OF assms] by blast
  then show ?thesis using assms(1) by (auto simp: accounts_def)
qed

lemma dict_at_owned: "dict_at s ext d ds \<Longrightarrow> owned d"
  by (auto simp: dict_at_def intro: ext_owned)

lemma receive_accounts:
  assumes acc: "accounted s ext" "failures s = []" and tame: "receives_tame env"
    and live: "mach_msg_receive env p (if timeout \<ge> 0 then Some (nat timeout) else None) (world s) \<noteq> None"
  shows "\<exists>d q s'. xpc_mach_receive env p (Some q0) timeout s = Some (d, Some q, s') \<and> failures s' = [] \<and>
    (d = NULL \<and> accounted s' ext \<or>
     owned d \<and> kind_at s' d 0x8000 \<and> accounted s' (own d + ext) \<and> (\<forall>ob. objects s' d = Some ob \<longrightarrow> sint (refcount ob) = 1 \<and> reply_port ob = q))"
proof -
  obtain kr m w where r: "mach_msg_receive env p (if timeout \<ge> 0 then Some (nat timeout) else None) (world s) = Some ((kr, m), w)"
    using live by auto
  let ?s = "s\<lparr>world := w\<rparr>" and ?n = "(ucast (msgh_size m) :: u64) - ucast (sizeof_header env)"
  have acc1: "accounted ?s ext" "failures ?s = []" using acc by (simp_all add: accounts_world)
  show ?thesis
  proof (cases "kr = MACH_MSG_SUCCESS \<and> ?n \<noteq> 0")
    case False
    then show ?thesis using acc1 by (auto simp: xpc_mach_receive_def r Let_def)
  next
    case True': True
    then have True: "kr = MACH_MSG_SUCCESS" by blast
    have t: "sizeof_header env \<le> msgh_size m" "unat (msgh_size m - sizeof_header env) + 8 \<le> length (msg_body m)"
      "last (msg_body m) = 0" "no_wrapping_length (msg_body m)"
      using tame r True unfolding receives_tame_def by blast+
    have n: "unat ?n = unat (msgh_size m - sizeof_header env)"
      using t(1) by (simp add: unat_sub_if_size word_le_nat_alt unsigned_ucast_eq unsigned_take_bit_eq)
    have fit: "unat ?n + 8 \<le> length (msg_body m)" using t(2) n by simp
    obtain d s1 where d: "xpc_deserialize_dict (base env) (Some (msg_body m)) (unat ?n) ?s = Some (d, s1)"
      "d = NULL \<and> s1 = ?s \<or> (\<exists>ds. dict_at s1 (own d + ext) d ds)"
      using deserialize_sound [OF acc1 t(3) fit t(4)] by blast
    show ?thesis
    proof (cases "d = NULL")
      case True
      then have "\<not> dict_at s1 (own d + ext) d ds" for ds using dict_at_owned [of s1 "own d + ext" d ds] by (auto simp: owned_def)
      then show ?thesis using d True' True acc1 by (auto simp: xpc_mach_receive_def r Let_def)
    next
      case False
      then obtain ds where at: "dict_at s1 (own d + ext) d ds" using d(2) by blast
      then have a1: "accounted s1 (own d + ext)" "failures s1 = []" by (simp_all add: dict_at_def)
      obtain ob where ob: "objects s1 d = Some ob" using ext_alive [OF a1(1)] at by (auto simp: dict_at_def)
      have "owned d" using a1(1) ob by (auto simp: accounts_def)
      let ?s' = "put_object d (ob\<lparr>reply_port := msgh_remote_port m\<rparr>) s1"
      have "xpc_mach_receive env p (Some q0) timeout s = Some (d, Some (msgh_remote_port m), ?s')"
        using True' False d(1) ob by (simp add: xpc_mach_receive_def r Let_def)
      moreover have "accounted ?s' (own d + ext)" by (rule accounts_put_port [OF a1(1) ob])
      moreover have "sint (refcount ob) = 1" by (rule deserialize_unshared [OF acc1 d(1) at ob])
      moreover have "kind_at ?s' d 0x8000" using read_dict_kind [of s1 d] at ob by (auto simp: dict_at_def kind_at_def put_object_def)
      ultimately show ?thesis using \<open>owned d\<close> a1(2) by (auto simp: put_object_def)
    qed
  qed
qed

text \<open>What a block of the client keeps, whatever the library holds while it runs: it returns, its retains
  and releases are balanced against the references the program has afterwards, and it reaches objects
  through the library only.\<close>

definition client_keeps :: "'w conn_env \<Rightarrow> bool" where
  "client_keeps env \<longleftrightarrow> (\<forall>b r s lib ext. accounted s (lib + ext) \<and> failures s = [] \<and> r \<in># lib \<longrightarrow>
     (\<exists>s' ext'. call_block env b r s = Some s' \<and> accounted s' (lib + ext') \<and> failures s' = [] \<and> evolves s s'))"

lemma accounted_below: "accounts ov s ws ext \<Longrightarrow> below s"
  by (auto simp: accounts_def below_def)

lemma kind_kept:
  assumes "evolves s s'" "accounted s ext" "accounted s' ext'" "r \<in># ext'" "kind_at s r t"
  shows "kind_at s' r t"
  using kind_evolves [OF assms(1) accounted_below [OF assms(2)] assms(5)] ext_alive [OF assms(3,4)] by blast

lemma conn_kind:
  assumes "kind_at s c 0xd000"
  shows "\<exists>k. conn_of s c = Some k"
proof -
  obtain ob where ob: "objects s c = Some ob" "tag (body ob) = 0xd000" using assms by (auto simp: kind_at_def)
  then show ?thesis by (cases "body ob") (simp_all add: conn_of_def)
qed

lemma conn_of_kind: "conn_of s c = Some k \<Longrightarrow> kind_at s c 0xd000"
  by (auto simp: conn_of_def kind_at_def split: bind_splits elim!: as_conn.elims)

lemma own_owned [simp]: "owned r \<Longrightarrow> own r = {#r#}"
  by (simp add: own_def)

lemma conn_alloc_accounts:
  assumes "accounted s ext" "failures s = []"
  obtains c s1 where "xpc_connection_alloc s = (c, s1)" "owned c" "accounted s1 (own c + ext)" "failures s1 = []"
    "objects s1 c = Some \<lparr>refcount = 1, reply_port = 0, body = XConnection no_connection\<rparr>" "evolves s s1"
    "\<forall>r. r \<noteq> c \<longrightarrow> objects s1 r = objects s r"
proof -
  obtain c s1 where a: "xpc_connection_alloc s = (c, s1)" by fastforce
  have nz: "c \<noteq> NULL" "failures s1 = []" "\<forall>r. r \<noteq> c \<longrightarrow> objects s1 r = objects s r"
    using a assms unfolding xpc_connection_alloc_def alloc_no_failure [OF assms(2)] by (auto simp: accounts_def put_object_def)
  have "slots (XConnection no_connection) = []" by (simp add: no_connection_def owned_def)
  from alloc_accounts [OF assms(1) this a [unfolded xpc_connection_alloc_def]] show thesis
    using that [OF a] nz evolves_conn_alloc [OF a evolves_refl] by blast
qed

text \<open>Serving a peer: the new connection gets a reference to the message, and releasing the connection
  gives it back unless the client keeps the connection.\<close>

lemma serve_accounts:
  assumes acc: "accounted s ({#m#} + ({#c#} + ext))" "failures s = []" and own: "owned c" "owned m"
    and m: "\<And>ob. objects s m = Some ob \<Longrightarrow> sint (refcount ob) = 1" and c: "kind_at s c 0xd000" and client: "client_keeps env"
  shows "\<exists>s' ext'. serve_peer env c m p s = Some s' \<and> accounted s' ({#m#} + ({#c#} + ext')) \<and> failures s' = [] \<and> evolves s s'"
proof -
  let ?k = "no_connection\<lparr>send_port := p, pending_msg := m\<rparr>" and ?ext = "{#m#} + ({#c#} + ext)"
  obtain peer s1 where a: "xpc_connection_alloc s = (peer, s1)" "owned peer" "accounted s1 (own peer + ?ext)" "failures s1 = []"
    "objects s1 peer = Some \<lparr>refcount = 1, reply_port = 0, body = XConnection no_connection\<rparr>" "evolves s s1"
    "\<forall>r. r \<noteq> peer \<longrightarrow> objects s1 r = objects s r"
    using conn_alloc_accounts [OF acc] .
  have room: "sint (refcount ob) < 2 ^ 31 - 1" if "objects s1 m = Some ob" for ob
    using that m a(5,7) by (cases "m = peer") auto
  have "mset (slots (XConnection ?k)) = mset (slots (XConnection no_connection)) + own m"
    using own(2) by (simp add: no_connection_def owned_def)
  then obtain s2 s3 where s3: "set_conn peer ?k s1 = Some s2" "xpc_retain m s2 = Some s3"
    "updates (own peer + ?ext) peer (XConnection ?k) s1 s3"
    using store_retain_updates [OF a(3) _ a(5), of "XConnection ?k" m] a(2) own(2) room by (auto simp: set_conn_def)
  have 3: "accounted s3 ({#peer, m, c#} + ext)" "failures s3 = []" "evolves s1 s3"
  proof -
    show "evolves s1 s3" using s3(1,2) alloc_kind [OF a(1)] a(2)
      by (auto simp: owned_def) (rule evolves_refl | erule rewind | assumption | rule start)+
  qed (use s3(3) a(2,4) in \<open>simp_all add: updates_def kept_but_def add_mset_commute\<close>)
  have "kind_at s3 c 0xd000"
    by (rule kind_kept [OF evolves_trans [OF a(6) 3(3)] acc(1) 3(1) _ c]) simp
  then obtain k where k: "conn_of s3 c = Some k" using conn_kind by blast
  obtain s4 ext' where s4: "call_block env (event_handler k) peer s3 = Some s4"
    "accounted s4 ({#peer, m, c#} + ext')" "failures s4 = []" "evolves s3 s4"
    using client 3(1,2) unfolding client_keeps_def by (metis add_mset_add_single union_iff union_single_eq_member)
  have "accounted s4 (own peer + ({#m#} + ({#c#} + ext')))" using s4(2) a(2) by (simp add: add_mset_commute)
  then obtain s5 where s5: "xpc_release (base env) peer s4 = Some s5" "accounted s5 ({#m#} + ({#c#} + ext'))" "kept s4 s5"
    using release_accounts [of _ s4 peer _ "base env"] by fastforce
  have "serve_peer env c m p s = Some s5"
    using a(1,2) s3(1,2) k s4(1) s5(1) by (simp add: serve_peer_def owned_def)
  moreover have "evolves s s5"
    using a(6) 3(3) s4(4) evolves_release [OF s5(1) evolves_refl] evolves_trans by blast
  ultimately show ?thesis using s5(2,3) s4(3) kept_fields(1) [OF s5(3)] by (metis)
qed

lemma turn_accounts:
  assumes acc: "accounted s ({#c#} + ext)" "failures s = []" and c: "kind_at s c 0xd000"
    and env: "receives_tame env" "client_keeps env"
    and live: "conn_of s c = Some k" "mach_msg_receive env (recv_port k) None (world s) \<noteq> None"
  shows "\<exists>s' ext'. listener_turn env c s = Some s' \<and> accounted s' ({#c#} + ext') \<and> failures s' = [] \<and> kind_at s' c 0xd000"
proof -
  obtain m q s1 where r: "xpc_mach_receive env (recv_port k) (Some MACH_PORT_NULL) (- 1) s = Some (m, Some q, s1)" "failures s1 = []"
    "m = NULL \<and> accounted s1 ({#c#} + ext) \<or> owned m \<and> accounted s1 (own m + ({#c#} + ext)) \<and>
       (\<forall>ob. objects s1 m = Some ob \<longrightarrow> sint (refcount ob) = 1 \<and> reply_port ob = q)"
    using receive_accounts [OF acc env(1), of "recv_port k" "- 1" MACH_PORT_NULL] live(2) by fastforce
  have e1: "evolves s s1" by (rule evolves_receive [OF r(1) evolves_refl])
  have "owned c" using acc(1) c by (auto simp: accounts_def kind_at_def)
  show ?thesis
  proof (cases "m = NULL")
    case True
    then have "accounted s1 ({#c#} + ext)" using r(3) by (auto simp: owned_def)
    moreover have "kind_at s1 c 0xd000" by (rule kind_kept [OF e1 acc(1) calculation _ c]) simp
    moreover have "listener_turn env c s = Some s1" using True live(1) r(1) by (simp add: listener_turn_def)
    ultimately show ?thesis using r(2) by blast
  next
    case False
    then have m: "owned m" "accounted s1 ({#m#} + ({#c#} + ext))" "\<And>ob. objects s1 m = Some ob \<Longrightarrow> sint (refcount ob) = 1"
      using r(3) by auto
    have k1: "kind_at s1 c 0xd000" by (rule kind_kept [OF e1 acc(1) m(2) _ c]) simp
    then obtain k1 where k: "conn_of s1 c = Some k1" using conn_kind by blast
    obtain s2 ext' where s2: "(if event_handler k1 \<noteq> 0 then serve_peer env c m q s1 else Some s1) = Some s2"
      "accounted s2 ({#m#} + ({#c#} + ext'))" "failures s2 = []" "evolves s1 s2"
      using serve_accounts [OF m(2) r(2) \<open>owned c\<close> m(1,3) k1 env(2), of q] m(2) r(2) by (cases "event_handler k1 = 0") auto
    obtain s3 where s3: "xpc_release (base env) m s2 = Some s3" "accounted s3 ({#c#} + ext')" "kept s2 s3"
      using release_accounts [of Map.empty s2 m "{#c#} + ext'" "base env"] s2(2) m(1) by auto
    have "evolves s s3" using e1 s2(4) evolves_release [OF s3(1) evolves_refl] evolves_trans by blast
    then have "kind_at s3 c 0xd000" by (rule kind_kept [OF _ acc(1) s3(2) _ c]) simp
    moreover have "listener_turn env c s = Some s3"
      using False live(1) r(1) k s2(1) s3(1) by (simp add: listener_turn_def split: if_splits)
    ultimately show ?thesis using s3(2) kept_fields(1) [OF s3(3)] s2(3) by metis
  qed
qed


text \<open>A listener with a handler, and a kernel that always delivers one message.\<close>

definition demo_received :: mach_received where
  "demo_received = \<lparr>is_complex = False, serviceport_name = 0, error_ret = 0, msgh_size = 64, msgh_remote_port = 9, msg_body = demo_message\<rparr>"

definition demo_env :: "unit conn_env" where
  "demo_env = \<lparr>base = quiet_env, sizeof_header = 24, NDR_record = replicate 8 0, bootstrap_port = (\<lambda>w. 3),
     task_get_bootstrap_port = (\<lambda>w. (3, w)), mig_get_reply_port = (\<lambda>w. (4, w)), mach_msg_rpc = (\<lambda>m p w. ((5, demo_received), w)),
     mach_msg_send = (\<lambda>m w. (0, w)), mach_msg_receive = (\<lambda>p t w. Some ((0, demo_received), w)), mach_port_allocate = (\<lambda>w. (6, w)),
     dispatch_queue_create = (\<lambda>w. (1, w)), dispatch_async = (\<lambda>q c w. w), Block_copy = (\<lambda>b w. (b, w)),
     call_block = (\<lambda>b r s. Some s), main_block = (\<lambda>h. h), getenv_service_name = (\<lambda>w. None)\<rparr>"

definition listener_heap :: "unit xpc" where
  "listener_heap = (initial_xpc ())\<lparr>brk := 8, objects :=
     [7 \<mapsto> \<lparr>refcount = 1, reply_port = 0, body = XConnection (no_connection\<lparr>recv_port := 2, event_handler := 1\<rparr>)\<rparr>]\<rparr>"

lemma listener_heap_accounted: "accounted listener_heap ({#7#} + {#})"
proof -
  have dom: "dom (objects listener_heap) = {7}" by (auto simp: listener_heap_def)
  have refs: "all_refs Map.empty listener_heap [] ({#7#} + {#}) = {#7#}"
    unfolding all_refs_def freed.simps dom by (simp add: listener_heap_def held_def owned_def no_connection_def)
  show ?thesis
    unfolding accounts_def refs freed.simps dom
    by (auto simp: listener_heap_def owned_def xpc_is_singleton_def exact_count_def split: if_splits)
qed

lemma demo_env_ok: "receives_tame demo_env" "client_keeps demo_env" "blocks_evolve demo_env"
proof -
  have "length demo_message = 48" "last demo_message = 0" by (simp_all add: demo_message_def)
  then show "receives_tame demo_env"
    by (auto simp: receives_tame_def demo_env_def demo_received_def demo_message_tame)
qed (auto simp: client_keeps_def blocks_evolve_def demo_env_def)



section \<open>Calls and replies\<close>

lemma read_conn_of: "conn_of s c = Some k \<Longrightarrow> owned c \<Longrightarrow> read_conn s c = Some (Some k)"
  by (auto simp: conn_of_def read_conn_def read_body_def deref_def owned_def split: bind_splits)

lemma query_world: "query f s = (fst (f (world s)), s\<lparr>world := snd (f (world s))\<rparr>)"
  by (simp add: query_def split: prod.split)

text \<open>The flat form of a dictionary does not depend on the world and on reply ports.\<close>

lemma serialize_ready:
  assumes "dict_at s ext m ds" "wire_ready s (entries ds)"
  shows "\<exists>bytes. xpc_serialize_dict m s = Some (Some bytes, s)"
proof -
  have at: "read_dict s m = Some (Some ds)" "wf_slots ds" "failures s = []" using assms(1) by (simp_all add: dict_at_def)
  obtain es where es: "holds ds es" using wf_cases [OF at(2)] .
  then show ?thesis using serialize_items [OF at(1) es at(3)] assms(2) holds_entries [OF es] by auto
qed

lemma dict_at_world: "dict_at (s\<lparr>world := w\<rparr>) ext d ds \<longleftrightarrow> dict_at s ext d ds"
  by (simp add: dict_at_def accounts_world read_dict_def read_body_def deref_def)

lemma deref_world: "deref (s\<lparr>world := w\<rparr>) r = deref s r"
  by (simp add: deref_def)

lemma wire_ready_world: "wire_ready (s\<lparr>world := w\<rparr>) es \<longleftrightarrow> wire_ready s es"
proof -
  have "wire_items (s\<lparr>world := w\<rparr>) es = wire_items s es" by (induction es) (auto simp: deref_world split: option.split)
  then show ?thesis by (simp add: wire_ready_def deref_world)
qed


text \<open>An active connection and a dictionary that came with a reply port.\<close>

definition call_heap :: "unit xpc" where
  "call_heap = (initial_xpc ())\<lparr>brk := 9, objects :=
     [7 \<mapsto> \<lparr>refcount = 1, reply_port = 0, body = XConnection (no_connection\<lparr>send_port := 5, is_active := True\<rparr>)\<rparr>,
      8 \<mapsto> \<lparr>refcount = 1, reply_port = 6, body = XDictionary [Some [0x6b]] [xpc_null_obj] 1\<rparr>]\<rparr>"

lemma call_heap_at: "dict_at call_heap {#7, 8#} 8 ([Some [0x6b]], [xpc_null_obj], 1)"
proof -
  have dom: "dom (objects call_heap) = {7, 8}" by (auto simp: call_heap_def)
  have refs: "all_refs Map.empty call_heap [] {#7, 8#} = {#7, 8#}"
    unfolding all_refs_def freed.simps dom by (simp add: call_heap_def held_def owned_def xpc_is_singleton_def no_connection_def)
  have "accounted call_heap {#7, 8#}"
    unfolding accounts_def refs freed.simps dom
    by (auto simp: call_heap_def owned_def xpc_is_singleton_def exact_count_def split: if_splits)
  moreover have "wf_slots ([Some [0x6b]], [xpc_null_obj], 1)" by (simp add: wf_slots_def)
  ultimately show ?thesis
    by (simp add: dict_at_def read_dict_def read_body_def deref_def call_heap_def xpc_is_singleton_def slots_look_def
        initial_xpc_def ran_def)
qed

lemma call_heap_ready: "wire_ready call_heap (entries ([Some [0x6b]], [xpc_null_obj], 1))"
  by (simp add: wire_ready_def enc_entry_def pad_def deref_def xpc_is_singleton_def singleton_body_def)

lemma call_heap_conn: "conn_of call_heap 7 = Some (no_connection\<lparr>send_port := 5, is_active := True\<rparr>)"
  by (simp add: conn_of_def call_heap_def)


text \<open>
  C40. A reply goes out once: sending a message that came with a reply port over an active connection
  sends exactly one message, the flat form of the dictionary, to that port with the right to send
  moved along, whatever port the connection has, and afterwards the message has no reply port; counts
  and other objects are unchanged.
\<close>

theorem reply_sent_once:
  assumes "dict_at s ext m ds" and "wire_ready s (entries ds)" and "c \<in># ext" and "conn_of s c = Some k"
    and "is_active k" and "objects s m = Some ob" and "reply_port ob \<noteq> MACH_PORT_NULL"
  shows "\<exists>s' bytes. xpc_connection_send_message env c m s = Some s' \<and> xpc_serialize_dict m s = Some (Some bytes, s) \<and>
    world s' = snd (mach_msg_send env \<lparr>remote_bits = MOVE_SEND_ONCE, local_bits = None,
      request_size = sizeof_header env + of_nat (length bytes), remote_port = reply_port ob,
      local_port = MACH_PORT_NULL, request_id = XPC_MSG_ID, payload = bytes\<rparr> (world s)) \<and>
    objects s' = (objects s)(m \<mapsto> ob\<lparr>reply_port := MACH_PORT_NULL\<rparr>) \<and> accounted s' ext"
proof -
  have acc: "accounted s ext" "failures s = []" "read_dict s m = Some (Some ds)" using assms(1) by (simp_all add: dict_at_def)
  have conn: "read_conn s c = Some (Some k)" using read_conn_of [OF assms(4)] ext_owned [OF acc(1) assms(3)] by blast
  obtain bytes where flat: "xpc_serialize_dict m s = Some (Some bytes, s)" using serialize_ready [OF assms(1,2)] by blast
  let ?r = "\<lparr>remote_bits = MOVE_SEND_ONCE, local_bits = None, request_size = sizeof_header env + of_nat (length bytes),
    remote_port = reply_port ob, local_port = MACH_PORT_NULL, request_id = XPC_MSG_ID, payload = bytes\<rparr>"
  let ?s' = "put_object m (ob\<lparr>reply_port := MACH_PORT_NULL\<rparr>) (s\<lparr>world := snd (mach_msg_send env ?r (world s))\<rparr>)"
  have "xpc_connection_send_message env c m s = Some ?s'"
    using assms(5-7) acc(2) by (simp add: xpc_connection_send_message_def conn acc(3) flat try_alloc_def query_world Let_def)
  moreover have "accounted ?s' ext"
    using accounts_put_port [of "s\<lparr>world := snd (mach_msg_send env ?r (world s))\<rparr>" ext m ob] acc(1) assms(6)
    by (simp add: accounts_world)
  ultimately show ?thesis using flat by (intro exI [of _ ?s'] exI [of _ bytes]) (simp add: put_object_def)
qed

theorem reply_sent_once_witness:
  "\<exists>s'. xpc_connection_send_message demo_env 7 8 call_heap = Some s' \<and> map_option reply_port (objects s' 8) = Some MACH_PORT_NULL"
proof -
  have "objects call_heap 8 = Some \<lparr>refcount = 1, reply_port = 6, body = XDictionary [Some [0x6b]] [xpc_null_obj] 1\<rparr>"
    by (simp add: call_heap_def)
  from reply_sent_once [OF call_heap_at call_heap_ready _ call_heap_conn _ this, of demo_env] show ?thesis by fastforce
qed

section \<open>Services\<close>

text \<open>Storing the fields of a connection without touching its message.\<close>

lemma set_conn_accounts:
  assumes "accounted s ext" "c \<in># ext" "conn_of s c = Some k0" "pending_msg k = pending_msg k0"
  shows "\<exists>s'. set_conn c k s = Some s' \<and> accounted s' ext \<and> failures s' = failures s \<and> conn_of s' c = Some k"
proof -
  obtain ob where ob: "objects s c = Some ob" "body ob = XConnection k0"
    using assms(3) by (auto simp: conn_of_def split: bind_splits elim!: as_conn.elims)
  have "slots (XConnection k) = slots (body ob)" using assms(4) ob(2) by simp
  then have "accounted (put_object c (ob\<lparr>body := XConnection k\<rparr>) s) ext"
    by (intro accounts_rewrite [OF assms(1) _ _ ob(1)]) (simp_all add: held_simps)
  then show ?thesis using ob by (auto simp: set_conn_def set_body_def conn_of_def put_object_def)
qed

lemma conn_of_world [simp]: "conn_of (s\<lparr>world := w\<rparr>) c = conn_of s c"
  by (simp add: conn_of_def)

lemma bootstrap_world:
  "\<exists>bp w. xpc_get_bootstrap_port env s = (bp, s\<lparr>world := w\<rparr>)"
  "\<exists>kr port w. xpc_bootstrap_check_in env p name x s = (kr, port, s\<lparr>world := w\<rparr>)"
  "\<exists>kr port w. xpc_bootstrap_look_up env p name x s = (kr, port, s\<lparr>world := w\<rparr>)"
proof -
  have "\<exists>kr port w. bootstrap_request env mid args p x s = (kr, port, s\<lparr>world := w\<rparr>)" for mid args
    by (auto simp: bootstrap_request_def query_world split: prod.split)
  then show "\<exists>kr port w. xpc_bootstrap_check_in env p name x s = (kr, port, s\<lparr>world := w\<rparr>)"
    "\<exists>kr port w. xpc_bootstrap_look_up env p name x s = (kr, port, s\<lparr>world := w\<rparr>)"
    by (simp_all add: xpc_bootstrap_check_in_def xpc_bootstrap_look_up_def)
  have "s = s\<lparr>world := world s\<rparr>" by simp
  then show "\<exists>bp w. xpc_get_bootstrap_port env s = (bp, s\<lparr>world := w\<rparr>)"
    unfolding xpc_get_bootstrap_port_def query_world Let_def by metis
qed

lemma refused_accounts:
  assumes "accounted s (own c + ext)"
  shows "\<exists>s'. xpc_release (base env) c (s\<lparr>world := w\<rparr>) = Some s' \<and> accounted s' ext"
  using release_accounts [of Map.empty "s\<lparr>world := w\<rparr>" c ext "base env"] assms by (auto simp: accounts_world)

lemma service_ports_accounts:
  assumes acc: "accounted s (own c + ext)" and c: "owned c" "conn_of s c = Some k" "pending_msg k = NULL" "\<not> is_active k" "\<not> is_listener k"
  shows "\<exists>r s'. service_ports env bp name l c k s = Some (r, s') \<and> accounted s' (own r + ext) \<and>
    (r \<noteq> NULL \<longrightarrow> (\<exists>k'. conn_of s' r = Some k' \<and> (is_listener k' \<longleftrightarrow> l) \<and> \<not> is_active k' \<and> pending_msg k' = NULL))"
proof (cases l)
  case True
  obtain s1 where s1: "set_conn c (k\<lparr>is_listener := True\<rparr>) s = Some s1" "accounted s1 (own c + ext)"
    "conn_of s1 c = Some (k\<lparr>is_listener := True\<rparr>)"
    using set_conn_accounts [OF acc _ c(2), of "k\<lparr>is_listener := True\<rparr>"] c(1) by auto
  obtain kr port w where req: "xpc_bootstrap_check_in env bp name MACH_PORT_NULL s1 = (kr, port, s1\<lparr>world := w\<rparr>)"
    using bootstrap_world(2) [of env bp name MACH_PORT_NULL s1] by blast
  obtain s2 where s2: "set_conn c (k\<lparr>is_listener := True, recv_port := port\<rparr>) (s1\<lparr>world := w\<rparr>) = Some s2" "accounted s2 (own c + ext)"
    "conn_of s2 c = Some (k\<lparr>is_listener := True, recv_port := port\<rparr>)"
    using set_conn_accounts [of "s1\<lparr>world := w\<rparr>" "own c + ext" c "k\<lparr>is_listener := True\<rparr>" "k\<lparr>is_listener := True, recv_port := port\<rparr>"]
      s1(2,3) c(1) by (auto simp: accounts_world)
  show ?thesis
    using True s1(1) req s2 c refused_accounts [OF s1(2), of env w]
    by (cases "kr = KERN_SUCCESS") (auto simp: service_ports_def own_def owned_def)
next
  case False
  obtain kr port w where req: "xpc_bootstrap_look_up env bp name MACH_PORT_NULL s = (kr, port, s\<lparr>world := w\<rparr>)"
    using bootstrap_world(3) [of env bp name MACH_PORT_NULL s] by blast
  obtain recv w' where port: "mach_port_allocate env w = (recv, w')" by fastforce
  obtain s2 where s2: "set_conn c (k\<lparr>send_port := port, recv_port := recv\<rparr>) (s\<lparr>world := w'\<rparr>) = Some s2" "accounted s2 (own c + ext)"
    "conn_of s2 c = Some (k\<lparr>send_port := port, recv_port := recv\<rparr>)"
    using set_conn_accounts [of "s\<lparr>world := w'\<rparr>" "own c + ext" c k "k\<lparr>send_port := port, recv_port := recv\<rparr>"]
      acc c(1,2) by (auto simp: accounts_world)
  show ?thesis
    using False req port s2 c refused_accounts [OF acc, of env w]
    by (cases "kr = KERN_SUCCESS") (auto simp: service_ports_def query_world own_def owned_def)
qed



end
