(* ===== verification/Crypto_Aes.thy ===== *)
theory Crypto_Aes
  imports Panthera_Prelude
begin

text \<open>
  The AES-128 cipher of the kernel cryptography extension (\<open>kexts/corecrypto/src/algorithms/aes128.c\<close>,
  \<open>aes_ecb.c\<close> and \<open>aes_cbc.c\<close>). A state is the list of its sixteen bytes in the order of memory, so that
  \<open>(*state)[i][j]\<close> is element \<open>4 * i + j\<close>, and the round keys are the 176 bytes of the context. The
  functions over several blocks work on the byte memory, where input and output may be the same.
  The lemmas show that decrypting undoes encrypting, block by block and for chained blocks in memory,
  and that the cipher with its tables and shortcuts is the one of the standard, written over the
  field with 256 elements.
\<close>

section \<open>Tables\<close>

definition sbox :: "u8 list" where
  "sbox = [
     0x63, 0x7c, 0x77, 0x7b, 0xf2, 0x6b, 0x6f, 0xc5, 0x30, 0x01, 0x67, 0x2b, 0xfe, 0xd7, 0xab, 0x76,
     0xca, 0x82, 0xc9, 0x7d, 0xfa, 0x59, 0x47, 0xf0, 0xad, 0xd4, 0xa2, 0xaf, 0x9c, 0xa4, 0x72, 0xc0,
     0xb7, 0xfd, 0x93, 0x26, 0x36, 0x3f, 0xf7, 0xcc, 0x34, 0xa5, 0xe5, 0xf1, 0x71, 0xd8, 0x31, 0x15,
     0x04, 0xc7, 0x23, 0xc3, 0x18, 0x96, 0x05, 0x9a, 0x07, 0x12, 0x80, 0xe2, 0xeb, 0x27, 0xb2, 0x75,
     0x09, 0x83, 0x2c, 0x1a, 0x1b, 0x6e, 0x5a, 0xa0, 0x52, 0x3b, 0xd6, 0xb3, 0x29, 0xe3, 0x2f, 0x84,
     0x53, 0xd1, 0x00, 0xed, 0x20, 0xfc, 0xb1, 0x5b, 0x6a, 0xcb, 0xbe, 0x39, 0x4a, 0x4c, 0x58, 0xcf,
     0xd0, 0xef, 0xaa, 0xfb, 0x43, 0x4d, 0x33, 0x85, 0x45, 0xf9, 0x02, 0x7f, 0x50, 0x3c, 0x9f, 0xa8,
     0x51, 0xa3, 0x40, 0x8f, 0x92, 0x9d, 0x38, 0xf5, 0xbc, 0xb6, 0xda, 0x21, 0x10, 0xff, 0xf3, 0xd2,
     0xcd, 0x0c, 0x13, 0xec, 0x5f, 0x97, 0x44, 0x17, 0xc4, 0xa7, 0x7e, 0x3d, 0x64, 0x5d, 0x19, 0x73,
     0x60, 0x81, 0x4f, 0xdc, 0x22, 0x2a, 0x90, 0x88, 0x46, 0xee, 0xb8, 0x14, 0xde, 0x5e, 0x0b, 0xdb,
     0xe0, 0x32, 0x3a, 0x0a, 0x49, 0x06, 0x24, 0x5c, 0xc2, 0xd3, 0xac, 0x62, 0x91, 0x95, 0xe4, 0x79,
     0xe7, 0xc8, 0x37, 0x6d, 0x8d, 0xd5, 0x4e, 0xa9, 0x6c, 0x56, 0xf4, 0xea, 0x65, 0x7a, 0xae, 0x08,
     0xba, 0x78, 0x25, 0x2e, 0x1c, 0xa6, 0xb4, 0xc6, 0xe8, 0xdd, 0x74, 0x1f, 0x4b, 0xbd, 0x8b, 0x8a,
     0x70, 0x3e, 0xb5, 0x66, 0x48, 0x03, 0xf6, 0x0e, 0x61, 0x35, 0x57, 0xb9, 0x86, 0xc1, 0x1d, 0x9e,
     0xe1, 0xf8, 0x98, 0x11, 0x69, 0xd9, 0x8e, 0x94, 0x9b, 0x1e, 0x87, 0xe9, 0xce, 0x55, 0x28, 0xdf,
     0x8c, 0xa1, 0x89, 0x0d, 0xbf, 0xe6, 0x42, 0x68, 0x41, 0x99, 0x2d, 0x0f, 0xb0, 0x54, 0xbb, 0x16]"

definition rsbox :: "u8 list" where
  "rsbox = [
     0x52, 0x09, 0x6a, 0xd5, 0x30, 0x36, 0xa5, 0x38, 0xbf, 0x40, 0xa3, 0x9e, 0x81, 0xf3, 0xd7, 0xfb,
     0x7c, 0xe3, 0x39, 0x82, 0x9b, 0x2f, 0xff, 0x87, 0x34, 0x8e, 0x43, 0x44, 0xc4, 0xde, 0xe9, 0xcb,
     0x54, 0x7b, 0x94, 0x32, 0xa6, 0xc2, 0x23, 0x3d, 0xee, 0x4c, 0x95, 0x0b, 0x42, 0xfa, 0xc3, 0x4e,
     0x08, 0x2e, 0xa1, 0x66, 0x28, 0xd9, 0x24, 0xb2, 0x76, 0x5b, 0xa2, 0x49, 0x6d, 0x8b, 0xd1, 0x25,
     0x72, 0xf8, 0xf6, 0x64, 0x86, 0x68, 0x98, 0x16, 0xd4, 0xa4, 0x5c, 0xcc, 0x5d, 0x65, 0xb6, 0x92,
     0x6c, 0x70, 0x48, 0x50, 0xfd, 0xed, 0xb9, 0xda, 0x5e, 0x15, 0x46, 0x57, 0xa7, 0x8d, 0x9d, 0x84,
     0x90, 0xd8, 0xab, 0x00, 0x8c, 0xbc, 0xd3, 0x0a, 0xf7, 0xe4, 0x58, 0x05, 0xb8, 0xb3, 0x45, 0x06,
     0xd0, 0x2c, 0x1e, 0x8f, 0xca, 0x3f, 0x0f, 0x02, 0xc1, 0xaf, 0xbd, 0x03, 0x01, 0x13, 0x8a, 0x6b,
     0x3a, 0x91, 0x11, 0x41, 0x4f, 0x67, 0xdc, 0xea, 0x97, 0xf2, 0xcf, 0xce, 0xf0, 0xb4, 0xe6, 0x73,
     0x96, 0xac, 0x74, 0x22, 0xe7, 0xad, 0x35, 0x85, 0xe2, 0xf9, 0x37, 0xe8, 0x1c, 0x75, 0xdf, 0x6e,
     0x47, 0xf1, 0x1a, 0x71, 0x1d, 0x29, 0xc5, 0x89, 0x6f, 0xb7, 0x62, 0x0e, 0xaa, 0x18, 0xbe, 0x1b,
     0xfc, 0x56, 0x3e, 0x4b, 0xc6, 0xd2, 0x79, 0x20, 0x9a, 0xdb, 0xc0, 0xfe, 0x78, 0xcd, 0x5a, 0xf4,
     0x1f, 0xdd, 0xa8, 0x33, 0x88, 0x07, 0xc7, 0x31, 0xb1, 0x12, 0x10, 0x59, 0x27, 0x80, 0xec, 0x5f,
     0x60, 0x51, 0x7f, 0xa9, 0x19, 0xb5, 0x4a, 0x0d, 0x2d, 0xe5, 0x7a, 0x9f, 0x93, 0xc9, 0x9c, 0xef,
     0xa0, 0xe0, 0x3b, 0x4d, 0xae, 0x2a, 0xf5, 0xb0, 0xc8, 0xeb, 0xbb, 0x3c, 0x83, 0x53, 0x99, 0x61,
     0x17, 0x2b, 0x04, 0x7e, 0xba, 0x77, 0xd6, 0x26, 0xe1, 0x69, 0x14, 0x63, 0x55, 0x21, 0x0c, 0x7d]"

definition Rcon :: "u8 list" where
  "Rcon = [
     0x8d, 0x01, 0x02, 0x04, 0x08, 0x10, 0x20, 0x40, 0x80, 0x1b, 0x36, 0x6c, 0xd8, 0xab, 0x4d, 0x9a,
     0x2f, 0x5e, 0xbc, 0x63, 0xc6, 0x97, 0x35, 0x6a, 0xd4, 0xb3, 0x7d, 0xfa, 0xef, 0xc5, 0x91, 0x39,
     0x72, 0xe4, 0xd3, 0xbd, 0x61, 0xc2, 0x9f, 0x25, 0x4a, 0x94, 0x33, 0x66, 0xcc, 0x83, 0x1d, 0x3a,
     0x74, 0xe8, 0xcb, 0x8d, 0x01, 0x02, 0x04, 0x08, 0x10, 0x20, 0x40, 0x80, 0x1b, 0x36, 0x6c, 0xd8,
     0xab, 0x4d, 0x9a, 0x2f, 0x5e, 0xbc, 0x63, 0xc6, 0x97, 0x35, 0x6a, 0xd4, 0xb3, 0x7d, 0xfa, 0xef,
     0xc5, 0x91, 0x39, 0x72, 0xe4, 0xd3, 0xbd, 0x61, 0xc2, 0x9f, 0x25, 0x4a, 0x94, 0x33, 0x66, 0xcc,
     0x83, 0x1d, 0x3a, 0x74, 0xe8, 0xcb, 0x8d, 0x01, 0x02, 0x04, 0x08, 0x10, 0x20, 0x40, 0x80, 0x1b,
     0x36, 0x6c, 0xd8, 0xab, 0x4d, 0x9a, 0x2f, 0x5e, 0xbc, 0x63, 0xc6, 0x97, 0x35, 0x6a, 0xd4, 0xb3,
     0x7d, 0xfa, 0xef, 0xc5, 0x91, 0x39, 0x72, 0xe4, 0xd3, 0xbd, 0x61, 0xc2, 0x9f, 0x25, 0x4a, 0x94,
     0x33, 0x66, 0xcc, 0x83, 0x1d, 0x3a, 0x74, 0xe8, 0xcb, 0x8d, 0x01, 0x02, 0x04, 0x08, 0x10, 0x20,
     0x40, 0x80, 0x1b, 0x36, 0x6c, 0xd8, 0xab, 0x4d, 0x9a, 0x2f, 0x5e, 0xbc, 0x63, 0xc6, 0x97, 0x35,
     0x6a, 0xd4, 0xb3, 0x7d, 0xfa, 0xef, 0xc5, 0x91, 0x39, 0x72, 0xe4, 0xd3, 0xbd, 0x61, 0xc2, 0x9f,
     0x25, 0x4a, 0x94, 0x33, 0x66, 0xcc, 0x83, 0x1d, 0x3a, 0x74, 0xe8, 0xcb, 0x8d, 0x01, 0x02, 0x04,
     0x08, 0x10, 0x20, 0x40, 0x80, 0x1b, 0x36, 0x6c, 0xd8, 0xab, 0x4d, 0x9a, 0x2f, 0x5e, 0xbc, 0x63,
     0xc6, 0x97, 0x35, 0x6a, 0xd4, 0xb3, 0x7d, 0xfa, 0xef, 0xc5, 0x91, 0x39, 0x72, 0xe4, 0xd3, 0xbd,
     0x61, 0xc2, 0x9f, 0x25, 0x4a, 0x94, 0x33, 0x66, 0xcc, 0x83, 0x1d, 0x3a, 0x74, 0xe8, 0xcb]"

definition getSBoxValue :: "u8 \<Rightarrow> u8" where
  "getSBoxValue num = sbox ! unat num"

definition getSBoxInvert :: "u8 \<Rightarrow> u8" where
  "getSBoxInvert num = rsbox ! unat num"

section \<open>Round keys\<close>

abbreviation Nk :: nat where "Nk \<equiv> 4"
abbreviation Nr :: nat where "Nr \<equiv> 10"
abbreviation KEYLEN :: nat where "KEYLEN \<equiv> 16"

definition copy_key_word :: "u8 list \<Rightarrow> nat \<Rightarrow> u8 list \<Rightarrow> u8 list" where
  "copy_key_word key i rk = rk[i * 4 := key ! (i * 4), i * 4 + 1 := key ! (i * 4 + 1),
     i * 4 + 2 := key ! (i * 4 + 2), i * 4 + 3 := key ! (i * 4 + 3)]"

text \<open>The branch for keys of more than six words is never taken.\<close>

definition next_temp :: "nat \<Rightarrow> u8 list \<Rightarrow> u8 list" where
  "next_temp i tempa =
     (if i mod Nk = 0 then
        let rotated = [tempa ! 1, tempa ! 2, tempa ! 3, tempa ! 0];
            subst = map getSBoxValue rotated
        in subst[0 := subst ! 0 XOR Rcon ! (i div Nk)]
      else tempa)"

definition expand_word :: "nat \<Rightarrow> u8 list \<Rightarrow> u8 list" where
  "expand_word i rk =
     (let tempa = next_temp i (map (\<lambda>j. rk ! ((i - 1) * 4 + j)) [0..<4])
      in rk[i * 4 := rk ! ((i - Nk) * 4) XOR tempa ! 0, i * 4 + 1 := rk ! ((i - Nk) * 4 + 1) XOR tempa ! 1,
            i * 4 + 2 := rk ! ((i - Nk) * 4 + 2) XOR tempa ! 2, i * 4 + 3 := rk ! ((i - Nk) * 4 + 3) XOR tempa ! 3])"

definition KeyExpansion :: "u8 list \<Rightarrow> u8 list \<Rightarrow> u8 list" where
  "KeyExpansion rk key = fold expand_word [Nk..<4 * (Nr + 1)] (fold (copy_key_word key) [0..<Nk] rk)"

section \<open>Rounds\<close>

definition AddRoundKey :: "u8 list \<Rightarrow> nat \<Rightarrow> u8 list \<Rightarrow> u8 list" where
  "AddRoundKey rk round st = fold (\<lambda>i. fold (\<lambda>j st. st[4 * i + j := st ! (4 * i + j) XOR rk ! (round * 16 + i * 4 + j)]) [0..<4])
     [0..<4] st"

definition SubBytes :: "u8 list \<Rightarrow> u8 list" where
  "SubBytes st = fold (\<lambda>i. fold (\<lambda>j st. st[4 * j + i := getSBoxValue (st ! (4 * j + i))]) [0..<4]) [0..<4] st"

definition ShiftRows :: "u8 list \<Rightarrow> u8 list" where
  "ShiftRows st =
     (let temp = st ! 1; st = st[1 := st ! 5]; st = st[5 := st ! 9]; st = st[9 := st ! 13]; st = st[13 := temp];
          temp = st ! 2; st = st[2 := st ! 10]; st = st[10 := temp];
          temp = st ! 6; st = st[6 := st ! 14]; st = st[14 := temp];
          temp = st ! 3; st = st[3 := st ! 15]; st = st[15 := st ! 11]; st = st[11 := st ! 7]; st = st[7 := temp]
      in st)"

definition xtime :: "u8 \<Rightarrow> u8" where
  "xtime x = push_bit 1 x XOR ((drop_bit 7 x AND 1) * 0x1b)"

definition mix_column :: "nat \<Rightarrow> u8 list \<Rightarrow> u8 list" where
  "mix_column i st =
     (let t = st ! (4 * i);
          Tmp = st ! (4 * i) XOR st ! (4 * i + 1) XOR st ! (4 * i + 2) XOR st ! (4 * i + 3);
          Tm = xtime (st ! (4 * i) XOR st ! (4 * i + 1)); st = st[4 * i := st ! (4 * i) XOR (Tm XOR Tmp)];
          Tm = xtime (st ! (4 * i + 1) XOR st ! (4 * i + 2)); st = st[4 * i + 1 := st ! (4 * i + 1) XOR (Tm XOR Tmp)];
          Tm = xtime (st ! (4 * i + 2) XOR st ! (4 * i + 3)); st = st[4 * i + 2 := st ! (4 * i + 2) XOR (Tm XOR Tmp)];
          Tm = xtime (st ! (4 * i + 3) XOR t); st = st[4 * i + 3 := st ! (4 * i + 3) XOR (Tm XOR Tmp)]
      in st)"

definition MixColumns :: "u8 list \<Rightarrow> u8 list" where
  "MixColumns st = fold mix_column [0..<4] st"

definition Multiply :: "u8 \<Rightarrow> u8 \<Rightarrow> u8" where
  "Multiply x y = ((y AND 1) * x) XOR ((drop_bit 1 y AND 1) * xtime x) XOR ((drop_bit 2 y AND 1) * xtime (xtime x)) XOR
     ((drop_bit 3 y AND 1) * xtime (xtime (xtime x))) XOR ((drop_bit 4 y AND 1) * xtime (xtime (xtime (xtime x))))"

definition inv_mix_column :: "nat \<Rightarrow> u8 list \<Rightarrow> u8 list" where
  "inv_mix_column i st =
     (let a = st ! (4 * i); b = st ! (4 * i + 1); c = st ! (4 * i + 2); d = st ! (4 * i + 3)
      in st[4 * i := Multiply a 0x0e XOR Multiply b 0x0b XOR Multiply c 0x0d XOR Multiply d 0x09,
            4 * i + 1 := Multiply a 0x09 XOR Multiply b 0x0e XOR Multiply c 0x0b XOR Multiply d 0x0d,
            4 * i + 2 := Multiply a 0x0d XOR Multiply b 0x09 XOR Multiply c 0x0e XOR Multiply d 0x0b,
            4 * i + 3 := Multiply a 0x0b XOR Multiply b 0x0d XOR Multiply c 0x09 XOR Multiply d 0x0e])"

definition InvMixColumns :: "u8 list \<Rightarrow> u8 list" where
  "InvMixColumns st = fold inv_mix_column [0..<4] st"

definition InvSubBytes :: "u8 list \<Rightarrow> u8 list" where
  "InvSubBytes st = fold (\<lambda>i. fold (\<lambda>j st. st[4 * j + i := getSBoxInvert (st ! (4 * j + i))]) [0..<4]) [0..<4] st"

definition InvShiftRows :: "u8 list \<Rightarrow> u8 list" where
  "InvShiftRows st =
     (let temp = st ! 13; st = st[13 := st ! 9]; st = st[9 := st ! 5]; st = st[5 := st ! 1]; st = st[1 := temp];
          temp = st ! 2; st = st[2 := st ! 10]; st = st[10 := temp];
          temp = st ! 6; st = st[6 := st ! 14]; st = st[14 := temp];
          temp = st ! 3; st = st[3 := st ! 7]; st = st[7 := st ! 11]; st = st[11 := st ! 15]; st = st[15 := temp]
      in st)"

definition Cipher :: "u8 list \<Rightarrow> u8 list \<Rightarrow> u8 list" where
  "Cipher rk st = AddRoundKey rk Nr (ShiftRows (SubBytes
     (fold (\<lambda>round st. AddRoundKey rk round (MixColumns (ShiftRows (SubBytes st)))) [1..<Nr] (AddRoundKey rk 0 st))))"

definition InvCipher :: "u8 list \<Rightarrow> u8 list \<Rightarrow> u8 list" where
  "InvCipher rk st = AddRoundKey rk 0 (InvSubBytes (InvShiftRows
     (fold (\<lambda>round st. InvMixColumns (AddRoundKey rk round (InvSubBytes (InvShiftRows st)))) (rev [1..<Nr]) (AddRoundKey rk Nr st))))"

section \<open>Blocks in memory\<close>

definition BlockCopy :: "u64 \<Rightarrow> u64 \<Rightarrow> mem \<Rightarrow> mem" where
  "BlockCopy output inp m = fold (\<lambda>i m. m(output + of_nat i := m (inp + of_nat i))) [0..<KEYLEN] m"

definition XorWithIv :: "u64 \<Rightarrow> u64 \<Rightarrow> mem \<Rightarrow> mem" where
  "XorWithIv iv buf m = fold (\<lambda>i m. m(buf + of_nat i := m (buf + of_nat i) XOR m (iv + of_nat i))) [0..<KEYLEN] m"

text \<open>The cipher works in place on the block that \<open>state\<close> points to.\<close>

definition cipher_at :: "(u8 list \<Rightarrow> u8 list) \<Rightarrow> u64 \<Rightarrow> mem \<Rightarrow> mem" where
  "cipher_at f p m = wr_bytes m p (f (rd_bytes m p KEYLEN))"

definition AES128_set_key :: "u8 list \<Rightarrow> u8 list option \<Rightarrow> u8 list" where
  "AES128_set_key rk key = (case key of None \<Rightarrow> rk | Some k \<Rightarrow> KeyExpansion rk k)"

fun AES128_ECB_encrypt :: "u8 list \<Rightarrow> nat \<Rightarrow> u64 \<Rightarrow> u64 \<Rightarrow> mem \<Rightarrow> mem" where
  "AES128_ECB_encrypt rk 0 inp out m = m"
| "AES128_ECB_encrypt rk (Suc n) inp out m =
     AES128_ECB_encrypt rk n (inp + 16) (out + 16) (cipher_at (Cipher rk) out (BlockCopy out inp m))"

fun AES128_ECB_decrypt :: "u8 list \<Rightarrow> nat \<Rightarrow> u64 \<Rightarrow> u64 \<Rightarrow> mem \<Rightarrow> mem" where
  "AES128_ECB_decrypt rk 0 inp out m = m"
| "AES128_ECB_decrypt rk (Suc n) inp out m =
     AES128_ECB_decrypt rk n (inp + 16) (out + 16) (cipher_at (InvCipher rk) out (BlockCopy out inp m))"

fun AES128_CBC_encrypt :: "u8 list \<Rightarrow> u64 \<Rightarrow> nat \<Rightarrow> u64 \<Rightarrow> u64 \<Rightarrow> mem \<Rightarrow> mem" where
  "AES128_CBC_encrypt rk iv 0 inp out m = m"
| "AES128_CBC_encrypt rk iv (Suc n) inp out m =
     (let m1 = cipher_at (Cipher rk) out (XorWithIv iv out (BlockCopy out inp m))
      in AES128_CBC_encrypt rk iv n (inp + 16) (out + 16) (wr_bytes m1 iv (rd_bytes m1 out 16)))"

fun AES128_CBC_decrypt :: "u8 list \<Rightarrow> u64 \<Rightarrow> nat \<Rightarrow> u64 \<Rightarrow> u64 \<Rightarrow> mem \<Rightarrow> mem" where
  "AES128_CBC_decrypt rk iv 0 inp out m = m"
| "AES128_CBC_decrypt rk iv (Suc n) inp out m =
     (let nextiv = rd_bytes m inp 16;
          m1 = XorWithIv iv out (cipher_at (InvCipher rk) out (BlockCopy out inp m))
      in AES128_CBC_decrypt rk iv n (inp + 16) (out + 16) (wr_bytes m1 iv nextiv))"

text \<open>The initialisation of both modes. A length above 32 is in bits; a length that is then not sixteen
  stops the kernel.\<close>

abbreviation CCAES_KEY_SIZE_128 :: u64 where "CCAES_KEY_SIZE_128 \<equiv> 16"

definition pdcmode_aes_init :: "u8 list \<Rightarrow> u64 \<Rightarrow> u8 list option \<Rightarrow> u8 list option" where
  "pdcmode_aes_init rk key_len key =
     (if key_len > 32 \<and> key_len mod 8 \<noteq> 0 then None
      else let key_len = (if key_len > 32 then key_len div 8 else key_len)
           in if key_len \<noteq> CCAES_KEY_SIZE_128 then None else Some (AES128_set_key rk key))"

section \<open>Rounds undone\<close>

lemma upt_four: "[0..<4] = [0, 1, 2, 3 :: nat]"
  by (simp add: upt_rec)

lemma list_update_numeral: "(x # xs)[numeral k := y] = x # xs[pred_numeral k := y]"
  by (simp add: numeral_eq_Suc)

lemma sixteen:
  assumes "length st = 16"
  obtains a b c d e f g h i j k l m n p q where "st = [a, b, c, d, e, f, g, h, i, j, k, l, m, n, p, q]"
  using assms by (auto simp: numeral_eq_Suc length_Suc_conv)

lemma upt_sixteen: "[0..<16] = [0, 1, 2, 3, 4, 5, 6, 7, 8, 9, 10, 11, 12, 13, 14, 15 :: nat]"
  by (simp add: upt_rec)

lemmas explicit = upt_four upt_sixteen list_update_numeral

lemma SubBytes_map: "length st = 16 \<Longrightarrow> SubBytes st = map getSBoxValue st"
  by (erule sixteen) (simp add: SubBytes_def explicit)

lemma InvSubBytes_map: "length st = 16 \<Longrightarrow> InvSubBytes st = map getSBoxInvert st"
  by (erule sixteen) (simp add: InvSubBytes_def explicit)

lemma AddRoundKey_nth:
  "length st = 16 \<Longrightarrow> AddRoundKey rk r st = map (\<lambda>n. st ! n XOR rk ! (r * 16 + n)) [0..<16]"
  by (erule sixteen) (simp add: AddRoundKey_def explicit add.commute)

lemma ShiftRows_perm: "length st = 16 \<Longrightarrow> ShiftRows st = map (\<lambda>n. st ! ((5 * n) mod 16)) [0..<16]"
  by (erule sixteen) (simp add: ShiftRows_def Let_def explicit)

lemma InvShiftRows_ShiftRows: "length st = 16 \<Longrightarrow> InvShiftRows (ShiftRows st) = st"
  by (erule sixteen) (simp add: ShiftRows_def InvShiftRows_def Let_def explicit)

lemma AddRoundKey_twice: "length st = 16 \<Longrightarrow> AddRoundKey rk r (AddRoundKey rk r st) = st"
  by (erule sixteen) (simp add: AddRoundKey_nth explicit xor.assoc)

lemma sbox_rsbox: "\<forall>n \<in> set [0..<256]. rsbox ! unat (sbox ! n) = of_nat n \<and> sbox ! unat (rsbox ! n) = of_nat n"
  by code_simp

lemma getSBoxInvert_value [simp]: "getSBoxInvert (getSBoxValue x) = x"
proof -
  have "unat x \<in> set [0..<256]" using unat_lt2p [of x] by simp
  then have "rsbox ! unat (sbox ! unat x) = of_nat (unat x)" using sbox_rsbox by blast
  then show ?thesis by (simp add: getSBoxInvert_def getSBoxValue_def)
qed

lemma InvSubBytes_SubBytes: "length st = 16 \<Longrightarrow> InvSubBytes (SubBytes st) = st"
  by (simp add: SubBytes_map InvSubBytes_map map_idI)

text \<open>Doubling in the field is linear.\<close>

lemma bit_one_times: "bit ((b AND 1) * c :: u8) n \<longleftrightarrow> bit b 0 \<and> bit c n"
  by (cases "bit b 0") (simp_all add: and_one_eq odd_iff_mod_2_eq_one bit_0 even_iff_mod_2_eq_zero)

lemma xtime_xor: "xtime (x XOR y) = xtime x XOR xtime y"
  by (rule bit_word_eqI) (auto simp: xtime_def bit_one_times bit_simps)

lemma Multiply_values:
  "Multiply x 0x0e = xtime x XOR xtime (xtime x) XOR xtime (xtime (xtime x))"
  "Multiply x 0x0b = x XOR xtime x XOR xtime (xtime (xtime x))"
  "Multiply x 0x0d = x XOR xtime (xtime x) XOR xtime (xtime (xtime x))"
  "Multiply x 0x09 = x XOR xtime (xtime (xtime x))"
  by (simp_all add: Multiply_def xor.assoc)

lemma xor_cancel: "(x :: u8) XOR (x XOR y) = y"
  by (simp add: xor.assoc [symmetric])

lemma InvMixColumns_MixColumns: "length st = 16 \<Longrightarrow> InvMixColumns (MixColumns st) = st"
  by (erule sixteen)
    (simp add: InvMixColumns_def MixColumns_def mix_column_def inv_mix_column_def Let_def explicit Multiply_values xtime_xor
      xor.assoc xor.commute xor.left_commute xor_cancel)

lemma length_ops [simp]:
  "length (SubBytes st) = length st" "length (ShiftRows st) = length st" "length (MixColumns st) = length st"
  "length (AddRoundKey rk r st) = length st" "length (InvSubBytes st) = length st" "length (InvShiftRows st) = length st"
  "length (InvMixColumns st) = length st"
  by (simp_all add: SubBytes_def ShiftRows_def MixColumns_def AddRoundKey_def InvSubBytes_def InvShiftRows_def InvMixColumns_def
      mix_column_def inv_mix_column_def Let_def upt_four)

definition round_of :: "u8 list \<Rightarrow> nat \<Rightarrow> u8 list \<Rightarrow> u8 list" where
  "round_of rk r st = AddRoundKey rk r (MixColumns (ShiftRows (SubBytes st)))"

lemma length_rounds [simp]: "length (fold (round_of rk) rs st) = length st"
  by (induction rs arbitrary: st) (simp_all add: round_of_def)

lemma inverse_rounds:
  assumes "length st = 16"
  shows "fold (\<lambda>r st. InvMixColumns (AddRoundKey rk r (InvSubBytes (InvShiftRows st)))) (rev rs)
    (ShiftRows (SubBytes (fold (round_of rk) rs st))) = ShiftRows (SubBytes st)"
proof (induction rs rule: rev_induct)
  case (snoc r rs)
  let ?v = "fold (round_of rk) rs st"
  have "length ?v = 16" using assms by simp
  then have "InvMixColumns (AddRoundKey rk r (InvSubBytes (InvShiftRows (ShiftRows (SubBytes (round_of rk r ?v)))))) =
      ShiftRows (SubBytes ?v)"
    by (simp add: round_of_def InvShiftRows_ShiftRows InvSubBytes_SubBytes AddRoundKey_twice InvMixColumns_MixColumns)
  then show ?case using snoc by simp
qed simp

lemma Cipher_rounds:
  "Cipher rk st = AddRoundKey rk Nr (ShiftRows (SubBytes (fold (round_of rk) [1..<Nr] (AddRoundKey rk 0 st))))"
  unfolding Cipher_def round_of_def ..

lemma length_Cipher [simp]: "length (Cipher rk st) = length st"
  by (simp add: Cipher_rounds)

lemma length_InvCipher [simp]: "length (InvCipher rk st) = length st"
proof -
  have "length (fold (\<lambda>r st. InvMixColumns (AddRoundKey rk r (InvSubBytes (InvShiftRows st)))) rs st) = length st" for rs st
    by (induction rs arbitrary: st) simp_all
  then show ?thesis by (simp add: InvCipher_def)
qed

lemma InvCipher_Cipher:
  assumes "length st = 16"
  shows "InvCipher rk (Cipher rk st) = st"
proof -
  let ?u = "AddRoundKey rk 0 st"
  have u: "length ?u = 16" using assms by simp
  have "AddRoundKey rk Nr (Cipher rk st) = ShiftRows (SubBytes (fold (round_of rk) [1..<Nr] ?u))"
    unfolding Cipher_rounds using u by (simp add: AddRoundKey_twice)
  then have "InvCipher rk (Cipher rk st) = AddRoundKey rk 0 (InvSubBytes (InvShiftRows (ShiftRows (SubBytes ?u))))"
    unfolding InvCipher_def by (simp only: inverse_rounds [OF u])
  then show ?thesis using u assms by (simp add: InvShiftRows_ShiftRows InvSubBytes_SubBytes AddRoundKey_twice)
qed

section \<open>Blocks in memory\<close>

lemma rd_bytes_map: "rd_bytes m a n = map (\<lambda>i. m (a + of_nat i)) [0..<n]"
  by (rule nth_equalityI) (simp_all add: nth_rd_bytes)

lemma rd_bytes_append: "rd_bytes m a (k + n) = rd_bytes m a k @ rd_bytes m (a + of_nat k) n"
  by (induction k arbitrary: a) (simp_all add: algebra_simps)

lemma store_loop:
  assumes "\<And>i. i < n \<Longrightarrow> f i (wr_bytes m out (map g [0..<i])) = g i"
  shows "fold (\<lambda>i m. m(out + of_nat i := f i m)) [0..<n] m = wr_bytes m out (map g [0..<n])"
  using assms by (induction n) (simp_all add: wr_bytes_append)

lemma outside_prefix:
  assumes "i < n" "n \<le> 2 ^ 64" "inp = out \<or> disjoint_ranges out n inp n"
  shows "\<not> in_range out i (inp + of_nat i)"
proof -
  have "unat (of_nat i :: u64) = i" using assms by (intro unat_of_nat_small) simp
  then have "\<not> in_range out i (out + of_nat i)" by (simp add: in_range_def)
  moreover have "in_range inp n (inp + of_nat i)" using assms by (intro in_range_of_nat)
  ultimately show ?thesis
    using assms(1,3) in_range_mono [of out i "inp + of_nat i" n] unfolding disjoint_ranges_def by auto
qed

lemma BlockCopy_write:
  assumes "inp = out \<or> disjoint_ranges out 16 inp 16"
  shows "BlockCopy out inp m = wr_bytes m out (rd_bytes m inp 16)"
  unfolding BlockCopy_def rd_bytes_map
  by (rule store_loop) (use assms in \<open>simp add: wr_bytes_apply outside_prefix [of _ 16]\<close>)

lemma XorWithIv_write:
  assumes "disjoint_ranges out 16 iv 16"
  shows "XorWithIv iv out m = wr_bytes m out (map2 (XOR) (rd_bytes m out 16) (rd_bytes m iv 16))"
proof -
  have "map2 (XOR) (rd_bytes m out 16) (rd_bytes m iv 16) = map (\<lambda>i. m (out + of_nat i) XOR m (iv + of_nat i)) [0..<16]"
    by (rule nth_equalityI) (simp_all add: nth_rd_bytes)
  then show ?thesis unfolding XorWithIv_def
    by (simp only:) (rule store_loop, use assms in \<open>simp add: wr_bytes_apply outside_prefix [of _ 16]\<close>)
qed

lemma wr_bytes_twice:
  "length cs = length bs \<Longrightarrow> length bs \<le> 2 ^ 64 \<Longrightarrow> wr_bytes (wr_bytes m a bs) a cs = wr_bytes m a cs"
  by (rule ext) (simp add: wr_bytes_apply)

lemma rd_wr_block: "length bs = 16 \<Longrightarrow> rd_bytes (wr_bytes m a bs) a 16 = bs"
  using rd_wr_bytes_same [of bs m a] by simp

lemma cipher_at_write:
  assumes "length bs = 16" "\<And>b. length (f b) = length b"
  shows "cipher_at f a (wr_bytes m a bs) = wr_bytes m a (f bs)"
  using assms by (simp add: cipher_at_def rd_wr_block wr_bytes_twice)

lemma wr_bytes_off: "length bs = n \<Longrightarrow> n \<le> 2 ^ 64 \<Longrightarrow> mem_eq_off a n m (wr_bytes m a bs)"
  by (simp add: mem_eq_off_def wr_bytes_apply)

primrec blocks :: "mem \<Rightarrow> u64 \<Rightarrow> nat \<Rightarrow> u8 list list" where
  "blocks m a 0 = []"
| "blocks m a (Suc n) = rd_bytes m a 16 # blocks m (a + 16) n"

lemma concat_blocks: "concat (blocks m a n) = rd_bytes m a (16 * n)"
proof (induction n arbitrary: a)
  case (Suc n)
  have "rd_bytes m a (16 * Suc n) = rd_bytes m a (16 + 16 * n)" by simp
  then show ?case unfolding rd_bytes_append using Suc by simp
qed simp

lemma block_lengths: "b \<in> set (blocks m a n) \<Longrightarrow> length b = 16"
  by (induction n arbitrary: a) auto

lemma blocks_cong: "mem_eq_on a (16 * n) m m' \<Longrightarrow> 16 * n \<le> 2 ^ 64 \<Longrightarrow> blocks m a n = blocks m' a n"
proof (induction n arbitrary: a)
  case (Suc n)
  have "mem_eq_on (a + 16) (16 * n) m m'" using Suc.prems mem_eq_on_sub [of a "16 * Suc n" m m' 16] by simp
  moreover have "mem_eq_on a 16 m m'" using Suc.prems mem_eq_on_mono by fastforce
  ultimately show ?case using Suc by (simp add: rd_bytes_cong)
qed simp

text \<open>The two regions of a call: the same, or apart.\<close>

definition in_place_or_apart :: "u64 \<Rightarrow> u64 \<Rightarrow> nat \<Rightarrow> bool" where
  "in_place_or_apart inp out n \<longleftrightarrow> inp = out \<or> disjoint_ranges out (16 * n) inp (16 * n)"

lemma first_block_apart:
  assumes "in_place_or_apart inp out (Suc n)" "16 * Suc n \<le> 2 ^ 64"
  shows "inp = out \<or> disjoint_ranges out 16 inp 16" "disjoint_ranges out 16 (inp + 16) (16 * n)"
    "in_place_or_apart (inp + 16) (out + 16) n" "disjoint_ranges (out + 16) (16 * n) out 16"
proof -
  have self: "disjoint_ranges a 16 (a + 16) (16 * n)" for a :: u64
    using assms disjoint_offsets [of 0 16 16 "16 * n" a] by simp
  have sub: "disjoint_ranges (a + x) j (b + y) k" if "disjoint_ranges a (16 * Suc n) b (16 * Suc n)" "unat x + j \<le> 16 * Suc n" "unat y + k \<le> 16 * Suc n" for a b x y :: u64 and j k
    using that by (meson disjoint_ranges_sub disjoint_ranges_sym)
  show "inp = out \<or> disjoint_ranges out 16 inp 16" "disjoint_ranges out 16 (inp + 16) (16 * n)"
    "in_place_or_apart (inp + 16) (out + 16) n" "disjoint_ranges (out + 16) (16 * n) out 16"
    using assms self sub [of out inp 0 16 0 16] sub [of out inp 0 16 16 "16 * n"] sub [of out inp 16 "16 * n" 16 "16 * n"]
    by (auto simp: in_place_or_apart_def intro: disjoint_ranges_sym)
qed

text \<open>A mode without chaining, whatever the function of a block.\<close>

locale block_loop =
  fixes f :: "u8 list \<Rightarrow> u8 list" and run :: "nat \<Rightarrow> u64 \<Rightarrow> u64 \<Rightarrow> mem \<Rightarrow> mem"
  assumes length_block: "length (f b) = length b"
    and run_0: "run 0 inp out m = m"
    and run_Suc: "run (Suc n) inp out m = run n (inp + 16) (out + 16) (cipher_at f out (BlockCopy out inp m))"
begin

lemma run_blocks:
  assumes "in_place_or_apart inp out n" "16 * n \<le> 2 ^ 64"
  shows "blocks (run n inp out m) out n = map f (blocks m inp n)" "mem_eq_off out (16 * n) m (run n inp out m)"
proof -
  have "blocks (run n inp out m) out n = map f (blocks m inp n) \<and> mem_eq_off out (16 * n) m (run n inp out m)"
    using assms
  proof (induction n arbitrary: inp out m)
    case (Suc n)
    note apart = first_block_apart [OF Suc.prems]
    let ?m = "wr_bytes m out (f (rd_bytes m inp 16))"
    have run: "run (Suc n) inp out m = run n (inp + 16) (out + 16) ?m"
      by (simp add: run_Suc BlockCopy_write [OF apart(1)] cipher_at_write length_block)
    have IH: "blocks (run n (inp + 16) (out + 16) ?m) (out + 16) n = map f (blocks ?m (inp + 16) n)"
        "mem_eq_off (out + 16) (16 * n) ?m (run n (inp + 16) (out + 16) ?m)"
      using Suc.IH [OF apart(3)] Suc.prems by simp_all
    have off: "mem_eq_off out 16 m ?m" by (simp add: wr_bytes_off length_block)
    have "blocks ?m (inp + 16) n = blocks m (inp + 16) n"
      using mem_eq_off_on [OF off apart(2)] Suc.prems by (intro blocks_cong) simp_all
    moreover have "rd_bytes (run n (inp + 16) (out + 16) ?m) out 16 = f (rd_bytes m inp 16)"
      using rd_bytes_cong [OF mem_eq_off_on [OF IH(2) apart(4)]] by (simp add: rd_wr_block length_block)
    moreover have "mem_eq_off out (16 * Suc n) m (run n (inp + 16) (out + 16) ?m)"
      using off IH(2) Suc.prems in_range_sub [of 16 "16 * n" "16 * Suc n" out] in_range_mono [of out 16 _ "16 * Suc n"]
      unfolding mem_eq_off_def by fastforce
    ultimately show ?case using IH(1) by (simp add: run)
  qed (simp add: run_0)
  then show "blocks (run n inp out m) out n = map f (blocks m inp n)" "mem_eq_off out (16 * n) m (run n inp out m)" by simp_all
qed

end

interpretation ecb_encrypt: block_loop "Cipher rk" "AES128_ECB_encrypt rk"
  by unfold_locales simp_all

interpretation ecb_decrypt: block_loop "InvCipher rk" "AES128_ECB_decrypt rk"
  by unfold_locales simp_all

text \<open>A mode where each block also depends on the bytes at \<open>iv\<close> and leaves them changed for the next: what
  it computes from them and a block is \<open>step\<close>.\<close>

primrec chain :: "('v \<Rightarrow> 'b \<Rightarrow> 'b \<times> 'v) \<Rightarrow> 'v \<Rightarrow> 'b list \<Rightarrow> 'b list" where
  "chain step v [] = []"
| "chain step v (b # bs) = fst (step v b) # chain step (snd (step v b)) bs"

definition cbc_encrypt_step :: "u8 list \<Rightarrow> u8 list \<Rightarrow> u8 list \<Rightarrow> u8 list \<times> u8 list" where
  "cbc_encrypt_step rk v b = (let c = Cipher rk (map2 (XOR) b v) in (c, c))"

definition cbc_decrypt_step :: "u8 list \<Rightarrow> u8 list \<Rightarrow> u8 list \<Rightarrow> u8 list \<times> u8 list" where
  "cbc_decrypt_step rk v c = (map2 (XOR) (InvCipher rk c) v, c)"

locale chained_loop =
  fixes step :: "u8 list \<Rightarrow> u8 list \<Rightarrow> u8 list \<times> u8 list" and run :: "u64 \<Rightarrow> nat \<Rightarrow> u64 \<Rightarrow> u64 \<Rightarrow> mem \<Rightarrow> mem"
  assumes step_lengths: "length v = 16 \<Longrightarrow> length b = 16 \<Longrightarrow> length (fst (step v b)) = 16 \<and> length (snd (step v b)) = 16"
    and run_0: "run iv 0 inp out m = m"
    and run_Suc: "inp = out \<or> disjoint_ranges out 16 inp 16 \<Longrightarrow> disjoint_ranges out 16 iv 16 \<Longrightarrow>
      run iv (Suc n) inp out m = run iv n (inp + 16) (out + 16)
        (wr_bytes (wr_bytes m out (fst (step (rd_bytes m iv 16) (rd_bytes m inp 16)))) iv (snd (step (rd_bytes m iv 16) (rd_bytes m inp 16))))"
begin

lemma run_chain:
  assumes "in_place_or_apart inp out n" "16 * n \<le> 2 ^ 64" "disjoint_ranges out (16 * n) iv 16" "disjoint_ranges inp (16 * n) iv 16"
  shows "blocks (run iv n inp out m) out n = chain step (rd_bytes m iv 16) (blocks m inp n)"
    "\<not> in_range out (16 * n) x \<Longrightarrow> \<not> in_range iv 16 x \<Longrightarrow> run iv n inp out m x = m x"
proof -
  have "blocks (run iv n inp out m) out n = chain step (rd_bytes m iv 16) (blocks m inp n) \<and>
      (\<forall>x. \<not> in_range out (16 * n) x \<longrightarrow> \<not> in_range iv 16 x \<longrightarrow> run iv n inp out m x = m x)"
    using assms
  proof (induction n arbitrary: inp out m)
    case (Suc n)
    note apart = first_block_apart [OF Suc.prems(1,2)]
    have iv: "disjoint_ranges out 16 iv 16" "disjoint_ranges (out + 16) (16 * n) iv 16" "disjoint_ranges (inp + 16) (16 * n) iv 16"
      using disjoint_ranges_sub [OF Suc.prems(3), of 0 16] disjoint_ranges_sub [OF Suc.prems(3), of 16 "16 * n"]
        disjoint_ranges_sub [OF Suc.prems(4), of 16 "16 * n"] by simp_all
    obtain c v where s: "step (rd_bytes m iv 16) (rd_bytes m inp 16) = (c, v)" by fastforce
    then have len: "length c = 16" "length v = 16" using step_lengths [of "rd_bytes m iv 16" "rd_bytes m inp 16"] by simp_all
    let ?m = "wr_bytes (wr_bytes m out c) iv v" and ?r = "run iv n (inp + 16) (out + 16)"
    have run: "run iv (Suc n) inp out m = ?r ?m" using run_Suc [OF apart(1) iv(1)] s by simp
    have IH: "blocks (?r ?m) (out + 16) n = chain step (rd_bytes ?m iv 16) (blocks ?m (inp + 16) n)"
        "\<And>x. \<not> in_range (out + 16) (16 * n) x \<Longrightarrow> \<not> in_range iv 16 x \<Longrightarrow> ?r ?m x = ?m x"
      using Suc.IH [OF apart(3) _ iv(2,3)] Suc.prems by simp_all
    have m: "\<not> in_range out 16 x \<Longrightarrow> \<not> in_range iv 16 x \<Longrightarrow> ?m x = m x" "\<not> in_range iv 16 x \<Longrightarrow> ?m x = wr_bytes m out c x" for x
      using len by (simp_all add: wr_bytes_apply)
    have "blocks ?m (inp + 16) n = blocks m (inp + 16) n"
      using m(1) apart(2) iv(3) Suc.prems by (intro blocks_cong) (auto simp: mem_eq_on_def disjoint_ranges_def)
    moreover have "mem_eq_on out 16 (?r ?m) (wr_bytes m out c)"
      using IH(2) m(2) apart(4) iv(1) unfolding mem_eq_on_def disjoint_ranges_def by metis
    then have "rd_bytes (?r ?m) out 16 = c" using rd_bytes_cong [of out 16] rd_wr_block [OF len(1)] by simp
    moreover have "?r ?m x = m x" if "\<not> in_range out (16 * Suc n) x" "\<not> in_range iv 16 x" for x
    proof -
      have "\<not> in_range (out + 16) (16 * n) x" "\<not> in_range out 16 x"
        using that in_range_sub [of 16 "16 * n" "16 * Suc n" out x] in_range_mono [of out 16 x "16 * Suc n"] by auto
      then show ?thesis using that IH(2) m(1) by metis
    qed
    ultimately show ?case using IH(1) s len by (simp add: run rd_wr_block)
  qed (simp add: run_0)
  then show "blocks (run iv n inp out m) out n = chain step (rd_bytes m iv 16) (blocks m inp n)"
    "\<not> in_range out (16 * n) x \<Longrightarrow> \<not> in_range iv 16 x \<Longrightarrow> run iv n inp out m x = m x" by simp_all
qed

end

interpretation cbc_encrypt: chained_loop "cbc_encrypt_step rk" "AES128_CBC_encrypt rk"
proof (unfold_locales, goal_cases)
  case (3 inp out iv n m)
  then show ?case
    by (simp add: Let_def BlockCopy_write XorWithIv_write rd_wr_block wr_bytes_twice cipher_at_write cbc_encrypt_step_def
        rd_wr_bytes_disjoint)
qed (simp_all add: cbc_encrypt_step_def Let_def)

interpretation cbc_decrypt: chained_loop "cbc_decrypt_step rk" "AES128_CBC_decrypt rk"
proof (unfold_locales, goal_cases)
  case (3 inp out iv n m)
  then show ?case
    by (simp add: Let_def BlockCopy_write XorWithIv_write rd_wr_block wr_bytes_twice cipher_at_write cbc_decrypt_step_def
        rd_wr_bytes_disjoint)
qed (simp_all add: cbc_decrypt_step_def Let_def)

lemma xor_block_twice: "length b = length v \<Longrightarrow> map2 (XOR) (map2 (XOR) b v) v = (b :: u8 list)"
  by (rule nth_equalityI) (simp_all add: xor.assoc)

lemma chain_round_trip:
  assumes "length v = 16" "\<forall>b \<in> set bs. length b = 16"
  shows "chain (cbc_decrypt_step rk) v (chain (cbc_encrypt_step rk) v bs) = bs"
  using assms
proof (induction bs arbitrary: v)
  case (Cons b bs)
  then show ?case
    by (simp add: cbc_encrypt_step_def [of rk v b] cbc_decrypt_step_def Let_def InvCipher_Cipher xor_block_twice)
qed simp

text \<open>C3. Decrypting undoes encrypting for chained blocks in memory: with the chaining bytes restored, the
  decryption of what the encryption wrote is the text that was there, for any number of blocks, in place
  or between separate buffers, as long as the chaining bytes lie outside the buffers.\<close>

theorem cbc_round_trip:
  assumes "16 * n \<le> 2 ^ 64" "in_place_or_apart inp out n" "in_place_or_apart out dst n"
    and "disjoint_ranges inp (16 * n) iv 16" "disjoint_ranges out (16 * n) iv 16" "disjoint_ranges dst (16 * n) iv 16"
  shows "rd_bytes (AES128_CBC_decrypt rk iv n out dst (wr_bytes (AES128_CBC_encrypt rk iv n inp out m) iv (rd_bytes m iv 16)))
    dst (16 * n) = rd_bytes m inp (16 * n)"
proof -
  let ?v = "rd_bytes m iv 16" and ?m = "AES128_CBC_encrypt rk iv n inp out m"
  let ?m' = "wr_bytes ?m iv ?v"
  have "mem_eq_off iv 16 ?m ?m'" by (simp add: wr_bytes_off)
  then have "blocks ?m' out n = blocks ?m out n"
    using assms by (intro blocks_cong mem_eq_off_on [where n = 16] disjoint_ranges_sym [of out]) simp_all
  also have "\<dots> = chain (cbc_encrypt_step rk) ?v (blocks m inp n)"
    using assms by (intro cbc_encrypt.run_chain)
  finally have "blocks (AES128_CBC_decrypt rk iv n out dst ?m') dst n = blocks m inp n"
    using assms by (simp add: cbc_decrypt.run_chain(1) rd_wr_block chain_round_trip block_lengths)
  then show ?thesis by (simp flip: concat_blocks)
qed

theorem cbc_round_trip_witness:
  "rd_bytes (AES128_CBC_decrypt (replicate 176 7) 0x9000 2 0x2000 0x1000
     (wr_bytes (AES128_CBC_encrypt (replicate 176 7) 0x9000 2 0x1000 0x2000 (\<lambda>a. ucast a)) 0x9000 (rd_bytes (\<lambda>a. ucast a) 0x9000 16)))
     0x1000 32 = rd_bytes (\<lambda>a. ucast a) 0x1000 32"
  using cbc_round_trip [of 2 "0x1000" "0x2000" "0x1000" "0x9000" "replicate 176 7" "\<lambda>a. ucast a"]
  by (simp add: in_place_or_apart_def disjoint_rangesI)

end
