(* ===== verification/Crypto_Fips.thy ===== *)
theory Crypto_Fips
  imports Crypto_Aes
begin

text \<open>
  AES-128 as the standard (FIPS 197) defines it, over the field with 256 elements and on a matrix of four
  rows, and the proof that the cipher of \<open>Crypto_Aes\<close> computes it: the S-box table holds the affine
  images of the inverses, the shortcut of \<open>MixColumns\<close> is the product with the polynomial of the
  standard, and the bytes of the context are the words of the key schedule. The multiplication is
  shown to be associative and commutative, so inverses are unique and the table can be checked entry by
  entry.
\<close>

section \<open>The standard\<close>

text \<open>Arithmetic in the field: polynomials over two elements, reduced by \<open>x^8 + x^4 + x^3 + x + 1\<close>.\<close>

definition gf_double :: "u8 \<Rightarrow> u8" where
  "gf_double x = (if bit x 7 then push_bit 1 x XOR 0x1b else push_bit 1 x)"

definition gf_mul :: "u8 \<Rightarrow> u8 \<Rightarrow> u8" where
  "gf_mul x y = fold (\<lambda>k acc. if bit y k then acc XOR (gf_double ^^ k) x else acc) [0..<8] 0"

text \<open>The inverse of a byte other than zero; zero is taken to zero.\<close>

definition gf_inv :: "u8 \<Rightarrow> u8" where
  "gf_inv x = (case find (\<lambda>y. gf_mul x y = 1) (map of_nat [0..<256]) of Some y \<Rightarrow> y | None \<Rightarrow> 0)"

definition affine :: "u8 \<Rightarrow> u8" where
  "affine b = b XOR word_rotl 1 b XOR word_rotl 2 b XOR word_rotl 3 b XOR word_rotl 4 b XOR 0x63"

definition fips_sbox :: "u8 \<Rightarrow> u8" where
  "fips_sbox x = affine (gf_inv x)"

lemma upt_eight: "[0..<8] = [0, 1, 2, 3, 4, 5, 6, 7 :: nat]"
  by (simp add: upt_rec)

definition gf_term :: "bool \<Rightarrow> u8 \<Rightarrow> u8" where
  "gf_term b x = (if b then x else 0)"

lemma gf_mul_terms:
  "gf_mul x y = gf_term (bit y 0) x XOR gf_term (bit y 1) (gf_double x) XOR gf_term (bit y 2) ((gf_double ^^ 2) x) XOR
     gf_term (bit y 3) ((gf_double ^^ 3) x) XOR gf_term (bit y 4) ((gf_double ^^ 4) x) XOR gf_term (bit y 5) ((gf_double ^^ 5) x) XOR
     gf_term (bit y 6) ((gf_double ^^ 6) x) XOR gf_term (bit y 7) ((gf_double ^^ 7) x)"
proof -
  have "(if b then acc XOR t else acc) = acc XOR gf_term b t" for b acc t by (simp add: gf_term_def)
  then show ?thesis by (simp add: gf_mul_def upt_eight xor.assoc)
qed

lemma gf_double_xor: "gf_double (x XOR y) = gf_double x XOR gf_double y"
  by (rule bit_word_eqI) (auto simp: gf_double_def bit_simps)

lemma gf_double_0 [simp]: "gf_double 0 = 0"
  by (simp add: gf_double_def)

lemma gf_doubles_xor: "(gf_double ^^ k) (x XOR y) = (gf_double ^^ k) x XOR (gf_double ^^ k) y"
  by (induction k) (simp_all add: gf_double_xor)

lemma gf_term_xor:
  "gf_term b (x XOR y) = gf_term b x XOR gf_term b y" "gf_term (a = (\<not> b)) x = gf_term a x XOR gf_term b x"
  by (auto simp: gf_term_def)

lemma gf_term_double: "gf_double (gf_term b x) = gf_term b (gf_double x)"
  by (simp add: gf_term_def)

lemmas xor_ac = xor.assoc xor.commute xor.left_commute

lemma gf_mul_xor_left: "gf_mul (x XOR x') y = gf_mul x y XOR gf_mul x' y"
  by (simp add: gf_mul_terms gf_double_xor gf_doubles_xor gf_term_xor xor_ac)

lemma gf_mul_xor_right: "gf_mul x (y XOR y') = gf_mul x y XOR gf_mul x y'"
  by (simp add: gf_mul_terms bit_xor_iff gf_term_xor xor_ac)

lemma gf_mul_double_left: "gf_mul (gf_double x) y = gf_double (gf_mul x y)"
  by (simp add: gf_mul_terms gf_double_xor gf_term_double funpow_swap1)

text \<open>The reduction: doubling eight times is multiplying by \<open>x^4 + x^3 + x + 1\<close>.\<close>

lemma bit_double: "bit (gf_double y) n = ((n \<noteq> 0 \<and> n < 8 \<and> bit y (n - 1)) = (\<not> (bit y 7 \<and> bit (0x1b :: u8) n)))"
proof -
  have "bit (push_bit 1 y) n = (n \<noteq> 0 \<and> n < 8 \<and> bit y (n - 1))"
    by (simp only: bit_push_bit_iff possible_bit_word One_nat_def Suc_le_eq) auto
  then show ?thesis by (simp only: gf_double_def bit_xor_iff if_distrib [of "\<lambda>x. bit x n"] cong: if_cong) auto
qed

lemma bits_double:
  "bit (gf_double y) 0 = bit y 7" "bit (gf_double y) (Suc 0) = (bit y 0 \<noteq> bit y 7)" "bit (gf_double y) 2 = bit y 1"
  "bit (gf_double y) 3 = (bit y 2 \<noteq> bit y 7)" "bit (gf_double y) 4 = (bit y 3 \<noteq> bit y 7)" "bit (gf_double y) 5 = bit y 4"
  "bit (gf_double y) 6 = bit y 5" "bit (gf_double y) 7 = bit y 6"
  by (simp_all add: bit_double bit_simps)

lemma doubles:
  "gf_double (gf_double x) = (gf_double ^^ 2) x" "gf_double ((gf_double ^^ 2) x) = (gf_double ^^ 3) x"
  "gf_double ((gf_double ^^ 3) x) = (gf_double ^^ 4) x" "gf_double ((gf_double ^^ 4) x) = (gf_double ^^ 5) x"
  "gf_double ((gf_double ^^ 5) x) = (gf_double ^^ 6) x" "gf_double ((gf_double ^^ 6) x) = (gf_double ^^ 7) x"
  "gf_double ((gf_double ^^ 7) x) = (gf_double ^^ 8) x"
  by (simp_all add: numeral_eq_Suc)

lemma gf_double_8: "(gf_double ^^ 8) x = x XOR gf_double x XOR (gf_double ^^ 3) x XOR (gf_double ^^ 4) x"
proof (rule bit_word_eqI)
  fix n assume "n < LENGTH(8)"
  then have "n \<in> set [0..<8]" by simp
  then show "bit ((gf_double ^^ 8) x) n = bit (x XOR gf_double x XOR (gf_double ^^ 3) x XOR (gf_double ^^ 4) x) n"
    unfolding upt_eight by (auto simp: bit_xor_iff doubles [symmetric] bits_double)
qed

lemma gf_mul_double_right: "gf_mul x (gf_double y) = gf_double (gf_mul x y)"
  by (simp add: gf_mul_terms bits_double gf_double_xor gf_term_double gf_term_xor doubles gf_double_8 xor_ac)

text \<open>Hence the multiplication is that of a commutative ring, where inverses are unique.\<close>

lemma gf_mul_doubles_right: "gf_mul x ((gf_double ^^ k) y) = (gf_double ^^ k) (gf_mul x y)"
  by (induction k) (simp_all add: gf_mul_double_right)

lemma gf_mul_0_right [simp]: "gf_mul x 0 = 0"
  by (simp add: gf_mul_terms gf_term_def)

lemma gf_mul_term_right: "gf_mul x (gf_term b y) = gf_term b (gf_mul x y)"
  by (simp add: gf_term_def)

lemma gf_mul_assoc: "gf_mul (gf_mul x y) z = gf_mul x (gf_mul y z)"
  unfolding gf_mul_terms [of _ z]
  by (simp add: gf_mul_xor_right gf_mul_term_right gf_mul_doubles_right gf_mul_double_right)

lemma gf_mul_1_right [simp]: "gf_mul x 1 = x"
  by (simp add: gf_mul_terms gf_term_def)

lemma doubles_one:
  "gf_double 1 = 2" "(gf_double ^^ 2) 1 = 4" "(gf_double ^^ 3) 1 = 8" "(gf_double ^^ 4) 1 = 16"
  "(gf_double ^^ 5) 1 = 32" "(gf_double ^^ 6) 1 = 64" "(gf_double ^^ 7) 1 = 128"
  by (simp_all add: numeral_eq_Suc gf_double_def)

lemma bit_gf_term: "bit (gf_term b x) n = (b \<and> bit x n)"
  by (simp add: gf_term_def)

lemma gf_mul_1_left [simp]: "gf_mul 1 y = y"
proof (rule bit_word_eqI)
  fix n assume "n < LENGTH(8)"
  have "\<forall>n \<in> set [0..<8]. bit (gf_mul 1 y) n = bit y n"
    unfolding gf_mul_terms doubles_one bit_xor_iff bit_gf_term upt_eight
    by (simp add: bit_0)
  then show "bit (gf_mul 1 y) n = bit y n" using \<open>n < LENGTH(8)\<close> by simp
qed

lemma gf_mul_sum_left: "gf_mul (gf_term b ((gf_double ^^ k) 1)) y = gf_term b ((gf_double ^^ k) y)"
proof -
  have "gf_mul ((gf_double ^^ k) 1) y = (gf_double ^^ k) y" by (induction k) (simp_all add: gf_mul_double_left)
  moreover have "gf_mul 0 y = 0" using gf_mul_xor_left [of 0 0 y] by simp
  ultimately show ?thesis by (simp add: gf_term_def)
qed

lemma gf_mul_commute: "gf_mul x y = gf_mul y x"
proof -
  have "gf_mul (gf_mul 1 x) y = gf_mul y x"
    unfolding gf_mul_terms [of _ x]
    by (simp only: gf_mul_xor_left gf_mul_sum_left [of _ 0, simplified] gf_mul_sum_left [of _ 1, simplified] gf_mul_sum_left)
  then show ?thesis by simp
qed

lemma gf_inverse_unique: "gf_mul x y = 1 \<Longrightarrow> gf_mul x z = 1 \<Longrightarrow> y = z"
  by (metis gf_mul_assoc gf_mul_commute gf_mul_1_right)

lemma gf_inv_eq:
  assumes "gf_mul x y = 1"
  shows "gf_inv x = y"
proof -
  have "y \<in> set (map of_nat [0..<256])" using unat_lt2p [of y] by (auto intro!: image_eqI [of _ _ "unat y"])
  with assms obtain z where "find (\<lambda>y. gf_mul x y = 1) (map of_nat [0..<256]) = Some z" "gf_mul x z = 1"
    by (cases "find (\<lambda>y. gf_mul x y = 1) (map of_nat [0..<256])") (auto simp: find_None_iff find_Some_iff)
  then show ?thesis using gf_inverse_unique [OF assms] by (simp add: gf_inv_def)
qed

text \<open>Products are evaluated on integers, by shifting.\<close>

definition int_double :: "int \<Rightarrow> int" where
  "int_double a = (if a < 128 then 2 * a else (2 * a - 256) XOR 0x1b)"

primrec int_mul :: "nat \<Rightarrow> int \<Rightarrow> int \<Rightarrow> int" where
  "int_mul 0 a b = 0"
| "int_mul (Suc k) a b = (if odd b then a else 0) XOR int_mul k (int_double a) (b div 2)"

lemma uint_double: "uint (gf_double x) = int_double (uint x)"
proof -
  have x: "0 \<le> uint x" "uint x < 256" using uint_lt2p [of x] by auto
  have "bit x 7 \<longleftrightarrow> odd (uint x div 128)" using bit_uint_iff [of x 7] bit_iff_odd [of "uint x" 7] by simp
  also have "\<dots> \<longleftrightarrow> \<not> uint x < 128"
  proof (cases "uint x < 128")
    case False
    then have "uint x div 128 = 1" using x div_pos_geq [of 128 "uint x"] by simp
    then show ?thesis using False by simp
  qed (use x in simp)
  finally have top: "bit x 7 \<longleftrightarrow> \<not> uint x < 128" .
  have "uint (push_bit 1 x) = (2 * uint x) mod 256" by (simp add: uint_word_ariths mult.commute)
  also have "\<dots> = (if uint x < 128 then 2 * uint x else 2 * uint x - 256)"
  proof (cases "uint x < 128")
    case False
    then have "(2 * uint x - 256) mod 256 = 2 * uint x - 256" using x by (intro mod_pos_pos_trivial) simp_all
    then show ?thesis using False by (simp only: minus_mod_self2 if_False)
  qed (use x in simp)
  finally have push: "uint (push_bit 1 x) = \<dots>" .
  have "uint (push_bit 1 x XOR 0x1b) = uint (push_bit 1 x) XOR 0x1b" by (simp only: unsigned_xor_eq) simp
  then show ?thesis unfolding gf_double_def int_double_def top push by (simp only: push split: if_split) blast
qed

primrec shift_mul :: "nat \<Rightarrow> nat \<Rightarrow> u8 \<Rightarrow> u8 \<Rightarrow> u8" where
  "shift_mul 0 j x y = 0"
| "shift_mul (Suc k) j x y = gf_term (bit y j) x XOR shift_mul k (Suc j) (gf_double x) y"

lemma shift_mul: "gf_mul x y = shift_mul 8 0 x y"
  by (simp only: gf_mul_terms funpow.simps comp_apply id_apply shift_mul.simps eval_nat_numeral BitM.simps One_nat_def xor.right_neutral)

lemma uint_shift_mul: "k + j \<le> 8 \<Longrightarrow> uint (shift_mul k j x y) = int_mul k (uint x) (uint y div 2 ^ j)"
proof (induction k arbitrary: j x)
  case (Suc k)
  have "bit y j \<longleftrightarrow> odd (uint y div 2 ^ j)" using Suc.prems bit_uint_iff [of y j] bit_iff_odd [of "uint y" j] by simp
  moreover have "uint y div 2 ^ j div 2 = uint y div 2 ^ Suc j" by (simp add: zdiv_zmult2_eq mult.commute [of 2])
  ultimately show ?case using Suc by (simp add: gf_term_def unsigned_xor_eq uint_double)
qed simp

lemma uint_gf_mul: "uint (gf_mul x y) = int_mul 8 (uint x) (uint y)"
proof -
  have "uint (shift_mul 8 0 x y) = int_mul 8 (uint x) (uint y div 2 ^ 0)"
    by (rule uint_shift_mul) simp
  then show ?thesis unfolding shift_mul power_0 div_by_1 .
qed

text \<open>The affine map of the S-box and what undoes it.\<close>

definition unaffine :: "u8 \<Rightarrow> u8" where
  "unaffine s = word_rotl 1 s XOR word_rotl 3 s XOR word_rotl 6 s XOR 0x05"

lemma affine_table: "list_all (\<lambda>s. affine (unaffine s) = s) sbox"
  by code_simp

lemma inverse_table: "list_all (\<lambda>(a, s). int_mul 8 a (uint (unaffine s)) = 1) (zip [1..255] (tl sbox))"
  by code_simp

lemma in_zip_upto: "1 \<le> i \<Longrightarrow> i \<le> b \<Longrightarrow> nat b \<le> length ys \<Longrightarrow> (i, ys ! nat (i - 1)) \<in> set (zip [1..b] ys)"
  by (auto simp: in_set_zip nth_upto intro!: exI [of _ "nat (i - 1)"])

lemma sbox_entry:
  assumes "x \<noteq> 0"
  shows "gf_mul x (unaffine (getSBoxValue x)) = 1" "affine (unaffine (getSBoxValue x)) = getSBoxValue x"
proof -
  have x: "1 \<le> unat x" "unat x < 256" using assms unat_lt2p [of x] by (simp_all add: unat_gt_0 Suc_le_eq)
  have len: "length sbox = 256" by (simp add: sbox_def)
  then have "getSBoxValue x \<in> set sbox" using x by (simp add: getSBoxValue_def)
  then show "affine (unaffine (getSBoxValue x)) = getSBoxValue x"
    by (rule affine_table [unfolded list_all_iff, rule_format])
  have u: "1 \<le> uint x" "uint x \<le> 255" "nat (uint x - 1) = unat x - 1"
    using x unfolding unat_eq_nat_uint by linarith+
  have "(uint x, tl sbox ! nat (uint x - 1)) \<in> set (zip [1..255] (tl sbox))"
    by (rule in_zip_upto [OF u(1,2)]) (simp add: len)
  moreover have "tl sbox ! nat (uint x - 1) = getSBoxValue x"
    unfolding u(3) getSBoxValue_def using x len by (subst nth_tl) simp_all
  ultimately have "(uint x, getSBoxValue x) \<in> set (zip [1..255] (tl sbox))" by (simp only:)
  from bspec [OF inverse_table [unfolded list_all_iff] this]
  have "int_mul 8 (uint x) (uint (unaffine (getSBoxValue x))) = 1" by (simp only: prod.case)
  then have "uint (gf_mul x (unaffine (getSBoxValue x))) = uint (1 :: u8)" by (simp only: uint_gf_mul uint_1)
  then show "gf_mul x (unaffine (getSBoxValue x)) = 1" by (simp only: word_uint_eq_iff)
qed

lemma gf_mul_0_left [simp]: "gf_mul 0 y = 0"
  using gf_mul_xor_left [of 0 0 y] by simp

lemma getSBoxValue_fips: "getSBoxValue x = fips_sbox x"
proof (cases "x = 0")
  case True
  have "gf_inv 0 = 0" by (simp add: gf_inv_def find_None_iff [THEN iffD2])
  then show ?thesis by (simp add: True getSBoxValue_def sbox_def fips_sbox_def affine_def)
next
  case False
  then show ?thesis using gf_inv_eq [OF sbox_entry(1)] sbox_entry(2) by (simp add: fips_sbox_def)
qed

lemma xtime_double: "xtime x = gf_double x"
  by (rule bit_word_eqI) (auto simp: xtime_def gf_double_def bit_one_times bit_simps)

lemma gf_mul_23: "gf_mul x 2 = gf_double x" "gf_mul x 3 = x XOR gf_double x"
  by (simp_all add: gf_mul_terms gf_term_def)

text \<open>The state of the standard is a matrix of four rows and four columns, filled by columns.\<close>

type_synonym matrix = "nat \<Rightarrow> nat \<Rightarrow> u8"

definition fips_SubBytes :: "matrix \<Rightarrow> matrix" where
  "fips_SubBytes s = (\<lambda>r c. fips_sbox (s r c))"

definition fips_ShiftRows :: "matrix \<Rightarrow> matrix" where
  "fips_ShiftRows s = (\<lambda>r c. s r ((c + r) mod 4))"

definition fips_MixColumns :: "matrix \<Rightarrow> matrix" where
  "fips_MixColumns s = (\<lambda>r c. gf_mul (s r c) 2 XOR gf_mul (s ((r + 1) mod 4) c) 3 XOR s ((r + 2) mod 4) c XOR s ((r + 3) mod 4) c)"

definition fips_Rcon :: "nat \<Rightarrow> u8 list" where
  "fips_Rcon j = [(gf_double ^^ (j - 1)) 1, 0, 0, 0]"

fun fips_word :: "u8 list \<Rightarrow> nat \<Rightarrow> u8 list" where
  "fips_word key i =
     (if i < 4 then take 4 (drop (4 * i) key)
      else map2 (XOR) (fips_word key (i - 4))
        (if i mod 4 = 0 then map2 (XOR) (map fips_sbox (rotate1 (fips_word key (i - 1)))) (fips_Rcon (i div 4))
         else fips_word key (i - 1)))"

definition fips_AddRoundKey :: "u8 list \<Rightarrow> nat \<Rightarrow> matrix \<Rightarrow> matrix" where
  "fips_AddRoundKey key i s = (\<lambda>r c. s r c XOR fips_word key (4 * i + c) ! r)"

definition fips_Cipher :: "u8 list \<Rightarrow> matrix \<Rightarrow> matrix" where
  "fips_Cipher key s = fips_AddRoundKey key 10 (fips_ShiftRows (fips_SubBytes
     (fold (\<lambda>i s. fips_AddRoundKey key i (fips_MixColumns (fips_ShiftRows (fips_SubBytes s)))) [1..<10] (fips_AddRoundKey key 0 s))))"

definition shows_matrix :: "u8 list \<Rightarrow> matrix \<Rightarrow> bool" where
  "shows_matrix st s \<longleftrightarrow> length st = 16 \<and> (\<forall>r \<in> set [0..<4]. \<forall>c \<in> set [0..<4]. st ! (4 * c + r) = s r c)"

lemma shows_SubBytes: "shows_matrix st s \<Longrightarrow> shows_matrix (SubBytes st) (fips_SubBytes s)"
  by (auto simp: shows_matrix_def fips_SubBytes_def SubBytes_map getSBoxValue_fips)

lemma shows_ShiftRows: "shows_matrix st s \<Longrightarrow> shows_matrix (ShiftRows st) (fips_ShiftRows s)"
  by (simp add: shows_matrix_def fips_ShiftRows_def ShiftRows_perm upt_four numeral_2_eq_2 [symmetric])

lemma MixColumns_nth:
  assumes "length st = 16"
  shows "MixColumns st = map (\<lambda>n. xtime (st ! n) XOR st ! (n - n mod 4 + (n mod 4 + 1) mod 4) XOR
    xtime (st ! (n - n mod 4 + (n mod 4 + 1) mod 4)) XOR st ! (n - n mod 4 + (n mod 4 + 2) mod 4) XOR
    st ! (n - n mod 4 + (n mod 4 + 3) mod 4)) [0..<16]"
  using assms by (rule sixteen)
    (simp add: MixColumns_def mix_column_def Let_def explicit xtime_xor xor.assoc xor.commute xor.left_commute xor_cancel)

lemma shows_MixColumns: "shows_matrix st s \<Longrightarrow> shows_matrix (MixColumns st) (fips_MixColumns s)"
  by (simp add: shows_matrix_def fips_MixColumns_def MixColumns_nth upt_four numeral_2_eq_2 [symmetric] gf_mul_23 xtime_double xor.assoc)

lemma Rcon_fips: "\<forall>j \<in> set [1..<11]. Rcon ! j = (gf_double ^^ (j - 1)) 1"
  by code_simp

declare fips_word.simps [simp del]

lemma length_fips_word: "length key = 16 \<Longrightarrow> length (fips_word key i) = 4"
proof (induction i rule: less_induct)
  case (less i)
  then show ?case by (subst fips_word.simps) (simp add: fips_Rcon_def)
qed

text \<open>The context holds the words of the schedule.\<close>

definition schedule :: "u8 list \<Rightarrow> nat \<Rightarrow> u8 list \<Rightarrow> bool" where
  "schedule key n rk \<longleftrightarrow> length rk = 176 \<and> (\<forall>i < n. \<forall>j < 4. rk ! (i * 4 + j) = fips_word key i ! j)"

lemma less_four: "j < 4 \<longleftrightarrow> j = 0 \<or> j = 1 \<or> j = 2 \<or> j = (3 :: nat)"
  by auto

lemma write_word:
  assumes "i * 4 + 3 < length rk" "j < 4"
  shows "rk[i * 4 := a, i * 4 + 1 := b, i * 4 + 2 := c, i * 4 + 3 := d] ! (k * 4 + j) = (if k = i then [a, b, c, d] ! j else rk ! (k * 4 + j))"
proof (cases "k = i")
  case True
  then show ?thesis using assms by (auto simp: less_four nth_list_update)
next
  case False
  have "k * 4 + j \<noteq> i * 4 + n" if "n < 4" for n
    using that False assms by presburger
  from this [of 0] this [of 1] this [of 2] this [of 3] show ?thesis using False by simp
qed

lemma schedule_write:
  assumes "schedule key i rk" "i < 44" "fips_word key i = [a, b, c, d]"
  shows "schedule key (Suc i) (rk[i * 4 := a, i * 4 + 1 := b, i * 4 + 2 := c, i * 4 + 3 := d])"
proof -
  have "i * 4 + 3 < length rk" using assms by (simp add: schedule_def)
  from write_word [OF this] show ?thesis
    using assms unfolding schedule_def by (simp only: length_list_update less_Suc_eq) auto
qed

lemma schedule_copy:
  assumes "schedule key i rk" "i < 4" "length key = 16"
  shows "schedule key (Suc i) (copy_key_word key i rk)"
proof -
  have "fips_word key i = take 4 (drop (i * 4) key)" using assms by (subst fips_word.simps) (simp add: mult.commute)
  also have "\<dots> = [key ! (i * 4), key ! (i * 4 + 1), key ! (i * 4 + 2), key ! (i * 4 + 3)]"
    using assms by (auto intro!: nth_equalityI simp: less_four numeral_2_eq_2)
  finally show ?thesis unfolding copy_key_word_def using assms by (intro schedule_write) simp_all
qed

lemma schedule_expand:
  assumes rk: "schedule key i rk" and i: "4 \<le> i" "i < 44" and key: "length key = 16"
  shows "schedule key (Suc i) (expand_word i rk)"
proof -
  let ?t = "next_temp i (map (\<lambda>j. rk ! ((i - 1) * 4 + j)) [0..<4])"
  have w: "fips_word key k = [rk ! (k * 4), rk ! (k * 4 + 1), rk ! (k * 4 + 2), rk ! (k * 4 + 3)]" if "k < i" for k
    using rk that length_fips_word [OF key, of k] unfolding schedule_def
    by (auto intro!: nth_equalityI simp: less_four)
  have "i div 4 \<in> set [1..<11]" using i by (simp add: div_less_iff_less_mult)
  then have "Rcon ! (i div 4) = (gf_double ^^ (i div 4 - 1)) 1" using Rcon_fips by blast
  then have "fips_word key i = [rk ! ((i - 4) * 4) XOR ?t ! 0, rk ! ((i - 4) * 4 + 1) XOR ?t ! 1, rk ! ((i - 4) * 4 + 2) XOR ?t ! 2,
      rk ! ((i - 4) * 4 + 3) XOR ?t ! 3]"
    using i w [of "i - 1"] by (subst fips_word.simps) (simp add: w [of "i - 4"] next_temp_def upt_four fips_Rcon_def getSBoxValue_fips Let_def)
  with rk i(2) show ?thesis unfolding expand_word_def Let_def by (rule schedule_write)
qed

lemma schedule_KeyExpansion:
  assumes "length rk = 176" "length key = 16"
  shows "schedule key 44 (KeyExpansion rk key)"
proof -
  have copy: "n \<le> 4 \<Longrightarrow> schedule key n (fold (copy_key_word key) [0..<n] rk)" for n
    using assms by (induction n) (auto simp: schedule_copy schedule_def [of _ 0])
  have "4 \<le> n \<Longrightarrow> n \<le> 44 \<Longrightarrow> schedule key n (fold expand_word [4..<n] (fold (copy_key_word key) [0..<4] rk))" for n
    by (induction n rule: dec_induct) (use copy [of 4] assms in \<open>auto simp: schedule_expand\<close>)
  from this [of 44] show ?thesis by (simp add: KeyExpansion_def)
qed

lemma shows_AddRoundKey:
  assumes "shows_matrix st s" "schedule key 44 rk" "r \<le> 10"
  shows "shows_matrix (AddRoundKey rk r st) (fips_AddRoundKey key r s)"
proof -
  have "rk ! (r * 16 + (4 * c + j)) = fips_word key (4 * r + c) ! j" if "c < 4" "j < 4" for c j
  proof -
    have "4 * r + c < 44" "r * 16 + (4 * c + j) = (4 * r + c) * 4 + j" using that assms by simp_all
    then show ?thesis using assms(2) that by (simp only: schedule_def)
  qed
  moreover have "4 * c + j < 16" if "c < 4" "j < 4" for c j :: nat using that by simp
  ultimately show ?thesis using assms by (auto simp: shows_matrix_def AddRoundKey_nth fips_AddRoundKey_def)
qed

lemma Cipher_fips:
  assumes "shows_matrix st s" "schedule key 44 rk"
  shows "shows_matrix (Cipher rk st) (fips_Cipher key s)"
proof -
  have "shows_matrix (fold (round_of rk) [1..<n] st)
      (fold (\<lambda>i s. fips_AddRoundKey key i (fips_MixColumns (fips_ShiftRows (fips_SubBytes s)))) [1..<n] s)"
    if "shows_matrix st s" "n \<le> 10" for n st s
    using that assms(2)
    by (induction n) (auto simp: round_of_def intro!: shows_AddRoundKey shows_MixColumns shows_ShiftRows shows_SubBytes)
  then show ?thesis unfolding Cipher_rounds fips_Cipher_def
    using assms by (auto intro!: shows_AddRoundKey shows_ShiftRows shows_SubBytes)
qed

text \<open>C2. The cipher of the kernel extension is the one of the standard: for every key and every block, with
  whatever the context held before, encrypting under the expanded key gives the block that the standard
  defines over the field with 256 elements.\<close>

theorem aes_is_fips:
  assumes "length rk = 176" "length key = 16" "length st = 16" "r < 4" "c < 4"
  shows "Cipher (KeyExpansion rk key) st ! (4 * c + r) = fips_Cipher key (\<lambda>r c. st ! (4 * c + r)) r c"
proof -
  have "shows_matrix st (\<lambda>r c. st ! (4 * c + r))" using assms by (simp add: shows_matrix_def)
  from Cipher_fips [OF this schedule_KeyExpansion [OF assms(1,2)]] show ?thesis
    using assms by (simp add: shows_matrix_def)
qed

definition sample_key :: "u8 list" where
  "sample_key = [0x2b, 0x7e, 0x15, 0x16, 0x28, 0xae, 0xd2, 0xa6, 0xab, 0xf7, 0x15, 0x88, 0x09, 0xcf, 0x4f, 0x3c]"

definition sample_block :: "u8 list" where
  "sample_block = [0x6b, 0xc1, 0xbe, 0xe2, 0x2e, 0x40, 0x9f, 0x96, 0xe9, 0x3d, 0x7e, 0x11, 0x73, 0x93, 0x17, 0x2a]"

theorem aes_is_fips_witness:
  "Cipher (KeyExpansion (replicate 176 0) sample_key) sample_block ! 9 = fips_Cipher sample_key (\<lambda>r c. sample_block ! (4 * c + r)) 1 2"
  using aes_is_fips [of "replicate 176 0" sample_key sample_block 1 2] by (simp add: sample_key_def sample_block_def)

end
