(* ===== verification/Mode_Set.thy ===== *)
theory Mode_Set imports Panthera_Prelude begin

text \<open>
  File modes given as text (\<open>userland/file_cmds/panthera_setmode.c\<close>): \<open>setmode\<close> compiles a mode such as
  \<open>u=rwX,go-w\<close> or \<open>0755\<close> into an array of commands, \<open>compress_mode\<close> shortens the array in place, and
  \<open>getmode\<close> runs it on the mode of a file. The array has the length it was allocated with and command_array
  arbitrary entries until they are written; an access outside it is the error \<open>Fault\<close>. The lemmas show
  that no input leads to such an access, that shortening keeps the meaning, and that the commands
  compiled from a mode do what the mode says.
\<close>

section \<open>Commands\<close>

type_synonym mode_t = u16

abbreviation S_IFDIR :: mode_t where "S_IFDIR \<equiv> 0x4000"
abbreviation S_ISUID :: mode_t where "S_ISUID \<equiv> 0x800"
abbreviation S_ISGID :: mode_t where "S_ISGID \<equiv> 0x400"
abbreviation S_ISTXT :: mode_t where "S_ISTXT \<equiv> 0x200"
abbreviation S_IRWXU :: mode_t where "S_IRWXU \<equiv> 0x1c0"
abbreviation S_IRWXG :: mode_t where "S_IRWXG \<equiv> 0x38"
abbreviation S_IRWXO :: mode_t where "S_IRWXO \<equiv> 0x7"
abbreviation S_IRALL :: mode_t where "S_IRALL \<equiv> 0x124"
abbreviation S_IWALL :: mode_t where "S_IWALL \<equiv> 0x92"
abbreviation S_IXALL :: mode_t where "S_IXALL \<equiv> 0x49"
abbreviation S_IRUSR :: mode_t where "S_IRUSR \<equiv> 0x100"
abbreviation S_IRGRP :: mode_t where "S_IRGRP \<equiv> 0x20"
abbreviation S_IROTH :: mode_t where "S_IROTH \<equiv> 0x4"

abbreviation STANDARD_BITS :: mode_t where "STANDARD_BITS \<equiv> 0xdff"

abbreviation CMD2_CLR :: u8 where "CMD2_CLR \<equiv> 0x01"
abbreviation CMD2_SET :: u8 where "CMD2_SET \<equiv> 0x02"
abbreviation CMD2_GBITS :: u8 where "CMD2_GBITS \<equiv> 0x04"
abbreviation CMD2_OBITS :: u8 where "CMD2_OBITS \<equiv> 0x08"
abbreviation CMD2_UBITS :: u8 where "CMD2_UBITS \<equiv> 0x10"

record bitcmd =
  cmd :: char
  cmd2 :: u8
  bits :: mode_t

definition has :: "'a::len word \<Rightarrow> 'a word \<Rightarrow> bool" where
  "has x flags \<longleftrightarrow> x AND flags \<noteq> 0"

section \<open>Running commands\<close>

definition clear_copied :: "bitcmd \<Rightarrow> mode_t \<Rightarrow> mode_t \<Rightarrow> mode_t" where
  "clear_copied c value newmode =
     (if has (cmd2 c) CMD2_CLR then
        let clrval = (if has (cmd2 c) CMD2_SET then S_IRWXO else value);
            newmode = (if has (cmd2 c) CMD2_UBITS then newmode AND NOT (push_bit 6 clrval AND bits c) else newmode);
            newmode = (if has (cmd2 c) CMD2_GBITS then newmode AND NOT (push_bit 3 clrval AND bits c) else newmode)
        in if has (cmd2 c) CMD2_OBITS then newmode AND NOT (clrval AND bits c) else newmode
      else newmode)"

definition set_copied :: "bitcmd \<Rightarrow> mode_t \<Rightarrow> mode_t \<Rightarrow> mode_t" where
  "set_copied c value newmode =
     (if has (cmd2 c) CMD2_SET then
        let newmode = (if has (cmd2 c) CMD2_UBITS then newmode OR (push_bit 6 value AND bits c) else newmode);
            newmode = (if has (cmd2 c) CMD2_GBITS then newmode OR (push_bit 3 value AND bits c) else newmode)
        in if has (cmd2 c) CMD2_OBITS then newmode OR (value AND bits c) else newmode
      else newmode)"

definition copy_common :: "bitcmd \<Rightarrow> mode_t \<Rightarrow> mode_t \<Rightarrow> mode_t" where
  "copy_common c value newmode = set_copied c value (clear_copied c value newmode)"

fun getmode_from :: "mode_t \<Rightarrow> mode_t \<Rightarrow> bitcmd list \<Rightarrow> mode_t option" where
  "getmode_from omode newmode [] = None"
| "getmode_from omode newmode (c # cs) =
     (if cmd c = CHR ''u'' then getmode_from omode (copy_common c (drop_bit 6 (newmode AND S_IRWXU)) newmode) cs
      else if cmd c = CHR ''g'' then getmode_from omode (copy_common c (drop_bit 3 (newmode AND S_IRWXG)) newmode) cs
      else if cmd c = CHR ''o'' then getmode_from omode (copy_common c (newmode AND S_IRWXO) newmode) cs
      else if cmd c = CHR ''+'' then getmode_from omode (newmode OR bits c) cs
      else if cmd c = CHR ''-'' then getmode_from omode (newmode AND NOT (bits c)) cs
      else if cmd c = CHR ''X'' then
        getmode_from omode (if has omode (S_IFDIR OR S_IXALL) then newmode OR bits c else newmode) cs
      else Some newmode)"

definition getmode :: "bitcmd list \<Rightarrow> mode_t \<Rightarrow> mode_t option" where
  "getmode bbox omode = getmode_from omode omode bbox"

section \<open>Compiling a mode\<close>

datatype mode_error = EINVAL | ENOMEM | ERANGE | Fault

text \<open>What the allocator does: whether it grants so many entries, and what they hold.\<close>

record mode_env =
  grants :: "nat \<Rightarrow> bool"
  junk :: "nat \<Rightarrow> bitcmd"

definition on_success :: "'e + 'a \<Rightarrow> ('a \<Rightarrow> 'e + 'b) \<Rightarrow> 'e + 'b" where
  "on_success r f = (case r of Inl e \<Rightarrow> Inl e | Inr x \<Rightarrow> f x)"

definition put_cmd :: "nat \<Rightarrow> bitcmd \<Rightarrow> bitcmd list \<Rightarrow> mode_error + bitcmd list" where
  "put_cmd i c buf = (if i < length buf then Inr (buf[i := c]) else Inl Fault)"

definition ascii :: "char \<Rightarrow> mode_t" where
  "ascii c = of_nat (of_char c)"

text \<open>\<open>addcmd\<close> stores one or two commands from index \<open>set\<close> on and returns the index behind them.\<close>

definition set_bits_cmd :: "char \<Rightarrow> mode_t \<Rightarrow> mode_t \<Rightarrow> mode_t \<Rightarrow> bitcmd" where
  "set_bits_cmd op who oparg umsk = \<lparr>cmd = op, cmd2 = 0, bits = (if who \<noteq> 0 then who else umsk) AND oparg\<rparr>"

definition copy_cmd :: "char \<Rightarrow> mode_t \<Rightarrow> mode_t \<Rightarrow> mode_t \<Rightarrow> bitcmd" where
  "copy_cmd op who oparg umsk =
     (let targets = (if who \<noteq> 0 then (if has who S_IRUSR then CMD2_UBITS else 0) OR
            (if has who S_IRGRP then CMD2_GBITS else 0) OR (if has who S_IROTH then CMD2_OBITS else 0)
          else CMD2_UBITS OR CMD2_GBITS OR CMD2_OBITS);
          how = (if oparg = ascii (CHR ''+'') then CMD2_SET else if oparg = ascii (CHR ''-'') then CMD2_CLR
            else if oparg = ascii (CHR ''='') then CMD2_SET OR CMD2_CLR else 0)
      in \<lparr>cmd = op, cmd2 = targets OR how, bits = (if who \<noteq> 0 then - 1 else umsk)\<rparr>)"

definition addcmd :: "bitcmd list \<Rightarrow> nat \<Rightarrow> char \<Rightarrow> mode_t \<Rightarrow> mode_t \<Rightarrow> mode_t \<Rightarrow> mode_error + (bitcmd list \<times> nat)" where
  "addcmd buf i op who oparg umsk =
     (if op = CHR ''='' then
        on_success (put_cmd i \<lparr>cmd = CHR ''-'', cmd2 = 0, bits = (if who \<noteq> 0 then who else STANDARD_BITS)\<rparr> buf) (\<lambda>buf.
        on_success (put_cmd (i + 1) (set_bits_cmd (CHR ''+'') who oparg umsk) buf) (\<lambda>buf. Inr (buf, i + 2)))
      else if op \<in> {CHR ''+'', CHR ''-'', CHR ''X''} then
        on_success (put_cmd i (set_bits_cmd op who oparg umsk) buf) (\<lambda>buf. Inr (buf, i + 1))
      else if op \<in> {CHR ''u'', CHR ''g'', CHR ''o''} then
        on_success (put_cmd i (copy_cmd op who oparg umsk) buf) (\<lambda>buf. Inr (buf, i + 1))
      else Inr (buf, i + 1))"

abbreviation SET_LEN :: nat where "SET_LEN \<equiv> 6"
abbreviation SET_LEN_INCR :: nat where "SET_LEN_INCR \<equiv> 4"
abbreviation SIZE_MAX :: nat where "SIZE_MAX \<equiv> 2 ^ 64 - 1"
abbreviation BITCMD_SIZE :: nat where "BITCMD_SIZE \<equiv> 4"

definition alloc_items :: "mode_env \<Rightarrow> nat \<Rightarrow> mode_error + bitcmd list" where
  "alloc_items env n = (if grants env n then Inr (map (junk env) [0..<n]) else Inl ENOMEM)"

definition realloc_items :: "mode_env \<Rightarrow> bitcmd list \<Rightarrow> nat \<Rightarrow> mode_error + bitcmd list" where
  "realloc_items env buf count =
     (if count > SIZE_MAX div BITCMD_SIZE then Inl ENOMEM
      else if grants env count then Inr (take count buf @ map (junk env) [length buf..<count])
      else Inl ENOMEM)"

text \<open>The macro keeps two entries free behind the index, for the second command of an assignment and for
  the terminator. The number of entries is a variable of 32 bits.\<close>

definition ADDCMD :: "mode_env \<Rightarrow> char \<Rightarrow> mode_t \<Rightarrow> mode_t \<Rightarrow> mode_t \<Rightarrow> bitcmd list \<times> nat \<Rightarrow> mode_error + (bitcmd list \<times> nat)" where
  "ADDCMD env a b c d st =
     (case st of (buf, i) \<Rightarrow>
        if i \<ge> length buf - 2 then
          on_success (realloc_items env buf (unat (of_nat (length buf) + of_nat SET_LEN_INCR :: u32))) (\<lambda>buf. addcmd buf i a b c d)
        else addcmd buf i a b c d)"

fun parse_who :: "mode_t \<Rightarrow> string \<Rightarrow> mode_t \<times> string" where
  "parse_who who (c # p) =
     (if c = CHR ''a'' then parse_who (who OR STANDARD_BITS) p
      else if c = CHR ''u'' then parse_who (who OR (S_ISUID OR S_IRWXU)) p
      else if c = CHR ''g'' then parse_who (who OR (S_ISGID OR S_IRWXG)) p
      else if c = CHR ''o'' then parse_who (who OR S_IRWXO) p
      else (who, c # p))"
| "parse_who who [] = (who, [])"

text \<open>The state of the loop over the letters behind an operator.\<close>

record perm_state =
  who :: mode_t
  perm :: mode_t
  permXbits :: mode_t
  equalopdone :: bool
  cmds :: "bitcmd list \<times> nat"

definition add_to :: "mode_env \<Rightarrow> mode_t \<Rightarrow> char \<Rightarrow> mode_t \<Rightarrow> perm_state \<Rightarrow> mode_error + perm_state" where
  "add_to env umsk op oparg s = on_success (ADDCMD env op (who s) oparg umsk (cmds s)) (\<lambda>st. Inr (s\<lparr>cmds := st\<rparr>))"

definition add_copy :: "mode_env \<Rightarrow> mode_t \<Rightarrow> char \<Rightarrow> char \<Rightarrow> perm_state \<Rightarrow> mode_error + perm_state" where
  "add_copy env umsk op c s =
     on_success (if perm s \<noteq> 0 then on_success (add_to env umsk op (perm s) s) (\<lambda>s. Inr (s\<lparr>perm := 0\<rparr>)) else Inr s) (\<lambda>s.
     let s = (if op = CHR ''='' then s\<lparr>equalopdone := True\<rparr> else s) in
     on_success (if op = CHR ''+'' \<and> permXbits s \<noteq> 0
        then on_success (add_to env umsk (CHR ''X'') (permXbits s) s) (\<lambda>s. Inr (s\<lparr>permXbits := 0\<rparr>)) else Inr s) (\<lambda>s.
     add_to env umsk c (ascii op) s))"

definition end_perms :: "mode_env \<Rightarrow> mode_t \<Rightarrow> char \<Rightarrow> perm_state \<Rightarrow> mode_error + perm_state" where
  "end_perms env umsk op s =
     on_success (if perm s \<noteq> 0 \<or> (op = CHR ''='' \<and> \<not> equalopdone s) then
         let s = (if op = CHR ''='' then s\<lparr>equalopdone := True\<rparr> else s) in
         on_success (add_to env umsk op (perm s) s) (\<lambda>s. Inr (s\<lparr>perm := 0\<rparr>))
       else Inr s) (\<lambda>s.
     if permXbits s \<noteq> 0 then on_success (add_to env umsk (CHR ''X'') (permXbits s) s) (\<lambda>s. Inr (s\<lparr>permXbits := 0\<rparr>))
     else Inr s)"

definition perm_letter :: "char \<Rightarrow> perm_state \<Rightarrow> perm_state option" where
  "perm_letter c s =
     (if c = CHR ''r'' then Some (s\<lparr>perm := perm s OR S_IRALL\<rparr>)
      else if c = CHR ''s'' then
        Some (if who s = 0 \<or> has (who s) (NOT S_IRWXO) then s\<lparr>perm := perm s OR (S_ISUID OR S_ISGID)\<rparr> else s)
      else if c = CHR ''t'' then
        Some (if who s = 0 \<or> has (who s) (NOT S_IRWXO) then s\<lparr>who := who s OR S_ISTXT, perm := perm s OR S_ISTXT\<rparr> else s)
      else if c = CHR ''w'' then Some (s\<lparr>perm := perm s OR S_IWALL\<rparr>)
      else if c = CHR ''X'' then Some (s\<lparr>permXbits := S_IXALL\<rparr>)
      else if c = CHR ''x'' then Some (s\<lparr>perm := perm s OR S_IXALL\<rparr>)
      else None)"

fun parse_perms :: "mode_env \<Rightarrow> mode_t \<Rightarrow> char \<Rightarrow> perm_state \<Rightarrow> string \<Rightarrow> mode_error + (perm_state \<times> string)" where
  "parse_perms env umsk op s (c # p) =
     (case perm_letter c s of
        Some s \<Rightarrow> parse_perms env umsk op s p
      | None \<Rightarrow>
          if c \<in> {CHR ''u'', CHR ''g'', CHR ''o''} then
            on_success (add_copy env umsk op c s) (\<lambda>s. parse_perms env umsk op s p)
          else on_success (end_perms env umsk op s) (\<lambda>s. Inr (s, c # p)))"
| "parse_perms env umsk op s [] = on_success (end_perms env umsk op s) (\<lambda>s. Inr (s, []))"

lemma on_success_Inr: "on_success r f = Inr y \<longleftrightarrow> (\<exists>x. r = Inr x \<and> f x = Inr y)"
  by (simp add: on_success_def split: sum.splits)

lemma parse_who_shorter: "length (snd (parse_who w p)) \<le> length p"
  by (induction w p rule: parse_who.induct) auto

lemma parse_perms_shorter: "parse_perms env umsk op s p = Inr (s', rest) \<Longrightarrow> length rest \<le> length p"
  by (induction p arbitrary: s) (auto simp: on_success_Inr le_SucI split: option.splits if_splits)

text \<open>The operators of a clause; \<open>who\<close> carries over to the next operator, a comma starts a new clause.\<close>

definition start_op :: "mode_env \<Rightarrow> mode_t \<Rightarrow> mode_t \<Rightarrow> bool \<Rightarrow> bitcmd list \<times> nat \<Rightarrow> char \<Rightarrow> string \<Rightarrow> mode_error + (perm_state \<times> string)" where
  "start_op env umsk w eq st op p =
     (if op \<notin> {CHR ''+'', CHR ''-'', CHR ''=''} then Inl EINVAL
      else parse_perms env umsk op \<lparr>who = w AND NOT S_ISTXT, perm = 0, permXbits = 0,
             equalopdone = (eq \<and> op \<noteq> CHR ''=''), cmds = st\<rparr> p)"

lemma start_op_shorter: "start_op env umsk w eq st op p = Inr (s, rest) \<Longrightarrow> length rest \<le> length p"
  by (auto simp: start_op_def dest: parse_perms_shorter split: if_splits)

function setmode_ops :: "mode_env \<Rightarrow> mode_t \<Rightarrow> mode_t \<Rightarrow> bool \<Rightarrow> bitcmd list \<times> nat \<Rightarrow> string \<Rightarrow> mode_error + (bitcmd list \<times> nat)" where
  "setmode_ops env umsk w eq st [] = Inl EINVAL"
| "setmode_ops env umsk w eq st (op # p) =
     (case start_op env umsk w eq st op p of
        Inl e \<Rightarrow> Inl e
      | Inr (s, rest) \<Rightarrow>
          if rest = [] then Inr (cmds s)
          else if hd rest \<noteq> CHR '','' then setmode_ops env umsk (who s) (equalopdone s) (cmds s) rest
          else let (w', p') = parse_who 0 (tl rest) in setmode_ops env umsk w' (equalopdone s) (cmds s) p')"
  by pat_completeness auto
termination
proof (relation "measure (\<lambda>(env, umsk, w, eq, st, p). length p)", goal_cases)
  case (3 env umsk w eq st op p b s rest w' w'' p')
  then have "length p' \<le> length (tl rest)" using parse_who_shorter [of 0 "tl rest"] by (metis snd_conv)
  with 3 show ?case using start_op_shorter [of env umsk w eq st op p s rest] by (cases rest) auto
qed (auto dest!: start_op_shorter)

section \<open>Shortening\<close>

text \<open>A run of commands on fixed bits is collected into bits to clear, to set, and to set when the file is a
  directory or executable.\<close>

function collect :: "bitcmd list \<Rightarrow> nat \<Rightarrow> u32 \<Rightarrow> u32 \<Rightarrow> u32 \<Rightarrow> (u32 \<times> u32 \<times> u32 \<times> nat) option" where
  "collect buf nset setbits clrbits Xbits =
     (if nset \<ge> length buf then None
      else let c = buf ! nset; b = ucast (bits c) in
        if cmd c = CHR ''-'' then collect buf (nset + 1) (setbits AND NOT b) (clrbits OR b) (Xbits AND NOT b)
        else if cmd c = CHR ''+'' then collect buf (nset + 1) (setbits OR b) (clrbits AND NOT b) (Xbits AND NOT b)
        else if cmd c = CHR ''X'' then collect buf (nset + 1) setbits clrbits (Xbits OR (b AND NOT setbits))
        else Some (setbits, clrbits, Xbits, nset))"
  by pat_completeness auto
termination by (relation "measure (\<lambda>(buf, nset, _). length buf - nset)") auto

declare collect.simps [simp del]

definition emit :: "char \<Rightarrow> u32 \<Rightarrow> bitcmd list \<times> nat \<Rightarrow> mode_error + (bitcmd list \<times> nat)" where
  "emit op v st = (case st of (buf, i) \<Rightarrow>
     if v \<noteq> 0 then on_success (put_cmd i \<lparr>cmd = op, cmd2 = 0, bits = ucast v\<rparr> buf) (\<lambda>buf. Inr (buf, i + 1))
     else Inr (buf, i))"

definition emit_all :: "u32 \<Rightarrow> u32 \<Rightarrow> u32 \<Rightarrow> bitcmd list \<times> nat \<Rightarrow> mode_error + (bitcmd list \<times> nat)" where
  "emit_all setbits clrbits Xbits st =
     on_success (emit (CHR ''-'') clrbits st) (\<lambda>st. on_success (emit (CHR ''+'') setbits st) (emit (CHR ''X'') Xbits))"

definition groupable :: "bitcmd \<Rightarrow> bool" where
  "groupable c \<longleftrightarrow> cmd c \<in> {CHR ''+'', CHR ''-'', CHR ''X''}"

lemma on_success_cong [fundef_cong]: "r = r' \<Longrightarrow> (\<And>x. r' = Inr x \<Longrightarrow> f x = f' x) \<Longrightarrow> on_success r f = on_success r' f'"
  by (simp add: on_success_def split: sum.splits)

lemma put_cmd_Inr: "put_cmd i c buf = Inr buf' \<longleftrightarrow> i < length buf \<and> buf' = buf[i := c]"
  by (auto simp: put_cmd_def)

lemma collect_later: "collect buf n s c x = Some (s', c', x', n') \<Longrightarrow> n \<le> n' \<and> n' < length buf \<and> \<not> groupable (buf ! n')"
proof (induction buf n s c x rule: collect.induct)
  case (1 buf n s c x)
  then show ?case by (subst (asm) (4) collect.simps) (force simp: Let_def groupable_def split: if_splits)
qed

lemma collect_after: "collect buf n s c x = Some (s', c', x', n') \<Longrightarrow> n < length buf \<Longrightarrow> groupable (buf ! n) \<Longrightarrow> n < n'"
  using collect_later [of buf n s c x s' c' x' n'] by (cases "n = n'") auto

lemma emit_length: "emit op v (buf, i) = Inr (buf', i') \<Longrightarrow> length buf' = length buf"
  by (auto simp: emit_def on_success_Inr put_cmd_Inr split: if_splits)

lemma emit_all_length: "emit_all s c x (buf, i) = Inr (buf', i') \<Longrightarrow> length buf' = length buf"
  by (auto simp: emit_all_def on_success_Inr dest!: emit_length)

function compress_from :: "bitcmd list \<Rightarrow> nat \<Rightarrow> nat \<Rightarrow> mode_error + bitcmd list" where
  "compress_from buf i nset =
     (if nset \<ge> length buf then Inl Fault
      else if \<not> groupable (buf ! nset) then
        on_success (put_cmd i (buf ! nset) buf) (\<lambda>buf'.
          if cmd (buf ! nset) = CHR 0x00 then Inr buf' else compress_from buf' (i + 1) (nset + 1))
      else
        (case collect buf nset 0 0 0 of
           None \<Rightarrow> Inl Fault
         | Some (setbits, clrbits, Xbits, nset') \<Rightarrow>
             on_success (emit_all setbits clrbits Xbits (buf, i)) (\<lambda>(buf', i'). compress_from buf' i' nset')))"
  by pat_completeness auto
termination
proof (relation "measure (\<lambda>(buf, i, nset). length buf - nset)", goal_cases)
  case (3 buf i nset b s b' c b'' x nset' st buf' i')
  then show ?case using collect_after [of buf nset 0 0 0 s c x nset'] emit_all_length [of s c x buf i buf' i'] by simp
qed (auto simp: put_cmd_Inr)

declare compress_from.simps [simp del]

definition compress_mode :: "bitcmd list \<Rightarrow> mode_error + bitcmd list" where
  "compress_mode buf = compress_from buf 0 0"

section \<open>The whole function\<close>

definition get_current_umask :: "mode_t \<Rightarrow> mode_t \<times> mode_t" where
  "get_current_umask current =
     (let umask = \<lambda>new old. (old, new); (m, current) = umask 0 current; (_, current) = umask m current in (m, current))"

definition is_digit :: "char \<Rightarrow> bool" where
  "is_digit c \<longleftrightarrow> 48 \<le> (of_char c :: nat) \<and> (of_char c :: nat) \<le> 57"

definition is_octal :: "char \<Rightarrow> bool" where
  "is_octal c \<longleftrightarrow> 48 \<le> (of_char c :: nat) \<and> (of_char c :: nat) \<le> 55"

definition octal_value :: "string \<Rightarrow> nat" where
  "octal_value ds = foldl (\<lambda>n c. 8 * n + (of_char c - 48)) 0 ds"

abbreviation LONG_MAX :: nat where "LONG_MAX \<equiv> 2 ^ 63 - 1"

definition terminate :: "bitcmd list \<times> nat \<Rightarrow> mode_error + bitcmd list" where
  "terminate st = (case st of (buf, i) \<Rightarrow>
     if i < length buf then Inr (buf[i := (buf ! i)\<lparr>cmd := CHR 0x00\<rparr>]) else Inl Fault)"

definition setmode_octal :: "mode_env \<Rightarrow> mode_t \<Rightarrow> bitcmd list \<Rightarrow> string \<Rightarrow> mode_error + bitcmd list" where
  "setmode_octal env umsk buf p =
     (let perml = octal_value (takeWhile is_octal p); ep = dropWhile is_octal p in
      if ep \<noteq> [] then Inl EINVAL
      else if perml > LONG_MAX then Inl ERANGE
      else if has (of_nat perml :: u64) (NOT (ucast (STANDARD_BITS OR S_ISTXT))) then Inl EINVAL
      else on_success (ADDCMD env (CHR ''='') (STANDARD_BITS OR S_ISTXT) (of_nat perml) umsk (buf, 0)) terminate)"

definition setmode :: "mode_env \<Rightarrow> mode_t \<Rightarrow> string \<Rightarrow> mode_error + bitcmd list" where
  "setmode env current s =
     (let p = takeWhile (\<lambda>c. c \<noteq> CHR 0x00) s; umsk = NOT (fst (get_current_umask current)) in
      if p = [] then Inl EINVAL
      else on_success (alloc_items env (SET_LEN + 2)) (\<lambda>buf.
        if is_digit (hd p) then setmode_octal env umsk buf p
        else let (w, q) = parse_who 0 p in
          on_success (setmode_ops env umsk w False (buf, 0) q) (\<lambda>st. on_success (terminate st) compress_mode)))"

section \<open>Meaning of a command array\<close>

definition exec_cmd :: "mode_t \<Rightarrow> bitcmd \<Rightarrow> mode_t \<Rightarrow> mode_t" where
  "exec_cmd omode c m =
     (if cmd c = CHR ''u'' then copy_common c (drop_bit 6 (m AND S_IRWXU)) m
      else if cmd c = CHR ''g'' then copy_common c (drop_bit 3 (m AND S_IRWXG)) m
      else if cmd c = CHR ''o'' then copy_common c (m AND S_IRWXO) m
      else if cmd c = CHR ''+'' then m OR bits c
      else if cmd c = CHR ''-'' then m AND NOT (bits c)
      else if has omode (S_IFDIR OR S_IXALL) then m OR bits c else m)"

definition command :: "bitcmd \<Rightarrow> bool" where
  "command c \<longleftrightarrow> cmd c \<in> {CHR ''u'', CHR ''g'', CHR ''o'', CHR ''+'', CHR ''-'', CHR ''X''}"

lemma getmode_step: "command c \<Longrightarrow> getmode_from omode m (c # cs) = getmode_from omode (exec_cmd omode c m) cs"
  by (auto simp: command_def exec_cmd_def)

lemma getmode_commands:
  "list_all command cs \<Longrightarrow> getmode_from omode m (cs @ rest) = getmode_from omode (fold (exec_cmd omode) cs m) rest"
  by (induction cs arbitrary: m) (simp_all add: getmode_step del: getmode_from.simps(2))

lemma getmode_stop: "cmd c = CHR 0x00 \<Longrightarrow> getmode_from omode m (c # cs) = Some m"
  by simp

declare getmode_from.simps(2) [simp del]

section \<open>Shortening keeps the meaning\<close>

definition grouped :: "mode_t \<Rightarrow> u32 \<Rightarrow> u32 \<Rightarrow> u32 \<Rightarrow> mode_t \<Rightarrow> mode_t" where
  "grouped omode s c x m =
     (let m' = (m AND NOT (ucast c)) OR ucast s in if has omode (S_IFDIR OR S_IXALL) then m' OR ucast x else m')"

lemma grouped_step:
  "groupable b \<Longrightarrow> exec_cmd omode b (grouped omode s c x m) =
    (if cmd b = CHR ''-'' then grouped omode (s AND NOT (ucast (bits b))) (c OR ucast (bits b)) (x AND NOT (ucast (bits b))) m
     else if cmd b = CHR ''+'' then grouped omode (s OR ucast (bits b)) (c AND NOT (ucast (bits b))) (x AND NOT (ucast (bits b))) m
     else grouped omode s c (x OR (ucast (bits b) AND NOT s)) m)"
  by (rule bit_word_eqI) (auto simp: groupable_def exec_cmd_def grouped_def Let_def bit_simps)

lemma groupable_command: "groupable c \<Longrightarrow> command c"
  by (auto simp: groupable_def command_def)

lemma emit_take:
  "emit op v (buf, i) = Inr (buf', i') \<Longrightarrow>
   take i' buf' = take i buf @ (if v = 0 then [] else [\<lparr>cmd = op, cmd2 = 0, bits = ucast v\<rparr>]) \<and> i' = i + (if v = 0 then 0 else 1) \<and>
   (\<forall>n. i' \<le> n \<longrightarrow> drop n buf' = drop n buf)"
  by (auto simp: emit_def on_success_Inr put_cmd_Inr take_Suc_conv_app_nth split: if_splits)

definition emitted :: "u32 \<Rightarrow> u32 \<Rightarrow> u32 \<Rightarrow> bitcmd list" where
  "emitted s c x = (if c = 0 then [] else [\<lparr>cmd = CHR ''-'', cmd2 = 0, bits = ucast c\<rparr>]) @
     (if s = 0 then [] else [\<lparr>cmd = CHR ''+'', cmd2 = 0, bits = ucast s\<rparr>]) @
     (if x = 0 then [] else [\<lparr>cmd = CHR ''X'', cmd2 = 0, bits = ucast x\<rparr>])"

lemma emit_all_take:
  assumes "emit_all s c x (buf, i) = Inr (buf', i')"
  shows "take i' buf' = take i buf @ emitted s c x" "i' = i + length (emitted s c x)" "i' \<le> n \<Longrightarrow> drop n buf' = drop n buf"
proof -
  obtain b1 i1 b2 i2 where e: "emit (CHR ''-'') c (buf, i) = Inr (b1, i1)" "emit (CHR ''+'') s (b1, i1) = Inr (b2, i2)"
      "emit (CHR ''X'') x (b2, i2) = Inr (buf', i')"
    using assms by (auto simp: emit_all_def on_success_Inr)
  note steps = emit_take [OF e(1)] emit_take [OF e(2)] emit_take [OF e(3)]
  show "take i' buf' = take i buf @ emitted s c x"
    by (simp only: emitted_def steps [THEN conjunct1] append_assoc)
  show "i' = i + length (emitted s c x)" using steps by (simp add: emitted_def)
  have "i \<le> i1" "i1 \<le> i2" "i2 \<le> i'" using steps by (simp_all split: if_splits)
  then show "drop n buf' = drop n buf" if "i' \<le> n"
    using steps [THEN conjunct2, THEN conjunct2] that by simp
qed

lemma emit_all_total: "i + length (emitted s c x) \<le> length buf \<Longrightarrow> \<exists>st. emit_all s c x (buf, i) = Inr st"
  by (auto simp: emit_all_def emit_def on_success_def put_cmd_def emitted_def split: if_splits)

lemma emitted_commands: "list_all command (emitted s c x)" and
  emitted_meaning: "fold (exec_cmd omode) (emitted s c x) m = grouped omode s c x m"
  by (auto simp: emitted_def command_def exec_cmd_def grouped_def Let_def)

lemma grouped_0 [simp]: "grouped omode 0 0 0 m = m"
  by (simp add: grouped_def)

lemma emitted_0 [simp]: "emitted 0 0 0 = []"
  by (simp add: emitted_def)

text \<open>A run gives at most as many commands as it had.\<close>

lemma length_emitted: "length (emitted s c x) = (if c = 0 then 0 else 1) + (if s = 0 then 0 else 1) + (if x = 0 then 0 else 1)"
  by (simp add: emitted_def)

lemma drop_Cons: "drop n xs = y # ys \<Longrightarrow> n < length xs \<and> xs ! n = y \<and> drop (Suc n) xs = ys"
  by (metis drop_eq_Nil2 drop_Suc list.distinct(1) list.sel(3) not_le_imp_less nth_via_drop tl_drop)

lemma collect_run:
  assumes "drop n buf = g @ d # rest" "list_all groupable g" "\<not> groupable d"
  shows "\<exists>s' c' x'. collect buf n s c x = Some (s', c', x', n + length g) \<and>
    (\<forall>omode m. grouped omode s' c' x' m = fold (exec_cmd omode) g (grouped omode s c x m)) \<and>
    length (emitted s' c' x') \<le> length (emitted s c x) + length g"
  using assms
proof (induction g arbitrary: n s c x)
  case Nil
  then have "n < length buf" "buf ! n = d" using drop_Cons [of n buf d rest] by simp_all
  then show ?case using Nil.prems by (auto simp: collect.simps [of buf n] Let_def groupable_def)
next
  case (Cons b g)
  then have n: "n < length buf" "buf ! n = b" "drop (n + 1) buf = g @ d # rest"
    using drop_Cons [of n buf b] by simp_all
  let ?b = "ucast (bits b) :: u32"
  obtain s1 c1 x1 where one: "collect buf n s c x = collect buf (n + 1) s1 c1 x1"
      "\<And>omode m. exec_cmd omode b (grouped omode s c x m) = grouped omode s1 c1 x1 m"
      "length (emitted s1 c1 x1) \<le> Suc (length (emitted s c x))"
  proof -
    have "length (emitted (s AND NOT ?b) (c OR ?b) (x AND NOT ?b)) \<le> Suc (length (emitted s c x))"
      "length (emitted (s OR ?b) (c AND NOT ?b) (x AND NOT ?b)) \<le> Suc (length (emitted s c x))"
      "length (emitted s c (x OR (?b AND NOT s))) \<le> Suc (length (emitted s c x))"
      by (simp_all add: length_emitted)
    note len = this
    have b: "groupable b" using Cons.prems by simp
    then consider "cmd b = CHR ''-''" | "cmd b = CHR ''+''" | "cmd b = CHR ''X''" by (auto simp: groupable_def)
    then show ?thesis
    proof cases
      case 1
      then show ?thesis using that [of "s AND NOT ?b" "c OR ?b" "x AND NOT ?b"] len(1) n grouped_step [OF b]
        by (simp add: collect.simps [of buf n] Let_def)
    next
      case 2
      then show ?thesis using that [of "s OR ?b" "c AND NOT ?b" "x AND NOT ?b"] len(2) n grouped_step [OF b]
        by (simp add: collect.simps [of buf n] Let_def)
    next
      case 3
      then show ?thesis using that [of s c "x OR (?b AND NOT s)"] len(3) n grouped_step [OF b]
        by (simp add: collect.simps [of buf n] Let_def)
    qed
  qed
  from Cons.IH [OF n(3), of s1 c1 x1] Cons.prems obtain s' c' x' where
    "collect buf (n + 1) s1 c1 x1 = Some (s', c', x', n + 1 + length g)"
    "\<And>omode m. grouped omode s' c' x' m = fold (exec_cmd omode) g (grouped omode s1 c1 x1 m)"
    "length (emitted s' c' x') \<le> length (emitted s1 c1 x1) + length g" by auto
  with one show ?case by (auto intro!: exI)
qed

text \<open>From an index on, an array command_array commands up to a terminator; the commands behind the index are
  replaced by others with the same meaning, which take no more room.\<close>

lemma compress_run:
  assumes "drop nset buf = cs @ t # rest" "list_all command cs" "cmd t = CHR 0x00" "i \<le> nset"
  shows "\<exists>cs' rest'. compress_from buf i nset = Inr (take i buf @ cs' @ t # rest') \<and> list_all command cs' \<and>
    (\<forall>omode m. fold (exec_cmd omode) cs' m = fold (exec_cmd omode) cs m)"
  using assms
proof (induction "length cs" arbitrary: buf i nset cs rule: less_induct)
  case less
  have nset: "nset < length buf" "i < length buf" using less.prems by (auto dest: arg_cong [where f = length])
  show ?case
  proof (cases cs)
    case Nil
    then have "buf ! nset = t" using less.prems by (simp add: nth_via_drop)
    then have "compress_from buf i nset = Inr (take i buf @ t # drop (i + 1) buf)"
      using less.prems nset by (simp add: compress_from.simps [of buf i nset] groupable_def put_cmd_def on_success_def upd_conv_take_nth_drop)
    then show ?thesis using Nil by (intro exI [of _ "[]"] exI [of _ "drop (i + 1) buf"]) simp
  next
    case (Cons c cs1)
    then have c: "buf ! nset = c" "drop (nset + 1) buf = cs1 @ t # rest"
      using less.prems drop_Cons [of nset buf c] by simp_all
    show ?thesis
    proof (cases "groupable c")
      case False
      let ?buf = "buf[i := c]"
      have "\<exists>cs' rest'. compress_from ?buf (i + 1) (nset + 1) = Inr (take (i + 1) ?buf @ cs' @ t # rest') \<and> list_all command cs' \<and>
          (\<forall>omode m. fold (exec_cmd omode) cs' m = fold (exec_cmd omode) cs1 m)"
        using less.prems Cons c by (intro less.hyps) simp_all
      moreover have "compress_from buf i nset = compress_from ?buf (i + 1) (nset + 1)"
        using nset c False less.prems Cons
        by (simp add: compress_from.simps [of buf i nset] put_cmd_def on_success_def command_def)
          (auto simp: command_def)
      moreover have "take (i + 1) ?buf = take i buf @ [c]" using nset by (simp add: take_Suc_conv_app_nth)
      ultimately obtain cs' rest' where "compress_from buf i nset = Inr (take i buf @ (c # cs') @ t # rest')"
          "list_all command (c # cs')" "\<And>omode m. fold (exec_cmd omode) (c # cs') m = fold (exec_cmd omode) (c # cs1) m"
        using less.prems Cons by auto
      then show ?thesis using Cons by blast
    next
      case True
      let ?g = "takeWhile groupable cs" and ?h = "dropWhile groupable cs"
      obtain d r where d: "?h @ t # rest = d # r" "\<not> groupable d"
        using hd_dropWhile [of groupable cs] less.prems(3) by (cases ?h) (auto simp: groupable_def)
      have run: "drop nset buf = ?g @ d # r" using less.prems(1) by (simp flip: d(1))
      have "list_all groupable ?g" by (auto simp: list_all_iff dest: set_takeWhileD)
      from collect_run [OF run this d(2), of 0 0 0] obtain s c x where
        s: "collect buf nset 0 0 0 = Some (s, c, x, nset + length ?g)"
          "\<And>omode m. grouped omode s c x m = fold (exec_cmd omode) ?g m" "length (emitted s c x) \<le> length ?g"
        by auto
      have "nset + length ?g < length buf" using run by (auto dest: arg_cong [where f = length])
      then obtain buf' i' where e: "emit_all s c x (buf, i) = Inr (buf', i')"
        using emit_all_total [of i s c x buf] s(3) less.prems(4) by auto
      note e' = emit_all_take [OF e]
      have "drop (nset + length ?g) buf' = drop (length ?g) (drop nset buf)"
        using e'(2,3) s(3) less.prems(4) by (simp add: add.commute)
      then have "drop (nset + length ?g) buf' = ?h @ t # rest" by (simp add: run d(1))
      moreover have h: "list_all command ?h" using less.prems(2) by (auto simp: list_all_iff dest: set_dropWhileD)
      moreover have "length ?h < length cs" using True Cons by (simp add: le_imp_less_Suc length_dropWhile_le)
      ultimately obtain cs' rest' where IH: "compress_from buf' i' (nset + length ?g) = Inr (take i' buf' @ cs' @ t # rest')"
          "list_all command cs'" "\<And>omode m. fold (exec_cmd omode) cs' m = fold (exec_cmd omode) ?h m"
        using less.hyps [of ?h "nset + length ?g" buf' i'] h less.prems(3,4) e'(2) s(3) by auto
      have "compress_from buf i nset = Inr (take i buf @ (emitted s c x @ cs') @ t # rest')"
        using nset c(1) True s(1) e IH(1) e'(1) by (simp add: compress_from.simps [of buf i nset] on_success_def)
      moreover have "fold (exec_cmd omode) (emitted s c x @ cs') m = fold (exec_cmd omode) cs m" for omode m
      proof -
        have "fold (exec_cmd omode) (emitted s c x @ cs') m = fold (exec_cmd omode) (?g @ ?h) m"
          by (simp only: fold_append comp_apply emitted_meaning s(2) IH(3))
        then show ?thesis by simp
      qed
      ultimately show ?thesis using IH(2) emitted_commands by (metis list_all_append)
    qed
  qed
qed

definition command_array :: "bitcmd list \<Rightarrow> bitcmd list \<Rightarrow> bool" where
  "command_array buf cs \<longleftrightarrow> list_all command cs \<and> (\<exists>t rest. buf = cs @ t # rest \<and> cmd t = CHR 0x00)"

lemma command_array_getmode: "command_array buf cs \<Longrightarrow> getmode buf omode = Some (fold (exec_cmd omode) cs omode)"
  by (auto simp: command_array_def getmode_def getmode_commands getmode_stop)

lemma compress_command_array:
  assumes "command_array buf cs"
  obtains buf' cs' where "compress_mode buf = Inr buf'" "command_array buf' cs'"
    "\<And>omode m. fold (exec_cmd omode) cs' m = fold (exec_cmd omode) cs m"
  using assms compress_run [of 0 buf cs _ _ 0] unfolding command_array_def compress_mode_def by fastforce

text \<open>C6. Shortening a command array in place never accesses anything outside it and keeps its meaning: on
  every array of commands with a terminator it returns, and the result gives the same mode as before for
  every file, although the runs of commands were merged and overwritten while they were read.\<close>

theorem compress_mode_equiv:
  assumes "list_all command cs" "cmd t = CHR 0x00"
  shows "\<exists>buf. compress_mode (cs @ t # rest) = Inr buf \<and> (\<forall>omode. getmode buf omode \<noteq> None) \<and>
    (\<forall>omode. getmode buf omode = getmode (cs @ t # rest) omode)"
proof -
  have "command_array (cs @ t # rest) cs" using assms by (auto simp: command_array_def)
  then obtain buf cs' where "compress_mode (cs @ t # rest) = Inr buf" "command_array buf cs'" "command_array (cs @ t # rest) cs"
    "\<And>omode m. fold (exec_cmd omode) cs' m = fold (exec_cmd omode) cs m" by (blast elim: compress_command_array)
  then show ?thesis by (simp add: command_array_getmode)
qed

definition demo_cmds :: "bitcmd list" where
  "demo_cmds = [\<lparr>cmd = CHR ''-'', cmd2 = 0, bits = 0x1c0\<rparr>, \<lparr>cmd = CHR ''+'', cmd2 = 0, bits = 0x180\<rparr>,
     \<lparr>cmd = CHR ''X'', cmd2 = 0, bits = 0x40\<rparr>, \<lparr>cmd = CHR ''-'', cmd2 = 0, bits = 0x12\<rparr>]"

theorem compress_mode_equiv_witness:
  "\<exists>buf. compress_mode (demo_cmds @ [\<lparr>cmd = CHR 0x00, cmd2 = 0, bits = 0\<rparr>]) = Inr buf \<and> getmode buf 0x1ff = Some 0x1ed"
proof -
  have "getmode (demo_cmds @ [\<lparr>cmd = CHR 0x00, cmd2 = 0, bits = 0\<rparr>]) 0x1ff = Some 0x1ed"
    by (simp add: demo_cmds_def getmode_def getmode_from.simps has_def)
  then show ?thesis using compress_mode_equiv [of demo_cmds "\<lparr>cmd = CHR 0x00, cmd2 = 0, bits = 0\<rparr>" "[]"]
    by (auto simp: demo_cmds_def command_def)
qed

section \<open>No access outside the array\<close>

definition safe :: "mode_error + 'a \<Rightarrow> ('a \<Rightarrow> bool) \<Rightarrow> bool" where
  "safe r P \<longleftrightarrow> r \<noteq> Inl Fault \<and> (\<forall>x. r = Inr x \<longrightarrow> P x)"

named_theorems safe_rules \<open>results without a fault, step by step\<close>

lemma safe_Inr [safe_rules]: "P x \<Longrightarrow> safe (Inr x) P" and safe_Inl [safe_rules]: "e \<noteq> Fault \<Longrightarrow> safe (Inl e) P"
  by (simp_all add: safe_def)

lemma safe_on_success: "safe r P \<Longrightarrow> (\<And>x. P x \<Longrightarrow> safe (f x) Q) \<Longrightarrow> safe (on_success r f) Q"
  by (cases r) (auto simp: safe_def on_success_def)

lemma safe_if [safe_rules]: "(b \<Longrightarrow> safe r P) \<Longrightarrow> (\<not> b \<Longrightarrow> safe r' P) \<Longrightarrow> safe (if b then r else r') P"
  by simp

lemma safe_mono: "safe r P \<Longrightarrow> (\<And>x. P x \<Longrightarrow> Q x) \<Longrightarrow> safe r Q"
  by (simp add: safe_def)

text \<open>While a mode is compiled, the index stays inside the array and the entries before it are commands.\<close>

definition room :: "bitcmd list \<times> nat \<Rightarrow> bool" where
  "room st \<longleftrightarrow> snd st < length (fst st) \<and> 8 \<le> length (fst st) \<and> list_all command (take (snd st) (fst st))"

definition added :: "char \<Rightarrow> mode_t \<Rightarrow> mode_t \<Rightarrow> mode_t \<Rightarrow> bitcmd list" where
  "added op w oparg umsk =
     (if op = CHR ''='' then [\<lparr>cmd = CHR ''-'', cmd2 = 0, bits = (if w \<noteq> 0 then w else STANDARD_BITS)\<rparr>, set_bits_cmd (CHR ''+'') w oparg umsk]
      else if op \<in> {CHR ''+'', CHR ''-'', CHR ''X''} then [set_bits_cmd op w oparg umsk]
      else [copy_cmd op w oparg umsk])"

abbreviation valid_op :: "char \<Rightarrow> bool" where
  "valid_op op \<equiv> op \<in> {CHR ''='', CHR ''+'', CHR ''-'', CHR ''X'', CHR ''u'', CHR ''g'', CHR ''o''}"

lemma added_commands: "valid_op op \<Longrightarrow> list_all command (added op w oparg umsk)"
  by (auto simp: added_def command_def set_bits_cmd_def copy_cmd_def Let_def)

lemma addcmd_adds:
  assumes "i + 2 < length buf" "valid_op op"
  shows "\<exists>buf'. addcmd buf i op w oparg umsk = Inr (buf', i + length (added op w oparg umsk)) \<and> length buf' = length buf \<and>
    take (i + length (added op w oparg umsk)) buf' = take i buf @ added op w oparg umsk"
  using assms by (auto simp: addcmd_def added_def on_success_def put_cmd_def take_Suc_conv_app_nth)

lemma setlen_grows: "n + 4 < 2 ^ 32 \<Longrightarrow> unat (of_nat n + 4 :: u32) = n + 4"
  by (simp add: unat_word_ariths unat_of_nat)

lemma ADDCMD_adds:
  assumes "room (buf, i)" "valid_op op" "ADDCMD env op w oparg umsk (buf, i) = Inr (buf', i')"
    and "length buf + 4 < 2 ^ 32"
  shows "room (buf', i')" "take i' buf' = take i buf @ added op w oparg umsk" "i' = i + length (added op w oparg umsk)"
    "length buf' \<le> max (length buf) (i + 8)"
proof -
  obtain b where b: "addcmd b i op w oparg umsk = Inr (buf', i')" "i + 2 < length b" "take i b = take i buf"
      "8 \<le> length b" "length b \<le> max (length buf) (i + 8)"
    using assms setlen_grows [OF assms(4)] by (auto simp: ADDCMD_def realloc_items_def on_success_Inr room_def split: if_splits)
  from addcmd_adds [OF b(2) assms(2), of w oparg umsk] b(1) assms(1,2) b(2-5) added_commands [OF assms(2)]
  show "room (buf', i')" "take i' buf' = take i buf @ added op w oparg umsk" "i' = i + length (added op w oparg umsk)"
      "length buf' \<le> max (length buf) (i + 8)"
    by (auto simp: room_def added_def)
qed

text \<open>As long as the allocator has no block of $2^{32}$ entries, the number of entries does not wrap.\<close>

definition bounded :: "mode_env \<Rightarrow> bool" where
  "bounded env \<longleftrightarrow> (\<forall>n. grants env n \<longrightarrow> n + SET_LEN_INCR < 2 ^ 32)"

definition fits :: "mode_env \<Rightarrow> bitcmd list \<times> nat \<Rightarrow> bool" where
  "fits env st \<longleftrightarrow> room st \<and> bounded env \<and> length (fst st) + SET_LEN_INCR < 2 ^ 32"

lemma ADDCMD_fits:
  assumes "fits env (buf, i)" "ADDCMD env op w oparg umsk (buf, i) = Inr (buf', i')"
  shows "length buf' + SET_LEN_INCR < 2 ^ 32"
proof -
  have same: "addcmd b i op w oparg umsk = Inr (buf', i') \<Longrightarrow> length buf' = length b" for b
    by (auto simp: addcmd_def on_success_Inr put_cmd_def split: if_splits)
  have "realloc_items env buf n = Inr b \<Longrightarrow> length buf \<le> n \<Longrightarrow> length b + SET_LEN_INCR < 2 ^ 32" for n b
    using assms(1) by (auto simp: realloc_items_def fits_def bounded_def split: if_splits)
  then show ?thesis using assms same
    by (auto simp: ADDCMD_def on_success_Inr fits_def setlen_grows split: if_splits)
qed

lemma ADDCMD_safe [safe_rules]:
  assumes "fits env st" "valid_op op"
  shows "safe (ADDCMD env op w oparg umsk st) (fits env)"
proof -
  obtain buf i where st: "st = (buf, i)" by fastforce
  have f: "room (buf, i)" "length buf + 4 < 2 ^ 32" "bounded env" using assms(1) by (simp_all add: st fits_def)
  have "addcmd b i op w oparg umsk \<noteq> Inl Fault" if "i + 2 < length b" for b
    using addcmd_adds [OF that assms(2), of w oparg umsk] by auto
  moreover have "realloc_items env buf (length buf + 4) = Inl ENOMEM \<or>
      (\<exists>b. realloc_items env buf (length buf + 4) = Inr b \<and> length b = length buf + 4)"
    by (simp add: realloc_items_def)
  moreover have "i < length buf" using f(1) by (simp add: room_def)
  ultimately have "ADDCMD env op w oparg umsk (buf, i) \<noteq> Inl Fault"
    by (auto simp: ADDCMD_def on_success_def setlen_grows [OF f(2)])
  moreover have "fits env (buf', i')" if "ADDCMD env op w oparg umsk (buf, i) = Inr (buf', i')" for buf' i'
    using ADDCMD_adds(1) [OF f(1) assms(2) that f(2)] ADDCMD_fits [OF assms(1) [unfolded st] that] f(3) by (simp add: fits_def)
  ultimately show ?thesis by (auto simp: safe_def st)
qed

lemma add_to_safe [safe_rules]: "fits env (cmds s) \<Longrightarrow> valid_op op \<Longrightarrow> safe (add_to env umsk op oparg s) (\<lambda>s. fits env (cmds s))"
  unfolding add_to_def by (rule safe_on_success, rule ADDCMD_safe) (auto intro: safe_rules)

abbreviation operator :: "char \<Rightarrow> bool" where
  "operator op \<equiv> op \<in> {CHR ''+'', CHR ''-'', CHR ''=''}"

lemma add_copy_safe: "fits env (cmds s) \<Longrightarrow> operator op \<Longrightarrow> c \<in> {CHR ''u'', CHR ''g'', CHR ''o''} \<Longrightarrow>
    safe (add_copy env umsk op c s) (\<lambda>s. fits env (cmds s))"
  unfolding add_copy_def Let_def
  by (intro safe_on_success [where P = "\<lambda>s. fits env (cmds s)"] safe_rules) auto

lemma end_perms_safe: "fits env (cmds s) \<Longrightarrow> operator op \<Longrightarrow> safe (end_perms env umsk op s) (\<lambda>s. fits env (cmds s))"
  unfolding end_perms_def Let_def
  by (intro safe_on_success [where P = "\<lambda>s. fits env (cmds s)"] safe_rules) auto

lemma perm_letter_cmds: "perm_letter c s = Some s' \<Longrightarrow> cmds s' = cmds s"
  by (auto simp: perm_letter_def split: if_splits)

lemma parse_perms_safe: "fits env (cmds s) \<Longrightarrow> operator op \<Longrightarrow> safe (parse_perms env umsk op s p) (\<lambda>(s, rest). fits env (cmds s))"
proof (induction p arbitrary: s)
  case (Cons c p)
  show ?case
  proof (cases "perm_letter c s")
    case None
    then show ?thesis using Cons
      by (auto intro!: safe_on_success [OF add_copy_safe] safe_on_success [OF end_perms_safe] safe_rules)
  qed (use Cons perm_letter_cmds in auto)
qed (auto intro!: safe_on_success [OF end_perms_safe] safe_rules)

lemma setmode_ops_safe: "fits env st \<Longrightarrow> safe (setmode_ops env umsk w eq st p) (fits env)"
proof (induction env umsk w eq st p rule: setmode_ops.induct)
  case (2 env umsk w eq st op p)
  have "safe (start_op env umsk w eq st op p) (\<lambda>(s, rest). fits env (cmds s))"
    unfolding start_op_def using 2 by (auto intro!: parse_perms_safe safe_rules)
  then consider e where "start_op env umsk w eq st op p = Inl e" "e \<noteq> Fault"
    | s rest where "start_op env umsk w eq st op p = Inr (s, rest)" "fits env (cmds s)"
    by (cases "start_op env umsk w eq st op p") (auto simp: safe_def)
  then show ?case
  proof cases
    case 2
    then show ?thesis using "2.IH" by (auto simp: safe_Inr split: prod.split)
  qed (simp add: safe_Inl)
qed (simp add: safe_def)

lemma terminate_command_array: "room (buf, i) \<Longrightarrow> safe (terminate (buf, i)) (\<lambda>b. command_array b (take i buf))"
  by (auto simp: terminate_def command_array_def room_def safe_def upd_conv_take_nth_drop)

lemma initial_fits: "bounded env \<Longrightarrow> alloc_items env 8 = Inr buf \<Longrightarrow> fits env (buf, 0)"
  by (auto simp: alloc_items_def room_def fits_def split: if_splits)

abbreviation runs :: "bitcmd list \<Rightarrow> bool" where
  "runs buf \<equiv> \<forall>omode. \<exists>m. getmode buf omode = Some m"

lemma terminate_safe: "fits env st \<Longrightarrow> safe (terminate st) runs"
  by (cases st) (auto intro!: safe_mono [OF terminate_command_array] simp: fits_def command_array_getmode)

lemma compress_safe: "command_array b cs \<Longrightarrow> safe (compress_mode b) runs"
  by (erule compress_command_array) (simp add: safe_Inr command_array_getmode)

lemma finish_safe: "fits env st \<Longrightarrow> safe (on_success (terminate st) compress_mode) runs"
  by (cases st) (auto simp: fits_def intro: safe_on_success [OF terminate_command_array] compress_safe)

lemma setmode_octal_safe: "fits env (buf, 0) \<Longrightarrow> safe (setmode_octal env umsk buf p) runs"
  unfolding setmode_octal_def Let_def by (intro safe_rules safe_on_success [OF ADDCMD_safe terminate_safe]) simp_all

lemma setmode_symbolic_safe:
  "fits env (buf, 0) \<Longrightarrow> safe (on_success (setmode_ops env umsk w eq (buf, 0) p) (\<lambda>st. on_success (terminate st) compress_mode)) runs"
  by (rule safe_on_success [OF setmode_ops_safe finish_safe])

text \<open>C5. Whatever the text of a mode, and as long as the allocator has no block of $2^{32}$ entries, compiling it
  writes nothing outside the array: it gives an error that the caller can report, or an array of commands that
  \<open>getmode\<close> runs to its terminator for the mode of any file.\<close>

theorem setmode_safe:
  assumes "bounded env"
  shows "case setmode env current s of Inl e \<Rightarrow> e \<noteq> Fault | Inr buf \<Rightarrow> \<forall>omode. \<exists>m. getmode buf omode = Some m"
proof -
  have "safe (alloc_items env 8) (\<lambda>buf. fits env (buf, 0))"
    using initial_fits [OF assms] by (auto simp: safe_def alloc_items_def)
  moreover have "safe (if is_digit (hd p) then setmode_octal env umsk buf p
      else let (w, q) = parse_who 0 p in on_success (setmode_ops env umsk w False (buf, 0) q) (\<lambda>st. on_success (terminate st) compress_mode)) runs"
    if "fits env (buf, 0)" for buf umsk p
    using that setmode_octal_safe setmode_symbolic_safe by (simp add: split_beta)
  ultimately have "safe (setmode env current s) runs"
    unfolding setmode_def Let_def [of "takeWhile _ _"] Let_def [of "NOT _"]
    by (intro safe_if safe_Inl, simp, simp only: numeral_plus_numeral Num.add_num_simps) (rule safe_on_success)
  then show ?thesis by (auto simp: safe_def split: sum.split)
qed

definition demo_mode_env :: mode_env where
  "demo_mode_env = \<lparr>grants = (\<lambda>n. n \<le> 2 ^ 31), junk = (\<lambda>_. \<lparr>cmd = CHR ''?'', cmd2 = 7, bits = 9\<rparr>)\<rparr>"

theorem setmode_safe_witness:
  "bounded demo_mode_env \<and> (case setmode demo_mode_env 0x12 ''u=rwX,+Xg,o=st+,a-'' of Inl e \<Rightarrow> e \<noteq> Fault
     | Inr buf \<Rightarrow> \<forall>omode. \<exists>m. getmode buf omode = Some m)"
proof -
  have "bounded demo_mode_env" by (simp add: bounded_def demo_mode_env_def)
  then show ?thesis using setmode_safe [of demo_mode_env "0x12" "''u=rwX,+Xg,o=st+,a-''"] by simp
qed

end
