(* ===== verification/Mode_Meaning.thy ===== *)
theory Mode_Meaning
  imports Mode_Set
begin

text \<open>The meaning of symbolic modes: a mode as classes, operators and permissions, the text it is written as, and what
  it does to the mode of a file. Compiling that text with \<^verbatim>\<open>setmode\<close> and running the result with
  \<^verbatim>\<open>getmode\<close> does exactly that.\<close>

section \<open>What a symbolic mode means\<close>

datatype permission = Read | Write | Execute | Search | SetId | Sticky

primrec letter :: "permission \<Rightarrow> char" where
  "letter Read = CHR ''r''" | "letter Write = CHR ''w''" | "letter Execute = CHR ''x''" | "letter Search = CHR ''X''"
| "letter SetId = CHR ''s''" | "letter Sticky = CHR ''t''"

text \<open>An action is an operator with permissions, or with the class whose permissions it copies; a clause is the
  classes it applies to and its actions.\<close>

datatype action = Perms char "permission list" | Copy char char

type_synonym clause = "string \<times> action list"

primrec action_text :: "action \<Rightarrow> string" where
  "action_text (Perms op ps) = op # map letter ps"
| "action_text (Copy op c) = [op, c]"

definition clause_text :: "clause \<Rightarrow> string" where
  "clause_text cl = fst cl @ concat (map action_text (snd cl))"

fun mode_text :: "clause list \<Rightarrow> string" where
  "mode_text [] = []"
| "mode_text [cl] = clause_text cl"
| "mode_text (cl # cls) = clause_text cl @ CHR '','' # mode_text cls"

definition class_bits :: "char \<Rightarrow> mode_t" where
  "class_bits c = (if c = CHR ''a'' then STANDARD_BITS else if c = CHR ''u'' then S_ISUID OR S_IRWXU
     else if c = CHR ''g'' then S_ISGID OR S_IRWXG else S_IRWXO)"

definition classes :: "string \<Rightarrow> mode_t" where
  "classes ws = fold (\<lambda>c w. w OR class_bits c) ws 0"

text \<open>The special bits mean nothing for the class of others alone.\<close>

definition special :: "mode_t \<Rightarrow> bool" where
  "special w \<longleftrightarrow> w = 0 \<or> has w (NOT S_IRWXO)"

definition permission_bits :: "mode_t \<Rightarrow> permission \<Rightarrow> mode_t" where
  "permission_bits w p = (case p of Read \<Rightarrow> S_IRALL | Write \<Rightarrow> S_IWALL | Execute \<Rightarrow> S_IXALL | Search \<Rightarrow> 0
     | SetId \<Rightarrow> if special w then S_ISUID OR S_ISGID else 0 | Sticky \<Rightarrow> if special w then S_ISTXT else 0)"

definition all_bits :: "mode_t \<Rightarrow> permission list \<Rightarrow> mode_t" where
  "all_bits w ps = fold (\<lambda>p b. b OR permission_bits w p) ps 0"

definition selected_bits :: "mode_t \<Rightarrow> permission list \<Rightarrow> mode_t" where
  "selected_bits w ps = (if Sticky \<in> set ps \<and> special w then w OR S_ISTXT else w)"

definition change :: "char \<Rightarrow> mode_t \<Rightarrow> mode_t \<Rightarrow> mode_t \<Rightarrow> mode_t \<Rightarrow> mode_t" where
  "change op w umsk b m =
     (let sel = (if w = 0 then umsk else w) AND b
      in if op = CHR ''-'' then m AND NOT sel
         else if op = CHR ''='' then (m AND NOT (if w = 0 then STANDARD_BITS else w)) OR sel
         else m OR sel)"

definition class_of_mode :: "char \<Rightarrow> mode_t \<Rightarrow> mode_t" where
  "class_of_mode c m = (if c = CHR ''u'' then drop_bit 6 (m AND S_IRWXU) else if c = CHR ''g'' then drop_bit 3 (m AND S_IRWXG)
     else m AND S_IRWXO)"

definition spread :: "mode_t \<Rightarrow> mode_t \<Rightarrow> mode_t \<Rightarrow> mode_t" where
  "spread w umsk v =
     ((if w = 0 \<or> has w S_IRUSR then push_bit 6 v else 0) OR (if w = 0 \<or> has w S_IRGRP then push_bit 3 v else 0) OR
      (if w = 0 \<or> has w S_IROTH then v else 0)) AND (if w = 0 then umsk else - 1)"

primrec perform :: "mode_t \<Rightarrow> mode_t \<Rightarrow> mode_t \<Rightarrow> action \<Rightarrow> mode_t \<Rightarrow> mode_t" where
  "perform omode umsk w (Perms op ps) m =
     (let m = change op (selected_bits w ps) umsk (all_bits w ps) m
      in if Search \<in> set ps \<and> has omode (S_IFDIR OR S_IXALL)
         then m OR ((if selected_bits w ps = 0 then umsk else selected_bits w ps) AND S_IXALL) else m)"
| "perform omode umsk w (Copy op c) m =
     (let v = class_of_mode c m
      in if op = CHR ''+'' then m OR spread w umsk v
         else if op = CHR ''-'' then m AND NOT (spread w umsk v)
         else (m AND NOT (spread w umsk S_IRWXO)) OR spread w umsk v)"

definition perform_mode :: "mode_t \<Rightarrow> clause list \<Rightarrow> mode_t \<Rightarrow> mode_t" where
  "perform_mode umsk cls omode = fold (\<lambda>cl. fold (perform omode umsk (classes (fst cl))) (snd cl)) cls omode"

text \<open>Two combinations are left out: taking the search permission away, and the sticky bit without a class.\<close>

primrec proper :: "mode_t \<Rightarrow> action \<Rightarrow> bool" where
  "proper w (Perms op ps) \<longleftrightarrow> operator op \<and> (op = CHR ''-'' \<longrightarrow> Search \<notin> set ps) \<and> (w = 0 \<longrightarrow> Sticky \<notin> set ps)"
| "proper w (Copy op c) \<longleftrightarrow> operator op \<and> c \<in> {CHR ''u'', CHR ''g'', CHR ''o''}"

definition proper_clause :: "clause \<Rightarrow> bool" where
  "proper_clause cl \<longleftrightarrow> set (fst cl) \<subseteq> {CHR ''a'', CHR ''u'', CHR ''g'', CHR ''o''} \<and> snd cl \<noteq> [] \<and>
     list_all (proper (classes (fst cl))) (snd cl)"

section \<open>Compiling an action\<close>

abbreviation CAP :: nat where "CAP \<equiv> 2 ^ 31"

definition built :: "bitcmd list \<times> nat \<Rightarrow> bitcmd list \<Rightarrow> bool" where
  "built st cs \<longleftrightarrow> room st \<and> take (snd st) (fst st) = cs \<and> length (fst st) \<le> snd st + 8"

lemma built_index: "built st cs \<Longrightarrow> snd st = length cs"
  by (auto simp: built_def room_def)

lemma built_ADDCMD:
  assumes "built st cs" "valid_op op" "\<forall>n\<le>CAP. grants env n" "length cs + 12 \<le> CAP"
  shows "\<exists>st'. ADDCMD env op w oparg umsk st = Inr st' \<and> built st' (cs @ added op w oparg umsk)"
proof -
  obtain buf i where st: "st = (buf, i)" by fastforce
  have i: "i = length cs" "room (buf, i)" "length buf \<le> i + 8" "take i buf = cs"
    using built_index [OF assms(1)] assms(1) by (simp_all add: st built_def)
  have len: "length buf + 4 < 2 ^ 32" using i assms(4) by simp
  have "realloc_items env buf (length buf + 4) = Inr (buf @ map (junk env) [length buf..<length buf + 4])"
    using i assms(3,4) unfolding realloc_items_def by simp
  moreover have "addcmd b i op w oparg umsk \<noteq> Inl e" if "i + 2 < length b" for b e
    using addcmd_adds [OF that assms(2), of w oparg umsk] by auto
  moreover have "i < length buf" using i(2) by (simp add: room_def)
  ultimately have "ADDCMD env op w oparg umsk (buf, i) \<noteq> Inl e" for e
    by (auto simp: ADDCMD_def on_success_def setlen_grows [OF len])
  then obtain buf' i' where r: "ADDCMD env op w oparg umsk (buf, i) = Inr (buf', i')"
    by (metis obj_sumE surj_pair)
  from ADDCMD_adds [OF i(2) assms(2) r len] i r show ?thesis
    by (auto simp: st built_def)
qed

definition gives :: "mode_error + 'a \<Rightarrow> ('a \<Rightarrow> bool) \<Rightarrow> bool" where
  "gives r P \<longleftrightarrow> (\<exists>x. r = Inr x \<and> P x)"

lemma gives_Inr: "P x \<Longrightarrow> gives (Inr x) P"
  by (simp add: gives_def)

lemma gives_on_success: "gives r P \<Longrightarrow> (\<And>x. P x \<Longrightarrow> gives (f x) Q) \<Longrightarrow> gives (on_success r f) Q"
  by (auto simp: gives_def on_success_def)

lemma gives_mono: "gives r P \<Longrightarrow> (\<And>x. P x \<Longrightarrow> Q x) \<Longrightarrow> gives r Q"
  by (auto simp: gives_def)

abbreviation state_is :: "mode_t \<Rightarrow> mode_t \<Rightarrow> mode_t \<Rightarrow> bool \<Rightarrow> bitcmd list \<Rightarrow> perm_state \<Rightarrow> bool" where
  "state_is w b xb eq cs s \<equiv> who s = w \<and> perm s = b \<and> permXbits s = xb \<and> equalopdone s = eq \<and> built (cmds s) cs"

lemma gives_add_to:
  assumes "state_is w b xb eq cs s" "valid_op op" "\<forall>n\<le>CAP. grants env n" "length cs + 12 \<le> CAP"
  shows "gives (add_to env umsk op oparg s) (state_is w b xb eq (cs @ added op w oparg umsk))"
proof -
  obtain st where "ADDCMD env op w oparg umsk (cmds s) = Inr st" "built st (cs @ added op w oparg umsk)"
    using built_ADDCMD [OF _ assms(2,3,4), of "cmds s" w oparg umsk] assms(1) by blast
  then show ?thesis using assms(1) by (simp add: add_to_def gives_def on_success_def)
qed

lemma added_length: "length (added op w oparg umsk) \<le> 2"
  by (simp add: added_def)

definition perms_code :: "char \<Rightarrow> mode_t \<Rightarrow> mode_t \<Rightarrow> mode_t \<Rightarrow> mode_t \<Rightarrow> bitcmd list" where
  "perms_code op w b xb umsk = (if b \<noteq> 0 \<or> op = CHR ''='' then added op w b umsk else []) @
     (if xb \<noteq> 0 then added (CHR ''X'') w xb umsk else [])"

lemma gives_end_perms:
  assumes s: "state_is w b xb eq cs s" and op: "operator op" and g: "\<forall>n\<le>CAP. grants env n" and len: "length cs + 14 \<le> CAP"
    and eq: "op = CHR ''='' \<longrightarrow> \<not> eq"
  shows "gives (end_perms env umsk op s) (\<lambda>s'. \<exists>eq'. state_is w 0 0 eq' (cs @ perms_code op w b xb umsk) s')"
  unfolding end_perms_def Let_def
proof (rule gives_on_success)
  let ?first = "if b \<noteq> 0 \<or> op = CHR ''='' then added op w b umsk else []"
  let ?s = "if op = CHR ''='' then s\<lparr>equalopdone := True\<rparr> else s"
  have op': "valid_op op" using op by blast
  have len1: "length cs + 12 \<le> CAP" "length (cs @ ?first) + 12 \<le> CAP"
    using len added_length [of op w b umsk] by simp_all
  have "state_is w b xb (if op = CHR ''='' then True else eq) cs ?s" using s by simp
  from gives_add_to [OF this op' g len1(1), of umsk b]
  have "gives (on_success (add_to env umsk op b ?s) (\<lambda>s. Inr (s\<lparr>perm := 0\<rparr>))) (\<lambda>s'. \<exists>eq'. state_is w 0 xb eq' (cs @ added op w b umsk) s')"
    by (rule gives_on_success) (simp add: gives_Inr)
  moreover have "perm ?s = b" using s by simp
  ultimately show "gives (if perm s \<noteq> 0 \<or> (op = CHR ''='' \<and> \<not> equalopdone s)
      then on_success (add_to env umsk op (perm ?s) ?s) (\<lambda>s. Inr (s\<lparr>perm := 0\<rparr>)) else Inr s)
      (\<lambda>s'. \<exists>eq'. state_is w 0 xb eq' (cs @ ?first) s')"
    using s eq by (cases "b \<noteq> 0 \<or> op = CHR ''=''") (simp_all add: gives_Inr)
  fix s' assume "\<exists>eq'. state_is w 0 xb eq' (cs @ ?first) s'"
  then obtain eq' where s': "state_is w 0 xb eq' (cs @ ?first) s'" by blast
  have "valid_op (CHR ''X'')" by simp
  from gives_add_to [OF s' this g len1(2), of umsk xb]
  have "gives (on_success (add_to env umsk (CHR ''X'') xb s') (\<lambda>s. Inr (s\<lparr>permXbits := 0\<rparr>)))
      (\<lambda>s'. \<exists>eq'. state_is w 0 0 eq' ((cs @ ?first) @ added (CHR ''X'') w xb umsk) s')"
    by (rule gives_on_success) (simp add: gives_Inr)
  then show "gives (if permXbits s' \<noteq> 0 then on_success (add_to env umsk (CHR ''X'') (permXbits s') s') (\<lambda>s. Inr (s\<lparr>permXbits := 0\<rparr>))
      else Inr s') (\<lambda>s'. \<exists>eq'. state_is w 0 0 eq' (cs @ perms_code op w b xb umsk) s')"
    using s' unfolding perms_code_def by (cases "xb = 0") (simp_all add: gives_Inr)
qed

definition after_letters :: "permission list \<Rightarrow> perm_state \<Rightarrow> perm_state" where
  "after_letters ps s = fold (\<lambda>p s. the (perm_letter (letter p) s)) ps s"

lemma parse_letters: "parse_perms env umsk op s (map letter ps @ rest) = parse_perms env umsk op (after_letters ps s) rest"
proof (induction ps arbitrary: s)
  case (Cons p ps)
  have "\<exists>s'. perm_letter (letter p) s = Some s'" by (cases p) (simp_all add: perm_letter_def)
  then show ?case using Cons by (auto simp: after_letters_def)
qed (simp add: after_letters_def)

lemma selected_bits_snoc: "selected_bits w (ps @ [p]) = (if p = Sticky \<and> special w then selected_bits w ps OR S_ISTXT else selected_bits w ps)"
  by (auto simp: selected_bits_def or.assoc)

lemma special_selected_bits: "who s = selected_bits w ps \<Longrightarrow> (who s = 0 \<or> has (who s) (NOT S_IRWXO)) = special w"
proof -
  have "bit ((w OR S_ISTXT) AND NOT S_IRWXO) 9" by (simp add: bit_simps)
  then have "(w OR S_ISTXT) AND NOT S_IRWXO \<noteq> 0" by (metis bit_0_eq bot_apply bot_bool_def)
  then show "who s = selected_bits w ps \<Longrightarrow> (who s = 0 \<or> has (who s) (NOT S_IRWXO)) = special w"
    by (auto simp: selected_bits_def special_def has_def)
qed

lemma after_letters_state:
  assumes "state_is w 0 0 eq cs s"
  shows "state_is (selected_bits w ps) (all_bits w ps) (if Search \<in> set ps then S_IXALL else 0) eq cs (after_letters ps s)"
proof (induction ps rule: rev_induct)
  case Nil
  then show ?case using assms by (simp add: after_letters_def selected_bits_def all_bits_def)
next
  case (snoc p ps)
  have "after_letters (ps @ [p]) s = the (perm_letter (letter p) (after_letters ps s))" by (simp add: after_letters_def)
  moreover have "all_bits w (ps @ [p]) = all_bits w ps OR permission_bits w p" by (simp add: all_bits_def)
  ultimately show ?case using snoc special_selected_bits [of "after_letters ps s" w ps]
    by (cases p) (auto simp: perm_letter_def selected_bits_snoc permission_bits_def)
qed

text \<open>The text behind an action starts with another operator or a comma, or is empty.\<close>

definition action_ends :: "string \<Rightarrow> bool" where
  "action_ends rest \<longleftrightarrow> (\<forall>c r. rest = c # r \<longrightarrow> operator c \<or> c = CHR '','')"

lemma parse_perms_end: "action_ends rest \<Longrightarrow> parse_perms env umsk op s rest = on_success (end_perms env umsk op s) (\<lambda>s. Inr (s, rest))"
  by (cases rest) (auto simp: action_ends_def perm_letter_def)

primrec action_code :: "mode_t \<Rightarrow> mode_t \<Rightarrow> action \<Rightarrow> bitcmd list" where
  "action_code umsk w (Perms op ps) = perms_code op (selected_bits w ps) (all_bits w ps) (if Search \<in> set ps then S_IXALL else 0) umsk"
| "action_code umsk w (Copy op c) = [copy_cmd c w (ascii op) umsk]"

definition plain :: "mode_t \<Rightarrow> bool" where
  "plain w \<longleftrightarrow> w AND NOT S_ISTXT = w"

abbreviation op_start :: "mode_t \<Rightarrow> bool \<Rightarrow> bitcmd list \<times> nat \<Rightarrow> perm_state" where
  "op_start w eq st \<equiv> \<lparr>who = w, perm = 0, permXbits = 0, equalopdone = eq, cmds = st\<rparr>"

lemma start_op_proper:
  "operator op \<Longrightarrow> w' AND NOT S_ISTXT = w \<Longrightarrow>
   start_op env umsk w' eq st op p = parse_perms env umsk op (op_start w (eq \<and> op \<noteq> CHR ''='') st) p"
  by (auto simp: start_op_def)

lemma action_compiles:
  assumes act: "proper w act" and w: "w' AND NOT S_ISTXT = w" and rest: "action_ends rest" and st: "built st cs"
    and g: "\<forall>n\<le>CAP. grants env n" and len: "length cs + 14 \<le> CAP"
  shows "gives (start_op env umsk w' eq st (hd (action_text act)) (tl (action_text act) @ rest))
    (\<lambda>(s, r). r = rest \<and> who s AND NOT S_ISTXT = w \<and> built (cmds s) (cs @ action_code umsk w act))"
proof (cases act)
  case (Perms op ps)
  let ?s = "\<lparr>who = w, perm = 0, permXbits = 0, equalopdone = (eq \<and> op \<noteq> CHR ''=''), cmds = st\<rparr>"
  have "state_is w 0 0 (eq \<and> op \<noteq> CHR ''='') cs ?s" using st by simp
  note after_letters_state [OF this, of ps]
  from gives_end_perms [OF this _ g len, of op umsk] act Perms
  have "gives (end_perms env umsk op (after_letters ps ?s)) (\<lambda>s. \<exists>eq'. state_is (selected_bits w ps) 0 0 eq' (cs @ action_code umsk w act) s)"
    by simp
  moreover have "selected_bits w ps AND NOT S_ISTXT = w" using w by (auto simp: selected_bits_def bit_eq_iff bit_simps)
  ultimately have "gives (parse_perms env umsk op ?s (map letter ps @ rest))
      (\<lambda>(s, r). r = rest \<and> who s AND NOT S_ISTXT = w \<and> built (cmds s) (cs @ action_code umsk w act))"
    unfolding parse_letters parse_perms_end [OF rest] by (elim gives_on_success) (auto intro: gives_Inr)
  then show ?thesis using act Perms by (simp add: start_op_proper [OF _ w])
next
  case (Copy op c)
  let ?s = "\<lparr>who = w, perm = 0, permXbits = 0, equalopdone = (eq \<and> op \<noteq> CHR ''=''), cmds = st\<rparr>"
  let ?s1 = "if op = CHR ''='' then ?s\<lparr>equalopdone := True\<rparr> else ?s"
  have c: "c \<in> {CHR ''u'', CHR ''g'', CHR ''o''}" "operator op" "valid_op c" using act Copy by auto
  have len': "length cs + 12 \<le> CAP" using len by simp
  have "state_is w 0 0 (if op = CHR ''='' then True else eq) cs ?s1" using st by simp
  from gives_add_to [OF this c(3) g len', of umsk "ascii op"] c(1)
  have copied: "gives (add_copy env umsk op c ?s) (state_is w 0 0 (if op = CHR ''='' then True else eq) (cs @ action_code umsk w act))"
    by (auto simp: add_copy_def on_success_def Copy added_def)
  have "end_perms env umsk op s = Inr s" if "state_is w 0 0 (if op = CHR ''='' then True else eq) ds s" for s ds
    using that by (simp add: end_perms_def on_success_def)
  then have "gives (parse_perms env umsk op s rest) (\<lambda>(s, r). r = rest \<and> who s AND NOT S_ISTXT = w \<and> built (cmds s) ds)"
    if "state_is w 0 0 (if op = CHR ''='' then True else eq) ds s" for s ds
    using that w by (auto simp: parse_perms_end [OF rest] on_success_def gives_Inr)
  moreover have "perm_letter c ?s = None" using c(1) by (auto simp: perm_letter_def)
  ultimately have "gives (parse_perms env umsk op ?s (c # rest))
      (\<lambda>(s, r). r = rest \<and> who s AND NOT S_ISTXT = w \<and> built (cmds s) (cs @ action_code umsk w act))"
    using c(1) by (simp add: gives_on_success [OF copied])
  then show ?thesis using c(2) by (simp add: start_op_proper [OF _ w] Copy)
qed

lemma perms_code_meaning:
  assumes "operator op"
  shows "fold (exec_cmd omode) (perms_code op w b xb umsk) m =
    (let m = change op w umsk b m in if xb \<noteq> 0 \<and> has omode (S_IFDIR OR S_IXALL) then m OR ((if w = 0 then umsk else w) AND xb) else m)"
  using assms by (auto simp: perms_code_def added_def exec_cmd_def set_bits_cmd_def change_def Let_def)

lemma copy_targets:
  fixes t h :: u8
  assumes "t \<in> {0, CMD2_UBITS} " "u \<in> {0, CMD2_GBITS}" "v \<in> {0, CMD2_OBITS}" "h \<in> {CMD2_SET, CMD2_CLR, CMD2_SET OR CMD2_CLR}"
  shows "has (t OR u OR v OR h) CMD2_UBITS \<longleftrightarrow> t \<noteq> 0" "has (t OR u OR v OR h) CMD2_GBITS \<longleftrightarrow> u \<noteq> 0" "has (t OR u OR v OR h) CMD2_OBITS \<longleftrightarrow> v \<noteq> 0"
    "has (t OR u OR v OR h) CMD2_SET \<longleftrightarrow> h \<noteq> CMD2_CLR" "has (t OR u OR v OR h) CMD2_CLR \<longleftrightarrow> h \<noteq> CMD2_SET"
  using assms by (auto simp: has_def)

lemma ascii_operators [simp]: "ascii (CHR ''+'') = 43" "ascii (CHR ''-'') = 45" "ascii (CHR ''='') = 61"
  by (simp_all add: ascii_def)

lemma copy_common_spread:
  assumes "operator op"
  shows "copy_common (copy_cmd c w (ascii op) umsk) v m =
    (if op = CHR ''+'' then m OR spread w umsk v else if op = CHR ''-'' then m AND NOT (spread w umsk v)
     else (m AND NOT (spread w umsk S_IRWXO)) OR spread w umsk v)"
proof -
  define t u o' h where d: "t = (if w = 0 \<or> has w S_IRUSR then CMD2_UBITS else 0)" "u = (if w = 0 \<or> has w S_IRGRP then CMD2_GBITS else 0)"
    "o' = (if w = 0 \<or> has w S_IROTH then CMD2_OBITS else 0)"
    "h = (if op = CHR ''+'' then CMD2_SET else if op = CHR ''-'' then CMD2_CLR else CMD2_SET OR CMD2_CLR)"
  have c: "cmd2 (copy_cmd c w (ascii op) umsk) = t OR u OR o' OR h" "bits (copy_cmd c w (ascii op) umsk) = (if w = 0 then umsk else - 1)"
    using assms(1) by (auto simp: copy_cmd_def Let_def d or.assoc)
  have "t \<in> {0, CMD2_UBITS}" "u \<in> {0, CMD2_GBITS}" "o' \<in> {0, CMD2_OBITS}" "h \<in> {CMD2_SET, CMD2_CLR, CMD2_SET OR CMD2_CLR}"
    by (simp_all add: d)
  note flags = copy_targets [OF this]
  have nz: "t \<noteq> 0 \<longleftrightarrow> w = 0 \<or> has w S_IRUSR" "u \<noteq> 0 \<longleftrightarrow> w = 0 \<or> has w S_IRGRP" "o' \<noteq> 0 \<longleftrightarrow> w = 0 \<or> has w S_IROTH"
    by (simp_all add: d)
  consider "op = CHR ''+''" "h = CMD2_SET" | "op = CHR ''-''" "h = CMD2_CLR" | "op = CHR ''=''" "h = CMD2_SET OR CMD2_CLR"
    using assms(1) by (auto simp: d)
  then show ?thesis
  proof cases
    case 1
    then show ?thesis unfolding copy_common_def clear_copied_def set_copied_def Let_def c flags nz spread_def
      by (intro bit_word_eqI) (auto simp: bit_simps)
  next
    case 2
    then show ?thesis unfolding copy_common_def clear_copied_def set_copied_def Let_def c flags nz spread_def
      by (intro bit_word_eqI) (auto simp: bit_simps)
  next
    case 3
    then show ?thesis unfolding copy_common_def clear_copied_def set_copied_def Let_def c flags nz spread_def
      by (intro bit_word_eqI) (auto simp: bit_simps)
  qed
qed

lemma action_meaning:
  assumes "proper w act"
  shows "fold (exec_cmd omode) (action_code umsk w act) m = perform omode umsk w act m"
proof (cases act)
  case (Perms op ps)
  then show ?thesis using assms perms_code_meaning [of op] by (simp add: Let_def)
next
  case (Copy op c)
  then have c: "operator op" "c \<in> {CHR ''u'', CHR ''g'', CHR ''o''}" using assms by simp_all
  let ?c = "copy_cmd c w (ascii op) umsk"
  have "cmd ?c = c" by (simp add: copy_cmd_def Let_def)
  then have "exec_cmd omode ?c m = copy_common ?c (class_of_mode c m) m"
    using c(2) unfolding exec_cmd_def class_of_mode_def by auto
  then show ?thesis using copy_common_spread [OF c(1), of c w umsk "class_of_mode c m" m] Copy by (simp add: Let_def)
qed

section \<open>Compiling a whole mode\<close>

lemma action_code_length: "length (action_code umsk w act) \<le> 3"
proof (cases act)
  case (Perms op ps)
  then show ?thesis using added_length [of op "selected_bits w ps" "all_bits w ps" umsk]
    by (simp add: perms_code_def added_def [of "CHR ''X''"])
qed simp

lemma action_text_Cons: "proper w act \<Longrightarrow> \<exists>op p. action_text act = op # p \<and> operator op"
  by (cases act) auto

lemma actions_compile:
  assumes "list_all (proper w) acts" "acts \<noteq> []" "w' AND NOT S_ISTXT = w" "built st cs" "\<forall>n\<le>CAP. grants env n"
    and "length cs + 3 * length acts + 14 \<le> CAP" "rest = [] \<or> hd rest = CHR '',''"
  shows "\<exists>st' eq'. built st' (cs @ concat (map (action_code umsk w) acts)) \<and>
    setmode_ops env umsk w' eq st (concat (map action_text acts) @ rest) =
      (if rest = [] then Inr st' else let (v, p) = parse_who 0 (tl rest) in setmode_ops env umsk v eq' st' p)"
  using assms
proof (induction acts arbitrary: w' eq st cs)
  case (Cons act acts)
  obtain op p where txt1: "action_text act = op # p" using action_text_Cons [of w act] Cons.prems(1) by auto
  let ?rest = "concat (map action_text acts) @ rest"
  have ends: "action_ends ?rest"
  proof (cases acts)
    case Nil
    then show ?thesis using Cons.prems(7) by (auto simp: action_ends_def)
  next
    case (Cons a as)
    then have "proper w a" using Cons.prems(1) by simp
    then show ?thesis using action_text_Cons [of w a] Cons by (auto simp: action_ends_def)
  qed
  have "proper w act" "length cs + 14 \<le> CAP" using Cons.prems by simp_all
  from action_compiles [OF this(1) Cons.prems(3) ends Cons.prems(4,5) this(2), of umsk eq] obtain s where
    s: "start_op env umsk w' eq st op (p @ ?rest) = Inr (s, ?rest)" "who s AND NOT S_ISTXT = w"
       "built (cmds s) (cs @ action_code umsk w act)"
    by (auto simp: gives_def txt1)
  have step: "setmode_ops env umsk w' eq st (concat (map action_text (act # acts)) @ rest) =
      (if ?rest = [] then Inr (cmds s)
       else if hd ?rest \<noteq> CHR '','' then setmode_ops env umsk (who s) (equalopdone s) (cmds s) ?rest
       else let (v, p) = parse_who 0 (tl ?rest) in setmode_ops env umsk v (equalopdone s) (cmds s) p)"
    using s(1) by (simp add: txt1)
  show ?case
  proof (cases "acts = []")
    case True
    then show ?thesis using s(3) Cons.prems(7) step by (intro exI [of _ "cmds s"] exI [of _ "equalopdone s"]) auto
  next
    case False
    then obtain a as op' p' where a: "acts = a # as" "action_text a = op' # p'" "operator op'"
      using action_text_Cons [of w "hd acts"] Cons.prems(1) by (cases acts) auto
    then have "setmode_ops env umsk w' eq st (concat (map action_text (act # acts)) @ rest) =
        setmode_ops env umsk (who s) (equalopdone s) (cmds s) ?rest"
      using step by auto
    moreover have "length (cs @ action_code umsk w act) + 3 * length acts + 14 \<le> CAP"
      using Cons.prems(6) action_code_length [of umsk w act] by simp
    ultimately show ?thesis
      using Cons.IH [OF _ False s(2,3) Cons.prems(5) _ Cons.prems(7), of "equalopdone s"] Cons.prems(1) by simp
  qed
qed simp

lemma parse_classes:
  "set ws \<subseteq> {CHR ''a'', CHR ''u'', CHR ''g'', CHR ''o''} \<Longrightarrow> operator op \<Longrightarrow>
   parse_who v (ws @ op # p) = (fold (\<lambda>c w. w OR class_bits c) ws v, op # p)"
  by (induction ws arbitrary: v) (auto simp: class_bits_def)

lemma classes_plain: "classes ws AND NOT S_ISTXT = classes ws"
proof -
  have "v AND NOT S_ISTXT = v \<Longrightarrow> fold (\<lambda>c w. w OR class_bits c) ws v AND NOT S_ISTXT = fold (\<lambda>c w. w OR class_bits c) ws v" for v
  proof (induction ws arbitrary: v)
    case (Cons c ws)
    have "class_bits c AND NOT S_ISTXT = class_bits c" by (simp add: class_bits_def)
    then have "(v OR class_bits c) AND NOT S_ISTXT = v OR class_bits c" using Cons.prems by (simp add: bit.conj_disj_distrib2)
    then show ?case using Cons.IH by simp
  qed simp
  then show ?thesis by (simp add: classes_def)
qed

definition mode_code :: "mode_t \<Rightarrow> clause list \<Rightarrow> bitcmd list" where
  "mode_code umsk cls = concat (map (\<lambda>cl. concat (map (action_code umsk (classes (fst cl))) (snd cl))) cls)"

definition mode_size :: "clause list \<Rightarrow> nat" where
  "mode_size cls = sum_list (map (\<lambda>cl. length (snd cl)) cls)"

lemma clause_starts:
  assumes "proper_clause cl"
  shows "\<exists>op p. concat (map action_text (snd cl)) = op # p \<and> operator op"
  using assms action_text_Cons by (cases "snd cl") (fastforce simp: proper_clause_def)+

lemma clauses_compile:
  assumes "list_all proper_clause cls" "cls \<noteq> []" "built st cs" "\<forall>n\<le>CAP. grants env n" "length cs + 3 * mode_size cls + 14 \<le> CAP"
  shows "\<exists>st'. built st' (cs @ mode_code umsk cls) \<and>
    (let (w, p) = parse_who 0 (mode_text cls) in setmode_ops env umsk w eq st p) = Inr st'"
  using assms
proof (induction cls arbitrary: eq st cs rule: mode_text.induct)
  case (2 cl)
  then obtain op p where op: "concat (map action_text (snd cl)) = op # p" "operator op" using clause_starts [of cl] by auto
  from 2 have cl: "proper_clause cl" by simp
  with op have w: "parse_who 0 (mode_text [cl]) = (classes (fst cl), concat (map action_text (snd cl)))"
    by (simp add: clause_text_def parse_classes proper_clause_def classes_def)
  have "length cs + 3 * length (snd cl) + 14 \<le> CAP" using "2.prems"(5) by (simp add: mode_size_def)
  from actions_compile [OF _ _ classes_plain [of "fst cl"] "2.prems"(3,4) this, where rest = "[]" and umsk = umsk and eq = eq] cl show ?case
    unfolding w by (auto simp: proper_clause_def mode_code_def)
next
  case (3 cl cl' cls)
  then obtain op p where op: "concat (map action_text (snd cl)) = op # p" "operator op" using clause_starts [of cl] by auto
  let ?rest = "CHR '','' # mode_text (cl' # cls)"
  from 3 have cl: "proper_clause cl" by simp
  with op have w: "parse_who 0 (mode_text (cl # cl' # cls)) = (classes (fst cl), concat (map action_text (snd cl)) @ ?rest)"
    by (simp add: clause_text_def parse_classes proper_clause_def classes_def)
  have "length cs + 3 * length (snd cl) + 14 \<le> CAP" using "3.prems"(5) by (simp add: mode_size_def)
  from actions_compile [OF _ _ classes_plain [of "fst cl"] "3.prems"(3,4) this, where rest = ?rest and umsk = umsk and eq = eq] cl obtain st' eq' where
    st': "built st' (cs @ concat (map (action_code umsk (classes (fst cl))) (snd cl)))"
      "setmode_ops env umsk (classes (fst cl)) eq st (concat (map action_text (snd cl)) @ ?rest) =
       (let (v, p) = parse_who 0 (mode_text (cl' # cls)) in setmode_ops env umsk v eq' st' p)"
    by (auto simp: proper_clause_def)
  have "length (concat (map (action_code umsk w) acts)) \<le> 3 * length acts" for w acts
    using action_code_length [of umsk w] by (induction acts) (simp_all add: add_mono)
  from this [of "classes (fst cl)" "snd cl"]
  have "length (cs @ concat (map (action_code umsk (classes (fst cl))) (snd cl))) + 3 * mode_size (cl' # cls) + 14 \<le> CAP"
    using "3.prems"(5) by (simp add: mode_size_def)
  from "3.IH" [OF _ _ st'(1) "3.prems"(4) this, of eq'] "3.prems"(1) show ?case
    unfolding w prod.case Let_def st'(2) by (simp add: mode_code_def Let_def)
qed simp

lemma mode_code_meaning:
  "list_all proper_clause cls \<Longrightarrow> fold (exec_cmd omode) (mode_code umsk cls) m =
     fold (\<lambda>cl. fold (perform omode umsk (classes (fst cl))) (snd cl)) cls m"
proof (induction cls arbitrary: m)
  case (Cons cl cls)
  have "fold (exec_cmd omode) (concat (map (action_code umsk w) acts)) m = fold (perform omode umsk w) acts m"
    if "list_all (proper w) acts" for w acts m
    using that by (induction acts arbitrary: m) (simp_all add: action_meaning)
  then show ?case using Cons by (simp add: mode_code_def proper_clause_def)
qed (simp add: mode_code_def)

lemma action_text_chars:
  assumes "c \<in> set (action_text act)" "proper w act"
  shows "c \<noteq> CHR 0x00 \<and> \<not> is_digit c"
proof (cases act)
  case (Perms op ps)
  have "letter p \<noteq> CHR 0x00 \<and> \<not> is_digit (letter p)" for p by (cases p) (simp_all add: is_digit_def)
  then show ?thesis using assms Perms by (auto simp: is_digit_def)
next
  case (Copy op c)
  then show ?thesis using assms by (auto simp: is_digit_def)
qed

lemma clause_text_chars: "c \<in> set (clause_text cl) \<Longrightarrow> proper_clause cl \<Longrightarrow> c \<noteq> CHR 0x00 \<and> \<not> is_digit c"
  using action_text_chars by (fastforce simp: clause_text_def proper_clause_def list_all_iff is_digit_def)

lemma mode_text_chars:
  "list_all proper_clause cls \<Longrightarrow> c \<in> set (mode_text cls) \<Longrightarrow> c \<noteq> CHR 0x00 \<and> \<not> is_digit c"
  using clause_text_chars by (induction cls rule: mode_text.induct) (auto simp: is_digit_def)

lemma mode_text_Cons: "list_all proper_clause cls \<Longrightarrow> cls \<noteq> [] \<Longrightarrow> mode_text cls \<noteq> []"
  using clause_starts [of "hd cls"] by (cases cls rule: mode_text.cases) (auto simp: clause_text_def simp del: concat_eq_Nil_conv)

lemma built_finish:
  assumes "built st cs"
  obtains buf where "on_success (terminate st) compress_mode = Inr buf"
    "\<And>omode. getmode buf omode = Some (fold (exec_cmd omode) cs omode)"
proof -
  obtain b i where st: "st = (b, i)" by fastforce
  have r: "room (b, i)" "take i b = cs" using assms by (simp_all add: st built_def)
  then obtain b' where b': "terminate st = Inr b'" "command_array b' cs"
    using terminate_command_array [of b i] by (auto simp: safe_def st terminate_def room_def split: sum.splits)
  obtain buf cs' where "compress_mode b' = Inr buf" "command_array buf cs'"
    "\<And>omode m. fold (exec_cmd omode) cs' m = fold (exec_cmd omode) cs m" using compress_command_array [OF b'(2)] by blast
  then show thesis using that [of buf] b'(1) by (simp add: on_success_def command_array_getmode)
qed



end
