(* ===== verification/Spec2Isabelle.thy ===== *)
theory Spec2Isabelle
  imports Macho_Slide Boot_Main Xpc_Connection Crypto_Fips Mode_Meaning
begin

text \<open>
  Verification of two parts of the Panthera system: the EFI boot loader, which brings the kernel into
  memory and starts it (\<open>boot/efi/loader\<close>), and the XPC library, over which services of the running
  system talk to each other (\<open>userland/libsystem/build/sources/libxpc_impl.c\<close>).

  \<^bold>\<open>The boot loader.\<close> \<open>EfiMain\<close> of \<open>bootx64.c\<close> loads the kernel file, has \<open>panthera_loader.c\<close> parse it,
  places and copies its segments, moves its pointers by the difference between the linked and the
  loaded address, stages the boot extensions, builds the device tree and the boot arguments, leaves
  the firmware and jumps to the kernel through a piece of code below 4 GiB. Memory is a map from
  64-bit addresses to bytes; addresses, sizes and counters are words of the width they have in C and
  wrap around. The firmware is a record of functions on a world of its own, a parameter of everything
  that calls it; the layout of the kernel's \<open>boot_args\<close>, whose header is not in the tree, and the
  assembled handoff code are parameters too.

    \<^item> \<open>Panthera_Prelude\<close>: bytes, little-endian words, memory and its frame lemmas, loops over a cursor,
      the Hoare triples and preservation rules of the state monad. The collections of simplification
      rules and the locales \<open>mem_cell\<close> and \<open>cursor_loop\<close>, instantiated for the accesses of the code.
    \<^item> \<open>Macho_Types\<close>, \<open>Macho_Parse\<close>, \<open>Macho_Rebase\<close>, \<open>Macho_Slide\<close>: \<open>panthera_loader.c\<close>. Records with loaders
      at the C offsets; the parser with every early return; the relocation pass and the metadata pass
      on the shared memory, which read their tables from the memory they change. Shown: what an
      accepted image satisfies, that the parser reads the file only and agrees with an abstract
      summary of the commands, that the passes stay inside the image and move exactly what they should.
    \<^item> \<open>Boot_Text\<close>, \<open>Boot_State\<close>, \<open>Boot_DeviceTree\<close>, \<open>Boot_Files\<close>, \<open>Boot_Kexts\<close>, \<open>Boot_Kernel\<close>, \<open>Boot_Args\<close>,
      \<open>Boot_Main\<close>: \<open>bootx64.c\<close> in the order of its functions. The globals are the record \<open>boot\<close>, functions
      are actions of a state monad, and phases of \<open>EfiMain\<close> return the status of an early exit. Shown:
      tokens and lines of text, that the device tree decodes to the intended one, that files leave no
      handle and no buffer behind, which records staging leaves and where, what the staged image and
      its patches contain, that the boot arguments read back, and that the loader jumps only with
      everything below 4 GiB and inside the image, and does jump with a firmware that cooperates.

  \<^bold>\<open>The XPC library.\<close> Objects are on an explicit heap, a map from addresses to records with the tag as a
  constructor; addresses are not used again, so that a use after free, a double free and a \<open>NULL\<close>
  dereference are the value \<open>None\<close>, which also stands for not returning. Which of the coming
  allocations fail is part of the state. Kernel, dispatch queues, blocks and the client's handlers are
  parameters. Atomic counter updates are single steps of one thread.

    \<^item> \<open>Xpc_Object\<close>: retain, release and destruction, the scalar types, comparison and hash. The
      invariant \<open>accounts\<close> says that every counter equals the number of references from the program,
      from objects and from work in progress; release keeps it, ends and frees exactly the garbage.
    \<^item> \<open>Xpc_Containers\<close>: dictionaries and arrays. The locale \<open>assoc_store\<close> is the contract of a store by key;
      its interpretation \<open>dict\<close> discharges it for the slots of the code, and setting a value refines the
      update of a map.
    \<^item> \<open>Xpc_Wire\<close>: the flat form of messages. Reading back what was written gives an equal dictionary;
      which messages are safe to read, and one kind that is not.
    \<^item> \<open>Xpc_Types\<close>: relations between heaps that all steps respect (locale \<open>heap_relation\<close>, interpreted for
      \<open>evolves\<close>, types never change, and for \<open>spares\<close>, nobody else gets a reference).
    \<^item> \<open>Xpc_Connection\<close>: bootstrap, Mach messages, connections, the listener as a step relation and
      \<open>xpc_main\<close>. All library calls together are the relation \<open>library_step\<close>.

  \<^bold>\<open>Bounds, fuel and partiality.\<close> Loops over counters and cursors are structural recursions on the
  number of turns left, which is the loop bound of the code. Loops whose end depends on data are
  \<open>partial_function (option)\<close>: the two loops over the memory map, the work list of a release and the
  iterations that call blocks. That they end is proved where it is claimed, and the case in which the
  loop over the memory map does not end is proved as well. No fuel is used.

  \<^bold>\<open>Assumptions.\<close> Hypotheses on parameters are named predicates: a firmware with a sound map that accepts
  the exit after some tries, blocks whose retains and releases are balanced (\<open>client_keeps\<close>), a kernel
  whose receive leaves message and trailer inside the buffer (\<open>receives_tame\<close>). Each property with
  hypotheses has a witness on a concrete input.

  \<^bold>\<open>Not modelled.\<close> The kernel, its extensions and drivers, \<open>launchd\<close>, the dispatch library, the loader of
  shared libraries, daemons, commands, scripts and the packages that are only built here: code over
  hardware, concurrency or system calls whose meaning is not in the tree. The cryptography extension
  and the bootstrap allocator could be modelled and are not yet. Of \<open>libxpc_impl.c\<close>: the texts of
  \<open>xpc_copy_description\<close>, the audit token and entitlement queries, user and group queries and the
  transaction calls, which have no state. Of \<open>bootx64.c\<close>: what happens after the jump.
\<close>

end
